(* ===== verification/Prelude.thy ===== *)
theory Prelude
  imports Main "HOL-Library.Word" "HOL-Library.AList" "HOL-Library.Multiset"
begin

text \<open>
  Shared vocabulary of the development: the machine integers the code uses, the \<open>std\<close>
  operations on strings, vectors and hash maps that several modules call, and the interfaces
  (as locales) several components rely on.

  Strings are lists of bytes (Isabelle's \<open>char\<close> is a byte), as Rust's UTF-8 strings are.
  Vectors are lists. A \<open>HashMap\<close> is an association list with distinct keys: no code
  modelled here depends on the iteration order. The release profile of the crate does not set
  \<open>overflow-checks\<close>, so \<open>+\<close> on \<open>u64\<close> wraps, as \<open>+\<close> on words does.
\<close>

section \<open>Collections of facts\<close>

named_theorems hm_simps \<open>lookups and sizes after a hash map operation\<close>
named_theorems inv_intros \<open>an operation keeps an invariant of its component\<close>

section \<open>Machine integers\<close>

type_synonym u8 = "8 word"
type_synonym u16 = "16 word"
type_synonym u32 = "32 word"
type_synonym u64 = "64 word"

text \<open>\<open>saturating_sub\<close>, and the conversions that refuse what does not fit.\<close>

definition sat_sub :: "u64 \<Rightarrow> u64 \<Rightarrow> u64" where
  "sat_sub a b = (if a < b then 0 else a - b)"

definition u16_try_from :: "u64 \<Rightarrow> u16 option" where
  "u16_try_from k = (if k < 65536 then Some (ucast k) else None)"

lemma unat_sat_sub [simp]: "unat (sat_sub a b) = unat a - unat b"
  by (auto simp: sat_sub_def word_less_nat_alt unat_sub_if_size not_less)

lemma sat_sub_mono: "a \<le> b \<Longrightarrow> sat_sub a c \<le> sat_sub b c"
  by (simp add: word_le_nat_alt diff_le_mono)

lemma sat_sub_le: "sat_sub a b \<le> a"
  by (simp add: word_le_nat_alt)

lemma sat_sub_zero [simp]: "sat_sub a a = 0"
  by (simp add: sat_sub_def)

lemma u64_plus_no_wrap:
  "unat (a :: u64) + unat b < 2 ^ 64 \<Longrightarrow> unat (a + b) = unat a + unat b"
  by (simp add: unat_word_ariths)

lemma unat_u64_lt: "unat (a :: u64) < 18446744073709551616"
  using unsigned_less [of a] by simp

section \<open>Strings\<close>

definition starts_with :: "string \<Rightarrow> string \<Rightarrow> bool" where
  "starts_with p s \<longleftrightarrow> take (length p) s = p"

definition strip_prefix :: "string \<Rightarrow> string \<Rightarrow> string option" where
  "strip_prefix p s = (if starts_with p s then Some (drop (length p) s) else None)"

lemma starts_with_iff: "starts_with p s \<longleftrightarrow> (\<exists>t. s = p @ t)"
  by (metis append_take_drop_id append_eq_conv_conj starts_with_def)

lemma starts_with_append [simp]: "starts_with p (p @ s)"
  by (simp add: starts_with_def)

lemma strip_prefix_append [simp]: "strip_prefix p (p @ s) = Some s"
  by (simp add: strip_prefix_def)

lemma strip_prefix_Some: "strip_prefix p s = Some t \<longleftrightarrow> s = p @ t"
  by (auto simp: strip_prefix_def starts_with_iff)

text \<open>\<open>split_once\<close> on a separator string, and \<open>split\<close> on one character.\<close>

fun split_once :: "string \<Rightarrow> string \<Rightarrow> (string \<times> string) option" where
  "split_once sep [] = (if sep = [] then Some ([], []) else None)"
| "split_once sep (c # cs) =
     (if starts_with sep (c # cs) then Some ([], drop (length sep) (c # cs))
      else map_option (\<lambda>(a, b). (c # a, b)) (split_once sep cs))"

fun split_char :: "char \<Rightarrow> string \<Rightarrow> string list" where
  "split_char d [] = [[]]"
| "split_char d (c # cs) =
     (if c = d then [] # split_char d cs
      else (case split_char d cs of [] \<Rightarrow> [[c]] | w # ws \<Rightarrow> (c # w) # ws))"

lemma split_char_ne [simp]: "split_char d s \<noteq> []"
  by (induction s) (auto split: list.splits)

lemma split_char_no_sep: "d \<notin> set s \<Longrightarrow> split_char d s = [s]"
  by (induction s) auto

lemma split_char_append:
  "d \<notin> set s \<Longrightarrow> split_char d (s @ d # t) = s # split_char d t"
  by (induction s) (auto split: list.splits)

lemma split_once_char:
  "c \<notin> set s \<Longrightarrow> split_once [c] (s @ c # t) = Some (s, t)"
  by (induction s) (auto simp: starts_with_def)

lemma split_once_none: "c \<notin> set s \<Longrightarrow> split_once [c] s = None"
  by (induction s) (auto simp: starts_with_def)

lemma split_once_Some: "split_once sep s = Some (a, b) \<Longrightarrow> s = a @ sep @ b"
proof (induction s arbitrary: a)
  case (Cons c s)
  then show ?case
    by (cases "starts_with sep (c # s)") (auto simp: starts_with_iff)
qed (auto split: if_splits)

section \<open>Hash maps\<close>

abbreviation (input) hm_get :: "('k \<times> 'v) list \<Rightarrow> 'k \<Rightarrow> 'v option" where
  "hm_get \<equiv> map_of"

abbreviation (input) hm_insert :: "'k \<Rightarrow> 'v \<Rightarrow> ('k \<times> 'v) list \<Rightarrow> ('k \<times> 'v) list" where
  "hm_insert \<equiv> AList.update"

abbreviation (input) hm_remove :: "'k \<Rightarrow> ('k \<times> 'v) list \<Rightarrow> ('k \<times> 'v) list" where
  "hm_remove \<equiv> AList.delete"

definition hm_retain :: "('k \<Rightarrow> 'v \<Rightarrow> bool) \<Rightarrow> ('k \<times> 'v) list \<Rightarrow> ('k \<times> 'v) list" where
  "hm_retain p m = filter (\<lambda>(k, v). p k v) m"

definition hm_inv :: "('k \<times> 'v) list \<Rightarrow> bool" where
  "hm_inv m \<longleftrightarrow> distinct (map fst m)"

text \<open>
  The contract of \<open>HashMap\<close> the components use, and the lemmas they share, proved once.
\<close>

locale hash_map =
  fixes empty :: "'m"
    and insert :: "'k \<Rightarrow> 'v \<Rightarrow> 'm \<Rightarrow> 'm"
    and remove :: "'k \<Rightarrow> 'm \<Rightarrow> 'm"
    and retain :: "('k \<Rightarrow> 'v \<Rightarrow> bool) \<Rightarrow> 'm \<Rightarrow> 'm"
    and get :: "'m \<Rightarrow> 'k \<Rightarrow> 'v option"
    and inv :: "'m \<Rightarrow> bool"
  assumes get_empty: "get empty k = None"
    and get_insert: "get (insert k v m) k' = (if k' = k then Some v else get m k')"
    and get_remove: "get (remove k m) k' = (if k' = k then None else get m k')"
    and get_retain: "inv m \<Longrightarrow> get (retain p m) k =
      (case get m k of Some v \<Rightarrow> if p k v then Some v else None | None \<Rightarrow> None)"
    and inv_empty: "inv empty"
    and inv_insert: "inv m \<Longrightarrow> inv (insert k v m)"
    and inv_remove: "inv m \<Longrightarrow> inv (remove k m)"
    and inv_retain: "inv m \<Longrightarrow> inv (retain p m)"
begin

lemma retain_subset: "inv m \<Longrightarrow> get (retain p m) k = Some v \<Longrightarrow> get m k = Some v \<and> p k v"
  by (auto simp: get_retain split: option.splits if_splits)

lemma retain_none: "inv m \<Longrightarrow> (\<And>v. \<not> p k v) \<Longrightarrow> get (retain p m) k = None"
  by (auto simp: get_retain split: option.splits)

lemma retain_keep: "inv m \<Longrightarrow> (\<And>v. p k v) \<Longrightarrow> get (retain p m) k = get m k"
  by (auto simp: get_retain split: option.splits)

end

lemma map_of_filter_distinct:
  "distinct (map fst m) \<Longrightarrow> map_of (filter (\<lambda>(k, v). p k v) m) k =
     (case map_of m k of Some v \<Rightarrow> if p k v then Some v else None | None \<Rightarrow> None)"
proof (induction m)
  case (Cons a m)
  have "fst a \<notin> set (map fst (filter (\<lambda>(k, v). p k v) m))"
    using Cons.prems by auto
  then have "k = fst a \<Longrightarrow> map_of (filter (\<lambda>(k, v). p k v) m) k = None"
    by (simp add: map_of_eq_None_iff)
  with Cons show ?case
    by (cases a) (auto split: option.splits)
qed simp

lemma distinct_map_filter_fst: "distinct (map fst m) \<Longrightarrow> distinct (map fst (filter P m))"
  by (simp add: distinct_map_filter)

interpretation hm: hash_map "[]" AList.update AList.delete hm_retain map_of hm_inv
proof (unfold_locales, goal_cases)
  case (2 k v m k')
  then show ?case by (simp add: update_conv')
next
  case (3 k m k')
  then show ?case by (simp add: delete_conv')
next
  case (4 m p k)
  then show ?case by (simp add: hm_retain_def hm_inv_def map_of_filter_distinct)
next
  case (6 m k v)
  then show ?case by (simp add: hm_inv_def distinct_update)
next
  case (7 m k)
  then show ?case by (simp add: hm_inv_def distinct_delete)
next
  case (8 m p)
  then show ?case by (simp add: hm_inv_def hm_retain_def distinct_map_filter_fst)
qed (simp_all add: hm_inv_def)

lemmas [hm_simps] = hm.get_empty hm.get_insert hm.get_remove hm.get_retain
lemmas [inv_intros] = hm.inv_empty hm.inv_insert hm.inv_remove hm.inv_retain

lemma length_hm_insert: "length (AList.update k v m) =
    (if k \<in> fst ` set m then length m else Suc (length m))"
  by (induction m) auto

lemma length_hm_retain_le: "length (hm_retain p m) \<le> length m"
  by (simp add: hm_retain_def)

section \<open>Systems of operations\<close>

text \<open>
  Several components are a state and a set of operations on it. A property of every state
  such a system passes through is proved on single operations and lifted once, here.
\<close>

fun run_ops :: "('s \<Rightarrow> 'e \<Rightarrow> 's) \<Rightarrow> 's \<Rightarrow> 'e list \<Rightarrow> 's" where
  "run_ops step s [] = s"
| "run_ops step s (e # es) = run_ops step (step s e) es"

lemma run_ops_append: "run_ops step s (es @ fs) = run_ops step (run_ops step s es) fs"
  by (induction es arbitrary: s) auto

locale op_system =
  fixes step :: "'s \<Rightarrow> 'e \<Rightarrow> 's"
    and good :: "'s \<Rightarrow> bool"
    and start :: "'s"
  assumes good_start: "good start"
    and good_step: "good s \<Longrightarrow> good (step s e)"
begin

lemma good_from: "good s \<Longrightarrow> good (run_ops step s es)"
  by (induction es arbitrary: s) (auto intro: good_step)

lemma good_run: "good (run_ops step start es)"
  by (rule good_from [OF good_start])

lemma good_prefix: "good (run_ops step start (take n es))"
  by (rule good_run)

end

section \<open>Lists\<close>

text \<open>\<open>iter_mut().find(p)\<close> and an assignment through it: the first match is changed.\<close>

fun update_first :: "('a \<Rightarrow> bool) \<Rightarrow> ('a \<Rightarrow> 'a) \<Rightarrow> 'a list \<Rightarrow> 'a list" where
  "update_first P f [] = []"
| "update_first P f (x # xs) = (if P x then f x # xs else x # update_first P f xs)"

text \<open>\<open>iter().position(p)\<close>.\<close>

fun position :: "('a \<Rightarrow> bool) \<Rightarrow> 'a list \<Rightarrow> nat option" where
  "position P [] = None"
| "position P (x # xs) = (if P x then Some 0 else map_option Suc (position P xs))"

text \<open>\<open>Vec::remove(i)\<close>.\<close>

definition remove_at :: "nat \<Rightarrow> 'a list \<Rightarrow> 'a list" where
  "remove_at i xs = take i xs @ drop (Suc i) xs"

lemma length_update_first [simp]: "length (update_first P f xs) = length xs"
  by (induction xs) auto

lemma update_first_none: "find P xs = None \<Longrightarrow> update_first P f xs = xs"
  by (induction xs) (auto split: if_splits)

lemma map_update_first: "(\<And>x. P x \<Longrightarrow> g (f x) = g x) \<Longrightarrow> map g (update_first P f xs) = map g xs"
  by (induction xs) auto

lemma find_update_first:
  "find P xs = Some x \<Longrightarrow> (\<And>x. P x \<Longrightarrow> P (f x)) \<Longrightarrow> find P (update_first P f xs) = Some (f x)"
  by (induction xs) (auto split: if_splits)

lemma find_update_first_other:
  "(\<And>x. P x \<Longrightarrow> \<not> Q x \<and> \<not> Q (f x)) \<Longrightarrow> find Q (update_first P f xs) = find Q xs"
  by (induction xs) auto

lemma position_None: "position P xs = None \<longleftrightarrow> (\<forall>x \<in> set xs. \<not> P x)"
  by (induction xs) auto

lemma position_Some: "position P xs = Some i \<Longrightarrow> i < length xs \<and> P (xs ! i)"
  by (induction xs arbitrary: i) (auto split: if_splits simp: nth_Cons')

lemma length_remove_at: "i < length xs \<Longrightarrow> length (remove_at i xs) = length xs - 1"
  by (simp add: remove_at_def)

lemma mset_remove_at: "i < length xs \<Longrightarrow> mset xs = add_mset (xs ! i) (mset (remove_at i xs))"
proof -
  assume "i < length xs"
  then have "xs = take i xs @ xs ! i # drop (Suc i) xs" by (rule id_take_nth_drop)
  then have "mset xs = mset (take i xs @ xs ! i # drop (Suc i) xs)" by (rule arg_cong)
  then show ?thesis by (simp add: remove_at_def)
qed

lemma set_remove_at_subset: "set (remove_at i xs) \<subseteq> set xs"
  by (auto simp: remove_at_def dest: in_set_takeD in_set_dropD)

lemma filter_weaken: "(\<And>x. Q x \<Longrightarrow> P x) \<Longrightarrow> filter Q (filter P xs) = filter Q xs"
  by (auto simp: filter_filter intro: filter_cong)

lemma length_filter_weaken:
  "(\<And>x. Q x \<Longrightarrow> P x) \<Longrightarrow> length (filter Q xs) \<le> length (filter P xs)"
  by (induction xs) (auto simp: le_Suc_eq)

lemma find_Some_split: "find P xs = Some x \<Longrightarrow> x \<in> set xs \<and> P x"
  by (auto simp: find_Some_iff)

lemma dropWhile_sorted_filter:
  assumes "sorted_wrt (\<le>) (xs :: 'a :: linorder list)"
  shows "dropWhile (\<lambda>x. x < c) xs = filter (\<lambda>x. c \<le> x) xs"
  using assms
proof (induction xs)
  case (Cons x xs)
  show ?case
  proof (cases "x < c")
    case True
    with Cons show ?thesis by (auto simp: not_le)
  next
    case False
    with Cons.prems have "\<forall>y \<in> set (x # xs). c \<le> y" by auto
    with False show ?thesis by (simp add: filter_id_conv)
  qed
qed simp

end
