(* ===== verification/Text_Numbers.thy ===== *)
theory Text_Numbers
  imports Prelude
begin

text \<open>
  Decimal and hexadecimal text: what \<open>format!("{n}")\<close>, \<open>format!("{n:04}")\<close>,
  \<open>format!("{b:02x}")\<close>, \<open>str::parse\<close> and \<open>from_str_radix\<close> compute,
  with the round trips the components rely on.
\<close>

section \<open>Decimal\<close>

definition digit_char :: "nat \<Rightarrow> char" where
  "digit_char d = char_of (48 + d)"

definition is_digit :: "char \<Rightarrow> bool" where
  "is_digit c \<longleftrightarrow> 48 \<le> (of_char c :: nat) \<and> (of_char c :: nat) \<le> 57"

definition digit_val :: "char \<Rightarrow> nat" where
  "digit_val c = of_char c - 48"

fun show_nat :: "nat \<Rightarrow> string" where
  "show_nat n = (if n < 10 then [digit_char n] else show_nat (n div 10) @ [digit_char (n mod 10)])"

declare show_nat.simps [simp del]

definition show_u64 :: "u64 \<Rightarrow> string" where
  "show_u64 w = show_nat (unat w)"

text \<open>Zero padding to a width, as \<open>{:04}\<close> does: longer numbers are printed whole.\<close>

definition show_padded :: "nat \<Rightarrow> nat \<Rightarrow> string" where
  "show_padded w n = replicate (w - length (show_nat n)) (CHR ''0'') @ show_nat n"

definition digits_val :: "string \<Rightarrow> nat" where
  "digits_val s = foldl (\<lambda>n c. 10 * n + digit_val c) 0 s"

text \<open>
  \<open>str::parse\<close> for an unsigned type holding the numbers below a bound: an optional plus
  sign, then at least one digit and only digits; a value that does not fit is an error.
\<close>

definition parse_below :: "nat \<Rightarrow> string \<Rightarrow> nat option" where
  "parse_below bound s =
     (let ds = (case s of c # cs \<Rightarrow> if c = CHR ''+'' then cs else s | [] \<Rightarrow> [])
      in if ds = [] \<or> \<not> list_all is_digit ds then None
         else if digits_val ds < bound then Some (digits_val ds) else None)"

definition parse_u64 :: "string \<Rightarrow> u64 option" where
  "parse_u64 s = map_option of_nat (parse_below (2 ^ 64) s)"

definition parse_u16 :: "string \<Rightarrow> u16 option" where
  "parse_u16 s = map_option of_nat (parse_below (2 ^ 16) s)"

lemma of_char_digit: "d < 10 \<Longrightarrow> (of_char (digit_char d) :: nat) = 48 + d"
  by (simp add: digit_char_def)

lemma digit_val_char [simp]: "d < 10 \<Longrightarrow> digit_val (digit_char d) = d"
  by (simp add: digit_val_def of_char_digit)

lemma is_digit_char [simp]: "d < 10 \<Longrightarrow> is_digit (digit_char d)"
  by (simp add: is_digit_def of_char_digit)

lemma show_nat_ne [simp]: "show_nat n \<noteq> []"
  by (subst show_nat.simps) simp

lemma show_nat_digits: "list_all is_digit (show_nat n)"
proof (induction n rule: show_nat.induct)
  case (1 n)
  then show ?case by (subst show_nat.simps) simp
qed

lemma digits_val_snoc [simp]: "digits_val (s @ [c]) = 10 * digits_val s + digit_val c"
  by (simp add: digits_val_def)

lemma digits_val_show [simp]: "digits_val (show_nat n) = n"
proof (induction n rule: show_nat.induct)
  case (1 n)
  show ?case
  proof (cases "n < 10")
    case True
    then show ?thesis by (subst show_nat.simps) (simp add: digits_val_def)
  next
    case False
    with 1 have "digits_val (show_nat (n div 10)) = n div 10" by simp
    with False show ?thesis by (subst show_nat.simps) simp
  qed
qed

lemma plus_not_digit [simp]: "\<not> is_digit (CHR ''+'')"
  by (simp add: is_digit_def)

lemma show_nat_hd: "is_digit (hd (show_nat n))"
  using show_nat_digits [of n] by (cases "show_nat n") auto

lemma parse_below_show: "n < bound \<Longrightarrow> parse_below bound (show_nat n) = Some n"
proof (cases "show_nat n")
  case (Cons c cs)
  then have "c \<noteq> CHR ''+''" and "digits_val (c # cs) = n" and "list_all is_digit (c # cs)"
    using show_nat_hd [of n] show_nat_digits [of n] digits_val_show [of n] by auto
  moreover assume "n < bound"
  ultimately show ?thesis by (simp add: parse_below_def Cons)
qed simp

lemma parse_u64_show [simp]: "parse_u64 (show_u64 w) = Some w"
  by (simp add: parse_u64_def show_u64_def parse_below_show unat_u64_lt)

lemma show_nat_inj [simp]: "show_nat m = show_nat n \<longleftrightarrow> m = n"
  by (metis digits_val_show)

lemma show_nat_no_char: "\<not> is_digit c \<Longrightarrow> c \<notin> set (show_nat n)"
  using show_nat_digits [of n] by (auto simp: list_all_iff)

lemma digits_val_zeros [simp]: "digits_val (replicate k (CHR ''0'') @ s) = digits_val s"
proof (induction k)
  case (Suc k)
  have "digits_val (CHR ''0'' # t) = digits_val t" for t
    by (simp add: digits_val_def digit_val_def)
  with Suc show ?case by simp
qed simp

lemma show_padded_inj [simp]: "show_padded w m = show_padded w n \<longleftrightarrow> m = n"
  by (metis digits_val_show digits_val_zeros show_padded_def)

section \<open>Hexadecimal\<close>

definition hex_digit :: "bool \<Rightarrow> nat \<Rightarrow> char" where
  "hex_digit upper d =
     (if d < 10 then char_of (48 + d) else char_of ((if upper then 55 else 87) + d))"

definition hex_val :: "char \<Rightarrow> nat option" where
  "hex_val c = (let n = of_char c :: nat in
     if 48 \<le> n \<and> n \<le> 57 then Some (n - 48)
     else if 65 \<le> n \<and> n \<le> 70 then Some (n - 55)
     else if 97 \<le> n \<and> n \<le> 102 then Some (n - 87)
     else None)"

text \<open>\<open>{:02x}\<close> and \<open>{:02X}\<close> of a byte.\<close>

definition show_hex2 :: "bool \<Rightarrow> char \<Rightarrow> string" where
  "show_hex2 upper c =
     [hex_digit upper (of_char c div 16), hex_digit upper (of_char c mod 16)]"

text \<open>
  \<open>u8::from_str_radix(s, 16)\<close> on a string of exactly two bytes: two hex digits, or a plus
  sign and one digit, which the standard library's integer parser takes too.
\<close>

definition parse_hex2 :: "char \<Rightarrow> char \<Rightarrow> char option" where
  "parse_hex2 a b =
     (if a = CHR ''+'' then map_option char_of (hex_val b)
      else (case (hex_val a, hex_val b) of
        (Some x, Some y) \<Rightarrow> Some (char_of (16 * x + y)) | _ \<Rightarrow> None))"

lemma hex_val_digit: "d < 16 \<Longrightarrow> hex_val (hex_digit u d) = Some d"
  by (auto simp: hex_val_def hex_digit_def Let_def)

lemma hex_digit_not_plus: "d < 16 \<Longrightarrow> hex_digit u d \<noteq> CHR ''+''"
  using hex_val_digit [of d u] by (auto simp: hex_val_def Let_def)

lemma parse_hex2_show:
  "parse_hex2 (hex_digit u (of_char c div 16)) (hex_digit u (of_char c mod 16)) = Some c"
proof -
  have "(of_char c :: nat) < 256" by (metis nat_of_char_less_256)
  then have "(of_char c :: nat) div 16 < 16" by (simp add: less_mult_imp_div_less)
  then show ?thesis
    by (simp add: parse_hex2_def hex_val_digit hex_digit_not_plus)
qed

definition parse_u32 :: "string \<Rightarrow> u32 option" where
  "parse_u32 s = map_option of_nat (parse_below (2 ^ 32) s)"

definition show_u32 :: "u32 \<Rightarrow> string" where
  "show_u32 w = show_nat (unat w)"

lemma show_u32_digits: "list_all is_digit (show_u32 i) \<and> show_u32 i \<noteq> []"
  by (simp add: show_u32_def show_nat_digits)

lemma show_u32_no_char: "\<not> is_digit c \<Longrightarrow> c \<notin> set (show_u32 i)"
  using show_u32_digits [of i] by (auto simp: list_all_iff)

lemma parse_show_u32: "parse_u32 (show_u32 i) = Some i"
proof -
  have "unat i < 2 ^ 32" using unsigned_less [of i] by simp
  then show ?thesis by (simp add: parse_u32_def show_u32_def parse_below_show)
qed

end
