(* ===== verification/Wire.thy ===== *)
theory Wire
  imports Text_Numbers
begin

text \<open>
  The data the nostr layer exchanges: JSON values, nostr events, NIP-46 messages and answers,
  and the interface of the third-party crates behind them. The parsers, serialisers, keys and
  cryptography of the \<open>nostr\<close> and \<open>serde_json\<close> crates are not part of the
  repository: they are the fields of the record \<open>crate\<close>, an argument of every
  definition that uses them.
\<close>

section \<open>JSON values\<close>

text \<open>\<open>serde_json::Value\<close>: the constructors the code matches on and the accessors it calls.\<close>

datatype jnumber = PosInt u64 | NegInt int | Float string

datatype json =
    JNull
  | JBool bool
  | JNumber jnumber
  | JString string
  | JArray "json list"
  | JObject "(string \<times> json) list"

fun jget :: "json \<Rightarrow> string \<Rightarrow> json option" where
  "jget (JObject m) k = map_of m k"
| "jget _ k = None"

text \<open>\<open>value["key"]\<close>: null where the key or the object is missing.\<close>

definition jindex :: "json \<Rightarrow> string \<Rightarrow> json" where
  "jindex v k = (case jget v k of Some w \<Rightarrow> w | None \<Rightarrow> JNull)"

fun as_str :: "json \<Rightarrow> string option" where
  "as_str (JString s) = Some s"
| "as_str _ = None"

fun as_u64 :: "json \<Rightarrow> u64 option" where
  "as_u64 (JNumber (PosInt n)) = Some n"
| "as_u64 _ = None"

fun as_array :: "json \<Rightarrow> json list option" where
  "as_array (JArray a) = Some a"
| "as_array _ = None"

text \<open>\<open>array.get(i)\<close>.\<close>

definition nth_opt :: "'a list \<Rightarrow> nat \<Rightarrow> 'a option" where
  "nth_opt xs i = (if i < length xs then Some (xs ! i) else None)"

text \<open>\<open>from_value::<Vec<Vec<String>>>\<close>: an array of arrays of strings, and nothing else.\<close>

fun all_some :: "'a option list \<Rightarrow> 'a list option" where
  "all_some [] = Some []"
| "all_some (None # _) = None"
| "all_some (Some x # xs) = map_option (Cons x) (all_some xs)"

definition json_string_lists :: "json \<Rightarrow> string list list option" where
  "json_string_lists v = (case as_array v of
     None \<Rightarrow> None
   | Some rows \<Rightarrow> all_some (map (\<lambda>r. case as_array r of
       None \<Rightarrow> None | Some xs \<Rightarrow> all_some (map as_str xs)) rows))"

section \<open>Events\<close>

text \<open>
  A public key is identified with its \<open>to_string\<close>, sixty-four lowercase hex characters. An
  event carries what the code reads of it: \<open>ev_ptags\<close> is \<open>tags.public_keys()\<close>.
\<close>

type_synonym pubkey = string
type_synonym seckey = string

record event =
  ev_id :: string
  ev_pubkey :: pubkey
  ev_created :: u64
  ev_kind :: u16
  ev_ptags :: "pubkey list"
  ev_tags :: "string list list"
  ev_content :: string
  ev_sig :: string

record unsigned_event =
  un_pubkey :: pubkey
  un_created :: u64
  un_kind :: u16
  un_tags :: "string list list"
  un_content :: string

section \<open>NIP-46 messages\<close>

text \<open>
  \<open>NostrConnectMethod\<close>: the variants the code names, and one for any other the crate may
  carry, by the name its \<open>Debug\<close> prints.
\<close>

datatype nmethod =
    Connect
  | GetPublicKey
  | SignEvent
  | Nip04Encrypt
  | Nip04Decrypt
  | Nip44Encrypt
  | Nip44Decrypt
  | Ping
  | OtherMethod string

fun method_debug :: "nmethod \<Rightarrow> string" where
  "method_debug Connect = ''Connect''"
| "method_debug GetPublicKey = ''GetPublicKey''"
| "method_debug SignEvent = ''SignEvent''"
| "method_debug Nip04Encrypt = ''Nip04Encrypt''"
| "method_debug Nip04Decrypt = ''Nip04Decrypt''"
| "method_debug Nip44Encrypt = ''Nip44Encrypt''"
| "method_debug Nip44Decrypt = ''Nip44Decrypt''"
| "method_debug Ping = ''Ping''"
| "method_debug (OtherMethod n) = n"

datatype nmessage =
    Request string nmethod "string list"
  | Response string

datatype response_result =
    RAck
  | RPong
  | RGetPublicKey pubkey
  | RSignEvent event
  | RNip04Encrypt string
  | RNip04Decrypt string
  | RNip44Encrypt string
  | RNip44Decrypt string

text \<open>\<open>NostrConnectResponse\<close>: an error text, or a typed result.\<close>

datatype nresponse = with_error string | with_result response_result

section \<open>The crates, as a parameter\<close>

text \<open>
  Every field is one call the code makes into a third-party crate. \<open>Inl\<close> carries the text
  the error's \<open>Display\<close> prints. A call that draws randomness (a nonce) is a function of its
  other inputs here: no definition depends on two such calls agreeing or differing.
\<close>

record crate =
  pk_parse :: "string \<Rightarrow> string + pubkey"
  pk_bech32 :: "pubkey \<Rightarrow> string"
  pub_of :: "seckey \<Rightarrow> pubkey"
  json_parse :: "string \<Rightarrow> string + json"
  strings_json :: "string list \<Rightarrow> string option"
  event_of_json :: "json \<Rightarrow> string + event"
  ev_verify :: "event \<Rightarrow> bool"
  message_parse :: "string \<Rightarrow> nmessage option"
  response_json :: "string \<Rightarrow> nresponse \<Rightarrow> string"
  result_json :: "string \<Rightarrow> string \<Rightarrow> string"
  nip44_enc :: "seckey \<Rightarrow> pubkey \<Rightarrow> string \<Rightarrow> string + string"
  nip44_dec :: "seckey \<Rightarrow> pubkey \<Rightarrow> string \<Rightarrow> string + string"
  nip04_enc :: "seckey \<Rightarrow> pubkey \<Rightarrow> string \<Rightarrow> string + string"
  nip04_dec :: "seckey \<Rightarrow> pubkey \<Rightarrow> string \<Rightarrow> string + string"
  finalize :: "seckey \<Rightarrow> u16 \<Rightarrow> string \<Rightarrow> pubkey \<Rightarrow> string + event"
  tags_parse :: "string list list \<Rightarrow> string + string list list"
  tags_json_error :: "json \<Rightarrow> string"
  sign_event :: "seckey \<Rightarrow> unsigned_event \<Rightarrow> string + event"

definition ok :: "'e + 'a \<Rightarrow> 'a option" where
  "ok r = (case r of Inr x \<Rightarrow> Some x | Inl _ \<Rightarrow> None)"

lemma ok_simps [simp]: "ok (Inr x) = Some x" "ok (Inl e) = None"
  by (simp_all add: ok_def)

lemma ok_Some [simp]: "ok r = Some x \<longleftrightarrow> r = Inr x"
  by (auto simp: ok_def split: sum.splits)

section \<open>A concrete instance, for witnesses\<close>

text \<open>
  A stand-in for the crates with computable fields: texts are their own ciphertexts, every key
  parses, and the two parsers read only what the witnesses feed them.
\<close>

definition demo_event :: "string \<Rightarrow> pubkey \<Rightarrow> u64 \<Rightarrow> u16 \<Rightarrow> pubkey list \<Rightarrow> string \<Rightarrow> event" where
  "demo_event i pk at k ps c =
     \<lparr>ev_id = i, ev_pubkey = pk, ev_created = at, ev_kind = k, ev_ptags = ps, ev_tags = [],
      ev_content = c, ev_sig = ''sig''\<rparr>"

definition demo_crate :: crate where
  "demo_crate =
     \<lparr>pk_parse = (\<lambda>s. if s = [] then Inl ''empty'' else Inr s),
      pk_bech32 = (\<lambda>pk. ''npub1'' @ pk),
      pub_of = (\<lambda>sk. ''pub'' @ sk),
      json_parse = (\<lambda>s. if s = ''kind1'' then Inr (JObject [(''kind'', JNumber (PosInt 1))])
        else if s = ''kind0'' then Inr (JObject [(''kind'', JNumber (PosInt 0))])
        else if s = ''kind65537'' then Inr (JObject [(''kind'', JNumber (PosInt 65537))])
        else if s = ''logout'' then
          Inr (JObject [(''id'', JString ''9''), (''method'', JString ''logout'')])
        else Inr JNull),
      strings_json = (\<lambda>ss. Some (concat ss)),
      event_of_json = (\<lambda>v. Inl ''unreadable''),
      ev_verify = (\<lambda>e. ev_sig e = ''sig''),
      message_parse = (\<lambda>s. if s = ''ping'' then Some (Request ''1'' Ping [])
        else if s = ''connect'' then Some (Request ''1'' Connect [''bunker'', ''s3cret''])
        else if s = ''sign'' then Some (Request ''1'' SignEvent [''kind1''])
        else None),
      response_json = (\<lambda>i r. i),
      result_json = (\<lambda>i r. i @ r),
      nip44_enc = (\<lambda>sk pk s. Inr s),
      nip44_dec = (\<lambda>sk pk s. Inr s),
      nip04_enc = (\<lambda>sk pk s. Inr s),
      nip04_dec = (\<lambda>sk pk s. Inr s),
      finalize = (\<lambda>sk k c p. Inr (demo_event ''out'' (''pub'' @ sk) 0 k [p] c)),
      tags_parse = Inr,
      tags_json_error = (\<lambda>v. ''tags''),
      sign_event = (\<lambda>sk u. Inr (demo_event ''signed'' (un_pubkey u) (un_created u) (un_kind u) []
        (un_content u)))\<rparr>"

end
