(* ===== verification/Relay.thy ===== *)
theory Relay
  imports Wire
begin

text \<open>
  The core of the NIP-46 relay, \<open>src/relay/mod.rs\<close>: the admission door, the in-memory event
  store, subscription filters and the sliding-window rate limiter. The clock is an argument, as
  in the code. Lemmas: what the door admits, the invariant of the store under every sequence of
  its operations, what a query returns, and the bound the limiter enforces on every window.
\<close>

section \<open>Configuration and errors\<close>

definition carried_kinds :: "u16 list" where
  "carried_kinds = [24133, 24135]"

definition event_ttl_minutes :: u64 where "event_ttl_minutes = 10"
definition accept_window_minutes :: u64 where "accept_window_minutes = 1"
definition rate_limit_per_minute :: nat where "rate_limit_per_minute = 100"
definition max_limit :: nat where "max_limit = 100"

record relay_config =
  ttl_secs :: u64
  accept_window_secs :: u64
  rate_limit :: nat

definition default_config :: relay_config where
  "default_config =
     \<lparr>ttl_secs = event_ttl_minutes * 60, accept_window_secs = accept_window_minutes * 60,
      rate_limit = rate_limit_per_minute\<rparr>"

datatype rejected = RejKind u16 | RejTimestamp | RejSignature | RejDuplicate

record stored =
  st_event :: event
  received_at :: u64

section \<open>Filters\<close>

record relay_filter =
  f_kinds :: "u16 list"
  f_p :: "pubkey list"
  f_authors :: "pubkey list"
  f_ids :: "string list"
  f_since :: "u64 option"
  f_until :: "u64 option"
  f_limit :: "nat option"

definition keys_of_json :: "crate \<Rightarrow> json option \<Rightarrow> pubkey list" where
  "keys_of_json C v = (case Option.bind v as_array of
     Some a \<Rightarrow> List.map_filter (\<lambda>s. ok (pk_parse C s)) (List.map_filter as_str a)
   | None \<Rightarrow> [])"

definition filter_from_json :: "crate \<Rightarrow> json \<Rightarrow> relay_filter" where
  "filter_from_json C v =
     \<lparr>f_kinds = (case Option.bind (jget v ''kinds'') as_array of
        Some a \<Rightarrow> List.map_filter (\<lambda>k. map_option ucast (as_u64 k)) a | None \<Rightarrow> []),
      f_p = keys_of_json C (jget v ''#p''),
      f_authors = keys_of_json C (jget v ''authors''),
      f_ids = (case Option.bind (jget v ''ids'') as_array of
        Some a \<Rightarrow> List.map_filter as_str a | None \<Rightarrow> []),
      f_since = Option.bind (jget v ''since'') as_u64,
      f_until = Option.bind (jget v ''until'') as_u64,
      f_limit = map_option unat (Option.bind (jget v ''limit'') as_u64)\<rparr>"

definition reject_text :: string where
  "reject_text = ''blocked: NIP-46 queries must be scoped by authors, #p, or ids''"

definition reject_reason :: "relay_filter \<Rightarrow> string option" where
  "reject_reason f =
     (let matches_nip46 = f_kinds f = [] \<or> list_ex (\<lambda>k. k = 24133 \<or> k = 24135) (f_kinds f);
          scoped = f_authors f \<noteq> [] \<or> f_p f \<noteq> [] \<or> f_ids f \<noteq> []
      in if matches_nip46 \<and> \<not> scoped then Some reject_text else None)"

definition matches :: "relay_filter \<Rightarrow> event \<Rightarrow> bool" where
  "matches f ev =
     (if f_kinds f \<noteq> [] \<and> \<not> List.member (f_kinds f) (ev_kind ev) then False
      else if f_p f \<noteq> [] \<and> \<not> list_ex (\<lambda>p. list_ex (\<lambda>tag. tag = p) (ev_ptags ev)) (f_p f)
      then False
      else if (case f_since f of Some since \<Rightarrow> ev_created ev < since | None \<Rightarrow> False) then False
      else if (case f_until f of Some until \<Rightarrow> ev_created ev > until | None \<Rightarrow> False) then False
      else True)"

section \<open>The event store\<close>

record event_store =
  es_events :: "stored list"
  es_config :: relay_config

definition es_new :: "relay_config \<Rightarrow> event_store" where
  "es_new c = \<lparr>es_events = [], es_config = c\<rparr>"

definition admission :: "crate \<Rightarrow> event_store \<Rightarrow> event \<Rightarrow> u64 \<Rightarrow> rejected + unit" where
  "admission C st ev now =
     (if \<not> ev_verify C ev then Inl RejSignature
      else if \<not> List.member carried_kinds (ev_kind ev) then Inl (RejKind (ev_kind ev))
      else let created = ev_created ev; window = accept_window_secs (es_config st);
               inside = created > sat_sub now window \<and> created < now + window
           in if \<not> inside then Inl RejTimestamp else Inr ())"

definition es_insert ::
  "crate \<Rightarrow> event_store \<Rightarrow> event \<Rightarrow> u64 \<Rightarrow> (rejected + bool) \<times> event_store" where
  "es_insert C st ev now =
     (case admission C st ev now of
        Inl r \<Rightarrow> (Inl r, st)
      | Inr _ \<Rightarrow>
          if list_ex (\<lambda>s. ev_id (st_event s) = ev_id ev) (es_events st)
          then (Inl RejDuplicate, st)
          else (Inr True,
                st\<lparr>es_events := es_events st @ [\<lparr>st_event = ev, received_at = now\<rparr>]\<rparr>))"

definition es_evict :: "event_store \<Rightarrow> u64 \<Rightarrow> event_store" where
  "es_evict st now =
     st\<lparr>es_events := filter (\<lambda>s. sat_sub now (received_at s) < ttl_secs (es_config st))
        (es_events st)\<rparr>"

text \<open>
  \<open>sort_by_key(Reverse(created_at))\<close>: the standard library's stable sort, on a key that
  turns the order round.
\<close>

definition query_limit :: "relay_filter \<Rightarrow> nat" where
  "query_limit f = min (case f_limit f of Some l \<Rightarrow> l | None \<Rightarrow> max_limit) max_limit"

definition es_query :: "event_store \<Rightarrow> relay_filter \<Rightarrow> event list" where
  "es_query st f =
     (let matched = map st_event (filter (\<lambda>s. matches f (st_event s)) (es_events st));
          sorted = sort_key (\<lambda>e. - uint (ev_created e)) matched;
          limit = query_limit f
      in if length sorted > limit then take limit sorted else sorted)"

section \<open>The rate limiter\<close>

record rate_limiter =
  rl_budget :: "u64 list"
  rl_capacity :: nat

definition rl_with_capacity :: "nat \<Rightarrow> rate_limiter" where
  "rl_with_capacity c = \<lparr>rl_budget = [], rl_capacity = c\<rparr>"

definition rl_new :: rate_limiter where "rl_new = rl_with_capacity 30"

definition rl_admit :: "rate_limiter \<Rightarrow> u64 \<Rightarrow> bool \<times> rate_limiter" where
  "rl_admit rl now =
     (let window_start = sat_sub now 60;
          kept = dropWhile (\<lambda>at. at < window_start) (rl_budget rl)
      in if length kept \<ge> rl_capacity rl then (False, rl\<lparr>rl_budget := kept\<rparr>)
         else (True, rl\<lparr>rl_budget := kept @ [now]\<rparr>))"

section \<open>The door\<close>

lemma admission_Inr:
  "admission C st ev now = Inr u \<longleftrightarrow>
     ev_verify C ev \<and> ev_kind ev \<in> set carried_kinds \<and>
     sat_sub now (accept_window_secs (es_config st)) < ev_created ev \<and>
     ev_created ev < now + accept_window_secs (es_config st)"
  by (auto simp: admission_def Let_def)

lemma admission_config: "es_config st = es_config st' \<Longrightarrow> admission C st = admission C st'"
  by (rule ext)+ (simp add: admission_def)

text \<open>
  The window in seconds, where the clock is not within a window of either end of its range: the
  sender's clock is strictly less than one window away, in either direction.
\<close>

lemma window_distance:
  fixes w now c :: u64
  assumes "unat w \<le> unat now" and "unat now + unat w < 2 ^ 64"
  shows "sat_sub now w < c \<and> c < now + w \<longleftrightarrow> \<bar>uint c - uint now\<bar> < uint w"
proof -
  have "unat (now + w) = unat now + unat w"
    using assms(2) by (rule u64_plus_no_wrap)
  moreover have "uint c = int (unat c)" "uint now = int (unat now)" "uint w = int (unat w)"
    by simp_all
  ultimately show ?thesis
    using assms(1) unfolding word_less_nat_alt unat_sat_sub by arith
qed

section \<open>The store's invariant\<close>

text \<open>No event twice, and nothing held that the door would not have let in.\<close>

definition store_ok :: "crate \<Rightarrow> event_store \<Rightarrow> bool" where
  "store_ok C st \<longleftrightarrow>
     distinct (map (ev_id \<circ> st_event) (es_events st)) \<and>
     (\<forall>s \<in> set (es_events st). ev_verify C (st_event s) \<and>
        ev_kind (st_event s) \<in> set carried_kinds)"

datatype store_op = OpInsert event u64 | OpEvict u64

fun store_step :: "crate \<Rightarrow> event_store \<Rightarrow> store_op \<Rightarrow> event_store" where
  "store_step C st (OpInsert ev now) = snd (es_insert C st ev now)"
| "store_step C st (OpEvict now) = es_evict st now"

lemma store_ok_new [simp]: "store_ok C (es_new c)"
  by (simp add: store_ok_def es_new_def)

lemma store_ok_insert [inv_intros]: "store_ok C st \<Longrightarrow> store_ok C (snd (es_insert C st ev now))"
  by (auto simp: store_ok_def es_insert_def list_ex_iff admission_Inr split: sum.splits)

lemma store_ok_evict [inv_intros]: "store_ok C st \<Longrightarrow> store_ok C (es_evict st now)"
  by (auto simp: store_ok_def es_evict_def intro: distinct_map_filter)

lemma store_ok_step: "store_ok C st \<Longrightarrow> store_ok C (store_step C st op)"
  by (cases op) (simp_all add: inv_intros)

interpretation relay_store: op_system "store_step C" "store_ok C" "es_new c"
  by unfold_locales (simp_all add: store_ok_step)

text \<open>
  C38. Whatever sequence of insertions and sweeps the relay runs, from an empty store, no
  event id is ever held twice, and every event held verified and is of a kind the relay
  carries.
\<close>

theorem relay_store_invariant: "store_ok C (run_ops (store_step C) (es_new c) ops)"
  by (rule relay_store.good_run)

section \<open>Queries\<close>

lemma sorted_wrt_desc:
  "sorted_wrt (\<lambda>a b. ev_created b \<le> ev_created a) (sort_key (\<lambda>e. - uint (ev_created e)) xs)"
proof -
  have "sorted (map (\<lambda>e. - uint (ev_created e)) (sort_key (\<lambda>e. - uint (ev_created e)) xs))"
    by (rule sorted_sort_key)
  then show ?thesis
    by (simp add: sorted_wrt_map word_le_def)
qed

lemma es_query_eq:
  "es_query st f = take (query_limit f) (sort_key (\<lambda>e. - uint (ev_created e))
     (map st_event (filter (\<lambda>s. matches f (st_event s)) (es_events st))))"
  by (simp add: es_query_def Let_def)

text \<open>
  A query answers with events the store holds and the filter matches, newest first, at
  most the limit and never more than a hundred; a matching event it leaves out is no newer than
  any it returns, and with fewer matches than the limit nothing is left out.
\<close>

theorem query_newest_first:
  "length (es_query st f) = min (query_limit f) (length (filter (matches f) (map st_event (es_events st)))) \<and>
    query_limit f \<le> max_limit \<and>
    (\<exists>rest. mset (filter (matches f) (map st_event (es_events st))) = mset (es_query st f @ rest) \<and>
      sorted_wrt (\<lambda>a b. ev_created b \<le> ev_created a) (es_query st f @ rest))"
proof -
  let ?held = "filter (matches f) (map st_event (es_events st))"
  let ?s = "sort_key (\<lambda>e. - uint (ev_created e)) ?held"
  have q: "es_query st f = take (query_limit f) ?s"
    by (simp add: es_query_eq filter_map comp_def)
  have "mset ?held = mset (take (query_limit f) ?s @ drop (query_limit f) ?s) \<and>
      sorted_wrt (\<lambda>a b. ev_created b \<le> ev_created a) (take (query_limit f) ?s @ drop (query_limit f) ?s)"
    using sorted_wrt_desc by simp
  then have "\<exists>rest. mset ?held = mset (es_query st f @ rest) \<and>
      sorted_wrt (\<lambda>a b. ev_created b \<le> ev_created a) (es_query st f @ rest)"
    unfolding q by blast
  then show ?thesis
    by (simp add: q min.commute) (simp add: query_limit_def)
qed

text \<open>
  A query made right after a sweep, as the relay makes every one, never answers with an
  event that has been held for the retention period or longer.
\<close>

theorem query_after_sweep_is_fresh:
  "set (es_query (es_evict st now) f) \<subseteq>
     st_event ` {s \<in> set (es_events st). matches f (st_event s) \<and>
       sat_sub now (received_at s) < ttl_secs (es_config st)}"
  by (auto simp: es_query_eq es_evict_def dest!: in_set_takeD)

section \<open>What the limiter enforces\<close>

text \<open>The admitted timestamps of a run of calls.\<close>

fun rl_run :: "rate_limiter \<Rightarrow> u64 list \<Rightarrow> u64 list" where
  "rl_run rl [] = []"
| "rl_run rl (t # ts) =
     (case rl_admit rl t of (b, rl') \<Rightarrow> (if b then t # rl_run rl' ts else rl_run rl' ts))"

definition window_count :: "u64 list \<Rightarrow> u64 \<Rightarrow> nat" where
  "window_count adm T = length (filter (\<lambda>a. sat_sub T 60 \<le> a \<and> a \<le> T) adm)"

text \<open>
  What the limiter keeps of the calls it has admitted, \<open>adm\<close>, after a call at \<open>t\<close>: its
  budget is the admitted timestamps still inside the window, and no window holds more of them
  than its capacity.
\<close>

definition rl_tracks :: "rate_limiter \<Rightarrow> u64 list \<Rightarrow> u64 \<Rightarrow> bool" where
  "rl_tracks rl adm t \<longleftrightarrow>
     sorted adm \<and> (\<forall>a \<in> set adm. a \<le> t) \<and>
     rl_budget rl = filter (\<lambda>a. sat_sub t 60 \<le> a) adm \<and>
     (\<forall>T. window_count adm T \<le> rl_capacity rl)"

lemma window_count_snoc:
  assumes "\<forall>a \<in> set adm. a \<le> t'" and "\<forall>T. window_count adm T \<le> cap"
    and "length (filter (\<lambda>a. sat_sub t' 60 \<le> a) adm) < cap"
  shows "window_count (adm @ [t']) T \<le> cap"
proof (cases "t' \<le> T")
  case True
  then have le: "sat_sub t' 60 \<le> sat_sub T 60" by (rule sat_sub_mono)
  have "length (filter (\<lambda>a. sat_sub T 60 \<le> a \<and> a \<le> T) adm) < cap"
    using length_filter_weaken [of "\<lambda>a. sat_sub T 60 \<le> a \<and> a \<le> T" "\<lambda>a. sat_sub t' 60 \<le> a" adm]
      le order_trans assms(3) by (blast intro: le_less_trans)
  then show ?thesis by (simp add: window_count_def)
next
  case False
  moreover have "window_count adm T \<le> cap" using assms(2) by blast
  ultimately show ?thesis by (simp add: window_count_def)
qed

lemma rl_admit_tracks:
  assumes "rl_tracks rl adm t" and "t \<le> t'" and "rl_admit rl t' = (b, rl')"
  shows "rl_tracks rl' (if b then adm @ [t'] else adm) t' \<and> rl_capacity rl' = rl_capacity rl"
proof -
  have ws: "sat_sub t 60 \<le> sat_sub t' 60" using assms(2) by (rule sat_sub_mono)
  have tr: "sorted adm" "\<forall>a \<in> set adm. a \<le> t'" "\<forall>T. window_count adm T \<le> rl_capacity rl"
    using assms(1,2) by (auto simp: rl_tracks_def)
  have kept: "dropWhile (\<lambda>a. a < sat_sub t' 60) (rl_budget rl) = filter (\<lambda>a. sat_sub t' 60 \<le> a) adm"
  proof -
    have "sorted (rl_budget rl)" and b: "rl_budget rl = filter (\<lambda>a. sat_sub t 60 \<le> a) adm"
      using assms(1) by (simp_all add: rl_tracks_def sorted_wrt_filter)
    then have "dropWhile (\<lambda>a. a < sat_sub t' 60) (rl_budget rl) =
        filter (\<lambda>a. sat_sub t' 60 \<le> a) (filter (\<lambda>a. sat_sub t 60 \<le> a) adm)"
      by (simp only: dropWhile_sorted_filter)
    also have "\<dots> = filter (\<lambda>a. sat_sub t' 60 \<le> a) adm"
      by (rule filter_weaken) (rule order_trans [OF ws])
    finally show ?thesis .
  qed
  show ?thesis
  proof (cases "rl_capacity rl \<le> length (filter (\<lambda>a. sat_sub t' 60 \<le> a) adm)")
    case True
    with assms(3) kept have "b = False" "rl' = rl\<lparr>rl_budget := filter (\<lambda>a. sat_sub t' 60 \<le> a) adm\<rparr>"
      by (auto simp: rl_admit_def)
    with tr show ?thesis by (simp add: rl_tracks_def)
  next
    case False
    with assms(3) kept have "b = True"
      "rl' = rl\<lparr>rl_budget := filter (\<lambda>a. sat_sub t' 60 \<le> a) adm @ [t']\<rparr>"
      by (auto simp: rl_admit_def)
    with tr False window_count_snoc [OF tr(2,3)] show ?thesis
      by (auto simp: rl_tracks_def sorted_append sat_sub_le)
  qed
qed

lemma rl_run_windows:
  "rl_tracks rl adm t \<Longrightarrow> sorted (t # ts) \<Longrightarrow> window_count (adm @ rl_run rl ts) T \<le> rl_capacity rl"
proof (induction ts arbitrary: rl adm t)
  case Nil
  then show ?case by (simp add: rl_tracks_def)
next
  case (Cons t' ts)
  obtain b rl' where st: "rl_admit rl t' = (b, rl')" by fastforce
  have "rl_tracks rl' (if b then adm @ [t'] else adm) t'" and "rl_capacity rl' = rl_capacity rl"
    using rl_admit_tracks [OF Cons.prems(1) _ st] Cons.prems(2) by auto
  with Cons.IH [of rl' "if b then adm @ [t'] else adm" t'] Cons.prems(2) st show ?case
    by (auto split: if_splits)
qed

text \<open>
  Whatever calls a limiter with a given capacity receives, at times that do not go
  backwards, no window of the last sixty seconds ever contains more admitted calls than the
  capacity.
\<close>

theorem rate_limiter_window:
  assumes "sorted ts"
  shows "window_count (rl_run (rl_with_capacity cap) ts) T \<le> cap"
proof -
  have "rl_tracks (rl_with_capacity cap) [] 0"
    by (simp add: rl_tracks_def rl_with_capacity_def window_count_def)
  from rl_run_windows [OF this, of ts T] assms show ?thesis
    by (simp add: rl_with_capacity_def)
qed

theorem rate_limiter_window_witness:
  "window_count (rl_run (rl_with_capacity 2) [100, 110, 120, 161]) 161 \<le> 2 \<and>
   rl_run (rl_with_capacity 2) [100, 110, 120, 161] = [100, 110, 161]"
proof
  show "window_count (rl_run (rl_with_capacity 2) [100, 110, 120, 161]) 161 \<le> 2"
    by (rule rate_limiter_window) simp
  show "rl_run (rl_with_capacity 2) [100, 110, 120, 161] = [100, 110, 161]"
    by (simp add: rl_with_capacity_def rl_admit_def sat_sub_def)
qed

section \<open>The scoping of queries\<close>

text \<open>
  A filter the door lets in and that can match held traffic names authors, addressees or ids.
\<close>

lemma accepted_is_scoped:
  "reject_reason f = None \<Longrightarrow> matches f ev \<Longrightarrow> ev_kind ev \<in> set carried_kinds \<Longrightarrow>
     f_authors f \<noteq> [] \<or> f_p f \<noteq> [] \<or> f_ids f \<noteq> []"
  by (auto simp: reject_reason_def matches_def carried_kinds_def Let_def list_ex_iff
      split: if_splits)

text \<open>
  The door's scoping rule is checked and then not applied: a filter that names nothing
  but an author (or nothing but an id) is accepted, and it matches every event the relay can
  hold, whoever wrote it and whoever it is for, because matching reads neither the authors nor
  the ids. The firehose the rule is there to refuse is one made-up author away.
\<close>

theorem scoping_by_author_is_not_applied:
  fixes f
  assumes "f_kinds f = []" and "f_p f = []" and "f_since f = None" and "f_until f = None"
    and "f_authors f \<noteq> [] \<or> f_ids f \<noteq> []"
  shows "reject_reason f = None \<and> matches f ev"
  using assms by (auto simp: reject_reason_def matches_def Let_def)

theorem scoping_by_author_is_not_applied_witness:
  "let f = filter_from_json demo_crate (JObject [(''authors'', JArray [JString ''nobody''])])
   in reject_reason f = None \<and> matches f (demo_event ''1'' ''alice'' 0 24133 [''bob''] [])"
proof -
  let ?f = "filter_from_json demo_crate (JObject [(''authors'', JArray [JString ''nobody''])])"
  have "f_kinds ?f = []" "f_p ?f = []" "f_since ?f = None" "f_until ?f = None"
    "f_authors ?f \<noteq> [] \<or> f_ids ?f \<noteq> []"
    by (simp_all add: filter_from_json_def keys_of_json_def demo_crate_def List.map_filter_def)
  from scoping_by_author_is_not_applied [OF this] show ?thesis by (simp add: Let_def)
qed

end
