(* ===== verification/RelayServer.thy ===== *)
theory RelayServer
  imports Relay
begin

text \<open>
  The relay's server, \<open>src/nip46-relay.rs\<close>: what every frame of a connection does to the
  shared state (the store, the per-key limiters, each connection's subscriptions and outbound
  queue), what is answered on the connection itself, and what other connections are sent.
  Sockets and threads are not modelled: a step is one message handled, one beat of a
  connection's loop, one sweep of the evictor, or a connection coming or going, in any order.
\<close>

section \<open>State and frames\<close>

datatype frame =
    FNotice string
  | FOk string bool string
  | FEvent string event
  | FEose string
  | FClosed string string
  | FPong string
  | FCloseFrame

datatype ws_message =
    WText string
  | WPing string
  | WPong
  | WBinary
  | WClose
  | WOther

record server =
  sv_store :: event_store
  sv_out :: "(nat \<times> frame list) list"
  sv_subs :: "(nat \<times> (string \<times> relay_filter) list) list"
  sv_limiters :: "(pubkey \<times> rate_limiter) list"
  sv_rate :: nat

definition sv_new :: "relay_config \<Rightarrow> server" where
  "sv_new c = \<lparr>sv_store = es_new c, sv_out = [], sv_subs = [], sv_limiters = [],
     sv_rate = rate_limit c\<rparr>"

definition or_default :: "'a list option \<Rightarrow> 'a list" where
  "or_default x = (case x of Some xs \<Rightarrow> xs | None \<Rightarrow> [])"

section \<open>Broadcast\<close>

definition queue_frame :: "nat \<Rightarrow> frame \<Rightarrow> (nat \<times> frame list) list \<Rightarrow> (nat \<times> frame list) list" where
  "queue_frame c fr out =
     (case map_of out c of Some q \<Rightarrow> AList.update c (q @ [fr]) out | None \<Rightarrow> out)"

definition broadcast_to ::
  "event \<Rightarrow> nat \<Rightarrow> (string \<times> relay_filter) list \<Rightarrow> (nat \<times> frame list) list
     \<Rightarrow> (nat \<times> frame list) list" where
  "broadcast_to ev c subs out =
     fold (\<lambda>(s, f) out. if matches f ev then queue_frame c (FEvent s ev) out else out) subs out"

definition broadcast :: "event \<Rightarrow> server \<Rightarrow> server" where
  "broadcast ev sv =
     sv\<lparr>sv_out := fold (\<lambda>(c, subs) out. broadcast_to ev c subs out) (sv_subs sv) (sv_out sv)\<rparr>"

section \<open>Frames\<close>

fun rejected_text :: "rejected \<Rightarrow> string" where
  "rejected_text (RejKind k) =
     ''this relay carries only kinds 24133 and 24135, not '' @ show_nat (unat k)"
| "rejected_text RejTimestamp = ''the event is outside the timestamp window''"
| "rejected_text RejSignature = ''invalid: the signature does not verify''"
| "rejected_text RejDuplicate = []"

text \<open>The door, the key's budget, the store: the verdict on an event, and the state after it.\<close>

definition event_verdict :: "crate \<Rightarrow> event \<Rightarrow> u64 \<Rightarrow> server \<Rightarrow> (string + unit) \<times> server" where
  "event_verdict C ev now sv =
     (case admission C (sv_store sv) ev now of
        Inl r \<Rightarrow> (Inl (rejected_text r), sv)
      | Inr _ \<Rightarrow>
          let rl = (case map_of (sv_limiters sv) (ev_pubkey ev) of
                      Some rl \<Rightarrow> rl | None \<Rightarrow> rl_with_capacity (sv_rate sv));
              (pass, rl') = rl_admit rl now;
              sv' = sv\<lparr>sv_limiters := AList.update (ev_pubkey ev) rl' (sv_limiters sv)\<rparr>
          in if \<not> pass then (Inl ''rate-limited: too many events, slow down'', sv')
             else (case es_insert C (sv_store sv') ev now of
                (Inl r, st) \<Rightarrow> (Inl (rejected_text r), sv'\<lparr>sv_store := st\<rparr>)
              | (Inr _, st) \<Rightarrow> (Inr (), sv'\<lparr>sv_store := st\<rparr>)))"

definition serve_event :: "crate \<Rightarrow> json list \<Rightarrow> u64 \<Rightarrow> server \<Rightarrow> frame list \<times> server" where
  "serve_event C fr now sv =
     (case event_of_json C (case nth_opt fr 1 of Some v \<Rightarrow> v | None \<Rightarrow> JNull) of
        Inl e \<Rightarrow> ([FNotice (''unreadable event: '' @ e)], sv)
      | Inr ev \<Rightarrow>
          (case event_verdict C ev now sv of
             (Inr _, sv') \<Rightarrow> ([FOk (ev_id ev) True []], broadcast ev sv')
           | (Inl reason, sv') \<Rightarrow>
               if reason = [] then ([FOk (ev_id ev) True ''duplicate''], sv')
               else ([FOk (ev_id ev) False reason], sv')))"

definition serve_req :: "crate \<Rightarrow> nat \<Rightarrow> json list \<Rightarrow> u64 \<Rightarrow> server \<Rightarrow> frame list \<times> server" where
  "serve_req C conn fr now sv =
     (case Option.bind (nth_opt fr 1) as_str of
        None \<Rightarrow> ([FNotice ''REQ wants an id''], sv)
      | Some sub \<Rightarrow>
          let f = filter_from_json C (case nth_opt fr 2 of Some v \<Rightarrow> v | None \<Rightarrow> JNull)
          in (case reject_reason f of
                Some reason \<Rightarrow> ([FClosed sub reason], sv)
              | None \<Rightarrow>
                  let store = es_evict (sv_store sv) now;
                      replay = es_query store f
                  in (map (FEvent sub) replay @ [FEose sub],
                      sv\<lparr>sv_store := store,
                         sv_subs := AList.update conn
                           (or_default (map_of (sv_subs sv) conn) @ [(sub, f)]) (sv_subs sv)\<rparr>)))"

definition serve_close :: "nat \<Rightarrow> json list \<Rightarrow> server \<Rightarrow> frame list \<times> server" where
  "serve_close conn fr sv =
     (case Option.bind (nth_opt fr 1) as_str of
        None \<Rightarrow> ([], sv)
      | Some sub \<Rightarrow>
          ([], sv\<lparr>sv_subs := AList.update conn
             (filter (\<lambda>(s, _). s \<noteq> sub) (or_default (map_of (sv_subs sv) conn))) (sv_subs sv)\<rparr>))"

definition serve_text :: "crate \<Rightarrow> nat \<Rightarrow> string \<Rightarrow> u64 \<Rightarrow> server \<Rightarrow> frame list \<times> server" where
  "serve_text C conn text now sv =
     (case json_parse C text of
        Inl _ \<Rightarrow> ([FNotice ''frames are JSON arrays''], sv)
      | Inr v \<Rightarrow>
          (case Option.bind (as_array v) (\<lambda>a. Option.bind (nth_opt a 0) as_str) of
             None \<Rightarrow> ([FNotice ''unparsable frame''], sv)
           | Some word \<Rightarrow>
               let fr = or_default (as_array v) in
               if word = ''EVENT'' then serve_event C fr now sv
               else if word = ''REQ'' then serve_req C conn fr now sv
               else if word = ''CLOSE'' then serve_close conn fr sv
               else ([FNotice (''this relay answers EVENT, REQ and CLOSE, not '' @ word)], sv)))"

text \<open>
  One turn of a connection's loop: the queued frames go out first, then the message read is
  handled. The flag says whether the connection lives on.
\<close>

definition drain :: "nat \<Rightarrow> server \<Rightarrow> frame list \<times> server" where
  "drain conn sv =
     (case map_of (sv_out sv) conn of
        Some q \<Rightarrow> (q, sv\<lparr>sv_out := AList.update conn [] (sv_out sv)\<rparr>)
      | None \<Rightarrow> ([], sv))"

fun serve_message ::
  "crate \<Rightarrow> nat \<Rightarrow> ws_message \<Rightarrow> u64 \<Rightarrow> server \<Rightarrow> frame list \<times> bool \<times> server" where
  "serve_message C conn (WText text) now sv =
     (case serve_text C conn text now sv of (frs, sv') \<Rightarrow> (frs, True, sv'))"
| "serve_message C conn (WPing payload) now sv = ([FPong payload], True, sv)"
| "serve_message C conn WPong now sv = ([], True, sv)"
| "serve_message C conn WBinary now sv = ([], True, sv)"
| "serve_message C conn WClose now sv = ([FCloseFrame], False, sv)"
| "serve_message C conn WOther now sv = ([], True, sv)"

definition open_connection :: "nat \<Rightarrow> server \<Rightarrow> server" where
  "open_connection conn sv = sv\<lparr>sv_out := AList.update conn [] (sv_out sv)\<rparr>"

definition leave_connection :: "nat \<Rightarrow> server \<Rightarrow> server" where
  "leave_connection conn sv =
     sv\<lparr>sv_subs := AList.delete conn (sv_subs sv), sv_out := AList.delete conn (sv_out sv)\<rparr>"

definition sweep :: "u64 \<Rightarrow> server \<Rightarrow> server" where
  "sweep now sv = sv\<lparr>sv_store := es_evict (sv_store sv) now\<rparr>"

text \<open>The evictor's period, a quarter of the retention and never under fifteen seconds.\<close>

definition sweep_period :: "u64 \<Rightarrow> u64" where
  "sweep_period keep_minutes = max (keep_minutes * 60 div 4) 15"

datatype sv_event =
    SvOpen nat
  | SvMessage nat ws_message u64
  | SvBeat nat
  | SvLeave nat
  | SvSweep u64

fun sv_step :: "crate \<Rightarrow> server \<Rightarrow> sv_event \<Rightarrow> frame list \<times> server" where
  "sv_step C sv (SvOpen conn) = ([], open_connection conn sv)"
| "sv_step C sv (SvMessage conn m now) =
     (case serve_message C conn m now sv of (frs, alive, sv') \<Rightarrow>
        (frs, if alive then sv' else leave_connection conn sv'))"
| "sv_step C sv (SvBeat conn) = drain conn sv"
| "sv_step C sv (SvLeave conn) = ([], leave_connection conn sv)"
| "sv_step C sv (SvSweep now) = ([], sweep now sv)"


section \<open>What a step does to the budgets\<close>

definition limiter_of :: "server \<Rightarrow> pubkey \<Rightarrow> rate_limiter" where
  "limiter_of sv p = (case map_of (sv_limiters sv) p of
     Some rl \<Rightarrow> rl | None \<Rightarrow> rl_with_capacity (sv_rate sv))"

definition admitted :: "crate \<Rightarrow> event \<Rightarrow> u64 \<Rightarrow> server \<Rightarrow> bool" where
  "admitted C ev now sv \<longleftrightarrow> admission C (sv_store sv) ev now = Inr ()"

lemma rejected_text_empty [simp]: "rejected_text r = [] \<longleftrightarrow> r = RejDuplicate"
  by (cases r) auto

lemma admission_not_duplicate: "admission C st ev now = Inl r \<Longrightarrow> r \<noteq> RejDuplicate"
  by (auto simp: admission_def Let_def split: if_splits)

lemma verdict_refused:
  "\<not> admitted C ev now sv \<Longrightarrow>
     \<exists>r. r \<noteq> RejDuplicate \<and> event_verdict C ev now sv = (Inl (rejected_text r), sv)"
  by (cases "admission C (sv_store sv) ev now")
    (auto simp: event_verdict_def admitted_def dest: admission_not_duplicate)

lemma es_insert_admitted:
  "admission C st ev now = Inr () \<Longrightarrow> es_insert C st ev now = (Inl RejDuplicate, st) \<or>
     (\<exists>st'. es_insert C st ev now = (Inr True, st'))"
  by (simp add: es_insert_def)

lemma verdict_admitted:
  assumes "admitted C ev now sv" and "event_verdict C ev now sv = (r, sv')"
  shows "sv_limiters sv' = AList.update (ev_pubkey ev)
      (snd (rl_admit (limiter_of sv (ev_pubkey ev)) now)) (sv_limiters sv)"
    and "(r = Inr () \<or> r = Inl []) \<longleftrightarrow> fst (rl_admit (limiter_of sv (ev_pubkey ev)) now)"
    and "sv_rate sv' = sv_rate sv" and "sv_subs sv' = sv_subs sv" and "sv_out sv' = sv_out sv"
proof -
  have a: "admission C (sv_store sv) ev now = Inr ()"
    using assms(1) by (simp add: admitted_def)
  obtain b rl' where rl: "rl_admit (limiter_of sv (ev_pubkey ev)) now = (b, rl')" by fastforce
  show "sv_limiters sv' = AList.update (ev_pubkey ev)
      (snd (rl_admit (limiter_of sv (ev_pubkey ev)) now)) (sv_limiters sv)"
    and "(r = Inr () \<or> r = Inl []) \<longleftrightarrow> fst (rl_admit (limiter_of sv (ev_pubkey ev)) now)"
    and "sv_rate sv' = sv_rate sv" and "sv_subs sv' = sv_subs sv" and "sv_out sv' = sv_out sv"
    using assms(2) a rl es_insert_admitted [OF a]
    by (auto simp: event_verdict_def limiter_of_def [symmetric] Let_def split: if_splits)
qed

text \<open>The event a text frame publishes, when it is an EVENT frame that parses.\<close>

definition published :: "crate \<Rightarrow> string \<Rightarrow> event option" where
  "published C text = Option.bind (ok (json_parse C text)) (\<lambda>v. Option.bind (as_array v) (\<lambda>a.
     if Option.bind (nth_opt a 0) as_str = Some ''EVENT''
     then ok (event_of_json C (case nth_opt a 1 of Some v \<Rightarrow> v | None \<Rightarrow> JNull)) else None))"

lemma published_serve:
  assumes "published C text = Some ev"
  shows "serve_text C conn text now sv =
    (case event_verdict C ev now sv of
       (Inr _, sv') \<Rightarrow> ([FOk (ev_id ev) True []], broadcast ev sv')
     | (Inl reason, sv') \<Rightarrow>
         if reason = [] then ([FOk (ev_id ev) True ''duplicate''], sv')
         else ([FOk (ev_id ev) False reason], sv'))"
  using assms
  by (auto simp: published_def serve_text_def serve_event_def or_default_def Option.bind_eq_Some_conv
      split: if_splits)

lemma not_published_limiters:
  assumes "published C text = None" and "serve_text C conn text now sv = (frs, sv')"
  shows "sv_limiters sv' = sv_limiters sv \<and> sv_rate sv' = sv_rate sv"
  using assms
  by (auto simp: published_def serve_text_def serve_event_def serve_req_def serve_close_def
      or_default_def Let_def ok_def split: sum.splits option.splits if_splits)

lemma broadcast_simps [simp]:
  "sv_limiters (broadcast ev sv) = sv_limiters sv" "sv_rate (broadcast ev sv) = sv_rate sv"
  "sv_store (broadcast ev sv) = sv_store sv" "sv_subs (broadcast ev sv) = sv_subs sv"
  by (simp_all add: broadcast_def)

text \<open>
  An event the door refuses (a bad signature, a kind the relay does not carry, a
  timestamp outside the window) costs its author nothing: the answer is false and the whole
  server state is as it was, every budget included.
\<close>

theorem refused_event_costs_nothing:
  assumes "published C text = Some ev" and "\<not> admitted C ev now sv"
  shows "\<exists>reason. reason \<noteq> [] \<and> serve_text C conn text now sv = ([FOk (ev_id ev) False reason], sv)"
  using verdict_refused [OF assms(2)] by (auto simp: published_serve [OF assms(1)])

section \<open>The budget is the key's\<close>

text \<open>The events a step answers with a true OK, as author and time.\<close>

fun answers_true :: "string \<Rightarrow> frame list \<Rightarrow> bool" where
  "answers_true i [FOk j True note] = (i = j)"
| "answers_true i _ = False"

lemma answers_true_iff: "answers_true i frs \<longleftrightarrow> (\<exists>note. frs = [FOk i True note])"
  by (cases "(i, frs)" rule: answers_true.cases) auto

fun accepted :: "crate \<Rightarrow> server \<Rightarrow> sv_event \<Rightarrow> (pubkey \<times> u64) list" where
  "accepted C sv (SvMessage conn (WText text) now) =
     (case published C text of
        Some ev \<Rightarrow> if answers_true (ev_id ev) (fst (serve_text C conn text now sv))
                   then [(ev_pubkey ev, now)] else []
      | None \<Rightarrow> [])"
| "accepted C sv _ = []"

fun sv_accepted :: "crate \<Rightarrow> server \<Rightarrow> sv_event list \<Rightarrow> (pubkey \<times> u64) list" where
  "sv_accepted C sv [] = []"
| "sv_accepted C sv (e # es) = accepted C sv e @ sv_accepted C (snd (sv_step C sv e)) es"

fun message_times :: "sv_event list \<Rightarrow> u64 list" where
  "message_times [] = []"
| "message_times (SvMessage conn m now # es) = now # message_times es"
| "message_times (_ # es) = message_times es"

definition times_of :: "pubkey \<Rightarrow> (pubkey \<times> u64) list \<Rightarrow> u64 list" where
  "times_of p h = map snd (filter (\<lambda>(q, _). q = p) h)"

lemma times_of_simps [simp]:
  "times_of p [] = []" "times_of p (h @ h') = times_of p h @ times_of p h'"
  "times_of p ((q, t) # h) = (if q = p then t # times_of p h else times_of p h)"
  by (simp_all add: times_of_def)

definition budgets_track :: "server \<Rightarrow> (pubkey \<times> u64) list \<Rightarrow> u64 \<Rightarrow> bool" where
  "budgets_track sv h t \<longleftrightarrow>
     (\<forall>p. rl_capacity (limiter_of sv p) = sv_rate sv \<and>
        (\<exists>u \<le> t. rl_tracks (limiter_of sv p) (times_of p h) u))"

lemma budgets_track_cong:
  "budgets_track sv h t \<Longrightarrow> t \<le> t' \<Longrightarrow> sv_limiters sv' = sv_limiters sv \<Longrightarrow> sv_rate sv' = sv_rate sv
     \<Longrightarrow> budgets_track sv' h t'"
  unfolding budgets_track_def limiter_of_def by (metis order_trans)

lemma budgets_track_admit:
  assumes "budgets_track sv h t" and "t \<le> now" and "rl_admit (limiter_of sv p) now = (b, rl')"
    and "sv_limiters sv' = AList.update p rl' (sv_limiters sv)" and "sv_rate sv' = sv_rate sv"
  shows "budgets_track sv' (if b then h @ [(p, now)] else h) now"
proof -
  have lim: "limiter_of sv' q = (if q = p then rl' else limiter_of sv q)" for q
    using assms(4,5) by (simp add: limiter_of_def hm.get_insert split: option.split)
  obtain u where u: "u \<le> t" "rl_tracks (limiter_of sv p) (times_of p h) u"
    and cap: "rl_capacity (limiter_of sv p) = sv_rate sv"
    using assms(1) unfolding budgets_track_def by blast
  have new: "rl_tracks rl' (if b then times_of p h @ [now] else times_of p h) now \<and>
      rl_capacity rl' = sv_rate sv"
    using rl_admit_tracks [OF u(2) _ assms(3)] u(1) assms(2) cap by auto
  show ?thesis
    unfolding budgets_track_def
  proof
    fix q
    show "rl_capacity (limiter_of sv' q) = sv_rate sv' \<and> (\<exists>u \<le> now.
        rl_tracks (limiter_of sv' q) (times_of q (if b then h @ [(p, now)] else h)) u)"
    proof (cases "q = p")
      case True
      with new lim assms(5) show ?thesis by auto
    next
      case False
      then have "times_of q (if b then h @ [(p, now)] else h) = times_of q h" by simp
      moreover have "rl_capacity (limiter_of sv q) = sv_rate sv \<and>
          (\<exists>u \<le> t. rl_tracks (limiter_of sv q) (times_of q h) u)"
        using assms(1) unfolding budgets_track_def by blast
      ultimately show ?thesis using False lim assms(2,5) by (metis order_trans)
    qed
  qed
qed

lemma serve_other_limiters:
  "(\<And>text. m \<noteq> WText text) \<Longrightarrow> serve_message C conn m now sv = (frs, alive, sv') \<Longrightarrow> sv' = sv"
  by (cases m) auto

lemma leave_limiters [simp]:
  "sv_limiters (leave_connection conn sv) = sv_limiters sv"
  "sv_rate (leave_connection conn sv) = sv_rate sv"
  by (simp_all add: leave_connection_def)

lemma verdict_reply:
  assumes "published C text = Some ev" and "event_verdict C ev now sv = (r, sv')"
  shows "(\<exists>note. fst (serve_text C conn text now sv) = [FOk (ev_id ev) True note]) \<longleftrightarrow>
      r = Inr () \<or> r = Inl []"
    and "sv_limiters (snd (serve_text C conn text now sv)) = sv_limiters sv'"
    and "sv_rate (snd (serve_text C conn text now sv)) = sv_rate sv'"
  using assms(2) by (auto simp: published_serve [OF assms(1)] split: sum.splits)

lemma accepted_other:
  "(\<And>conn text now. e \<noteq> SvMessage conn (WText text) now) \<Longrightarrow> accepted C sv e = []"
  by (cases "(C, sv, e)" rule: accepted.cases) auto

lemma sv_step_budgets:
  assumes "budgets_track sv h t" and "sorted (t # message_times [e])"
  shows "budgets_track (snd (sv_step C sv e)) (h @ accepted C sv e) (last (t # message_times [e]))
    \<and> sv_rate (snd (sv_step C sv e)) = sv_rate sv"
proof (cases "\<exists>conn msg now. e = SvMessage conn (WText msg) now")
  case True
  then obtain conn msg now where e: "e = SvMessage conn (WText msg) now" by blast
  then have le: "t \<le> now" using assms(2) by simp
  obtain frs sv' where st: "serve_text C conn msg now sv = (frs, sv')" by fastforce
  have step: "snd (sv_step C sv e) = sv'" by (simp add: e st)
  show ?thesis
  proof (cases "published C msg")
    case None
    with not_published_limiters [OF None st] budgets_track_cong [OF assms(1) le] show ?thesis
      by (simp add: step) (simp add: e)
  next
    case (Some ev)
    obtain r sv1 where v: "event_verdict C ev now sv = (r, sv1)" by fastforce
    have keep: "sv_limiters sv' = sv_limiters sv1" "sv_rate sv' = sv_rate sv1"
      using verdict_reply(2,3) [OF Some v, of conn] st by auto
    have reply: "(\<exists>note. frs = [FOk (ev_id ev) True note]) \<longleftrightarrow> r = Inr () \<or> r = Inl []"
      using verdict_reply(1) [OF Some v, of conn] st by simp
    show ?thesis
    proof (cases "admitted C ev now sv")
      case False
      then obtain q where "q \<noteq> RejDuplicate" "event_verdict C ev now sv = (Inl (rejected_text q), sv)"
        using verdict_refused by blast
      with v have "sv1 = sv" and "\<not> (r = Inr () \<or> r = Inl [])" by auto
      moreover from this reply have "accepted C sv e = []" by (simp add: e Some st answers_true_iff)
      ultimately have "accepted C sv e = []" "sv1 = sv" by simp_all
      with keep budgets_track_cong [OF assms(1) le] show ?thesis
        by (simp add: step) (simp add: e)
    next
      case ad: True
      obtain b rl' where b: "rl_admit (limiter_of sv (ev_pubkey ev)) now = (b, rl')" by fastforce
      have acc: "accepted C sv e = (if b then [(ev_pubkey ev, now)] else [])"
        using verdict_admitted(2) [OF ad v] reply by (simp add: e Some st b answers_true_iff)
      have lim: "sv_limiters sv' = AList.update (ev_pubkey ev) rl' (sv_limiters sv)"
        and rate: "sv_rate sv' = sv_rate sv"
        using verdict_admitted(1,3) [OF ad v] keep by (simp_all add: b)
      have "h @ accepted C sv e = (if b then h @ [(ev_pubkey ev, now)] else h)"
        by (simp add: acc)
      with budgets_track_admit [OF assms(1) le b lim rate] rate show ?thesis
        by (simp only: step) (simp add: e)
    qed
  qed
next
  case False
  then have acc: "accepted C sv e = []" by (intro accepted_other) blast
  have "sv_limiters (snd (sv_step C sv e)) = sv_limiters sv \<and>
      sv_rate (snd (sv_step C sv e)) = sv_rate sv"
  proof (cases e)
    case (SvMessage conn m now)
    obtain frs alive sv' where m: "serve_message C conn m now sv = (frs, alive, sv')"
      by (cases "serve_message C conn m now sv") auto
    then have "sv' = sv" using False SvMessage by (intro serve_other_limiters) auto
    with m SvMessage show ?thesis by simp
  qed (auto simp: open_connection_def drain_def sweep_def split: option.splits)
  moreover have "t \<le> last (t # message_times [e])"
    using assms(2) by (cases e) auto
  ultimately show ?thesis
    using budgets_track_cong [OF assms(1)] by (simp add: acc)
qed

lemma sv_run_budgets:
  "budgets_track sv h t \<Longrightarrow> sorted (t # message_times es) \<Longrightarrow>
     window_count (times_of p (h @ sv_accepted C sv es)) T \<le> sv_rate sv"
proof (induction es arbitrary: sv h t)
  case Nil
  then show ?case unfolding budgets_track_def rl_tracks_def by (metis append_Nil2 sv_accepted.simps(1))
next
  case (Cons e es)
  have split: "message_times (e # es) = message_times [e] @ message_times es" by (cases e) auto
  then have srt: "sorted (t # message_times [e])"
      "sorted (last (t # message_times [e]) # message_times es)"
    using Cons.prems(2) by (cases e; auto)+
  from Cons.IH [of "snd (sv_step C sv e)" "h @ accepted C sv e"] sv_step_budgets [OF Cons.prems(1) srt(1)]
    srt(2) show ?case by (metis append.assoc sv_accepted.simps(2))
qed

text \<open>
  The relay's budget is the author's and survives every reconnect: in any run of the
  server from its start, whatever connections open, leave, publish, subscribe and get swept in
  between, the events of one author that are answered with a true OK within any sixty seconds
  are at most the configured rate, if the clock does not go backwards.
\<close>

theorem relay_rate_is_the_keys:
  assumes "sorted (message_times es)"
  shows "window_count (times_of p (sv_accepted C (sv_new c) es)) T \<le> rate_limit c"
proof -
  have "budgets_track (sv_new c) [] 0"
    by (auto simp: budgets_track_def limiter_of_def sv_new_def rl_tracks_def rl_with_capacity_def
        window_count_def)
  from sv_run_budgets [OF this, of es p C T] assms show ?thesis by (simp add: sv_new_def)
qed

text \<open>A run for the witnesses: three connections that come and go, one author.\<close>

definition demo_relay_crate :: crate where
  "demo_relay_crate = demo_crate\<lparr>
     json_parse := (\<lambda>s. if s = [] then Inl ''eof''
       else if s = ''sub'' then Inr (JArray [JString ''REQ'', JString ''s'',
         JObject [(''#p'', JArray [JString ''bob''])]])
       else Inr (JArray [JString ''EVENT'', JString s])),
     event_of_json := (\<lambda>v. case as_str v of
        Some s \<Rightarrow> Inr (demo_event s ''alice'' 1000 24133 [''bob''] []) | None \<Rightarrow> Inl ''no'')\<rparr>"

definition demo_relay_run :: "sv_event list" where
  "demo_relay_run =
     [SvOpen 1, SvMessage 1 (WText ''a'') 1000, SvMessage 1 (WText ''b'') 1001, SvLeave 1,
      SvOpen 2, SvMessage 2 (WText ''c'') 1002, SvSweep 1003]"

definition demo_relay_config :: relay_config where
  "demo_relay_config = default_config\<lparr>rate_limit := 2\<rparr>"

theorem relay_rate_is_the_keys_witness:
  "window_count (times_of ''alice''
     (sv_accepted demo_relay_crate (sv_new demo_relay_config) demo_relay_run)) 1002 \<le> 2 \<and>
   sv_accepted demo_relay_crate (sv_new demo_relay_config) demo_relay_run =
     [(''alice'', 1000), (''alice'', 1001)]"
proof -
  have acc: "sv_accepted demo_relay_crate (sv_new demo_relay_config) demo_relay_run =
     [(''alice'', 1000), (''alice'', 1001)]" by code_simp
  have "sorted (message_times demo_relay_run)" by (simp add: demo_relay_run_def)
  then have "window_count (times_of ''alice''
      (sv_accepted demo_relay_crate (sv_new demo_relay_config) demo_relay_run)) 1002
        \<le> rate_limit demo_relay_config"
    by (rule relay_rate_is_the_keys)
  with acc show ?thesis by (simp add: demo_relay_config_def)
qed

theorem refused_event_costs_nothing_witness:
  "\<exists>reason. reason \<noteq> [] \<and>
     serve_text demo_relay_crate 1 ''a'' 5000 (sv_new default_config) =
       ([FOk ''a'' False reason], sv_new default_config)"
proof -
  have p: "published demo_relay_crate ''a'' = Some (demo_event ''a'' ''alice'' 1000 24133 [''bob''] [])"
    by (simp add: published_def demo_relay_crate_def demo_crate_def nth_opt_def)
  have "\<not> admitted demo_relay_crate (demo_event ''a'' ''alice'' 1000 24133 [''bob''] []) 5000
      (sv_new default_config)"
    by (simp add: admitted_def admission_Inr sv_new_def es_new_def default_config_def
        accept_window_minutes_def demo_event_def sat_sub_def)
  from refused_event_costs_nothing [OF p this, of 1] show ?thesis by (simp add: demo_event_def)
qed

section \<open>Delivery\<close>

text \<open>The frames a connection's subscriptions call for, in the order they were made.\<close>

definition deliveries :: "event \<Rightarrow> (string \<times> relay_filter) list \<Rightarrow> frame list" where
  "deliveries ev subs = map (\<lambda>(s, f). FEvent s ev) (filter (\<lambda>(s, f). matches f ev) subs)"

lemma deliveries_simps [simp]:
  "deliveries ev [] = []"
  "deliveries ev ((s, f) # subs) =
     (if matches f ev then FEvent s ev # deliveries ev subs else deliveries ev subs)"
  by (simp_all add: deliveries_def)

lemma queue_frame_get:
  "map_of (queue_frame c fr out) k =
     (if k = c then map_option (\<lambda>q. q @ [fr]) (map_of out c) else map_of out k)"
  by (auto simp: queue_frame_def hm_simps split: option.splits)

lemma broadcast_to_get:
  "map_of (broadcast_to ev c subs out) k =
     (if k = c then map_option (\<lambda>q. q @ deliveries ev subs) (map_of out c) else map_of out k)"
  unfolding broadcast_to_def
proof (induction subs arbitrary: out)
  case (Cons sf subs)
  then show ?case
    by (cases sf) (auto simp: queue_frame_get option.map_comp comp_def)
qed (auto simp: option.map_ident)

lemma broadcast_get:
  "hm_inv subs \<Longrightarrow>
     map_of (fold (\<lambda>(c, ss) out. broadcast_to ev c ss out) subs out) k =
       map_option (\<lambda>q. q @ deliveries ev (or_default (map_of subs k))) (map_of out k)"
proof (induction subs arbitrary: out)
  case Nil
  then show ?case by (simp add: or_default_def option.map_ident)
next
  case (Cons a subs)
  obtain c ss where a: "a = (c, ss)" by fastforce
  from Cons.prems have inv: "hm_inv subs" and new: "map_of subs c = None"
    by (auto simp: hm_inv_def a map_of_eq_None_iff)
  show ?case
    by (auto simp: a Cons.IH [OF inv] broadcast_to_get new or_default_def option.map_comp comp_def)
qed

text \<open>The invariant of the whole server.\<close>

definition server_ok :: "crate \<Rightarrow> server \<Rightarrow> bool" where
  "server_ok C sv \<longleftrightarrow> store_ok C (sv_store sv) \<and> hm_inv (sv_subs sv) \<and> hm_inv (sv_out sv) \<and>
     hm_inv (sv_limiters sv)"

lemma server_ok_new: "server_ok C (sv_new c)"
  by (simp add: server_ok_def sv_new_def hm.inv_empty)

lemma hm_inv_queue [inv_intros]: "hm_inv out \<Longrightarrow> hm_inv (queue_frame c fr out)"
  by (auto simp: queue_frame_def inv_intros split: option.split)

lemma hm_inv_broadcast_to [inv_intros]: "hm_inv out \<Longrightarrow> hm_inv (broadcast_to ev c subs out)"
  unfolding broadcast_to_def
  by (induction subs arbitrary: out) (auto simp: inv_intros split: prod.splits)

lemma hm_inv_broadcast [inv_intros]:
  "hm_inv out \<Longrightarrow> hm_inv (fold (\<lambda>(c, ss) out. broadcast_to ev c ss out) subs out)"
  by (induction subs arbitrary: out) (auto simp: inv_intros split: prod.splits)

lemma server_ok_broadcast [inv_intros]: "server_ok C sv \<Longrightarrow> server_ok C (broadcast ev sv)"
  by (simp add: server_ok_def broadcast_def inv_intros)

lemma server_ok_verdict:
  assumes "server_ok C sv" and "event_verdict C ev now sv = (r, sv')"
  shows "server_ok C sv'"
proof -
  have "store_ok C st" if "es_insert C (sv_store sv) ev now = (x, st)" for x st
    using store_ok_insert [of C "sv_store sv" ev now] assms(1) that by (simp add: server_ok_def)
  with assms show ?thesis
    by (auto simp: event_verdict_def server_ok_def Let_def inv_intros
        split: sum.splits prod.splits if_splits)
qed

lemma server_ok_text:
  assumes "server_ok C sv" and "serve_text C conn text now sv = (frs, sv')"
  shows "server_ok C sv'"
proof (cases "published C text")
  case None
  with assms show ?thesis
    by (auto simp: published_def serve_text_def serve_event_def serve_req_def serve_close_def
        or_default_def Let_def ok_def server_ok_def inv_intros
        split: sum.splits option.splits if_splits)
next
  case (Some ev)
  obtain r sv1 where "event_verdict C ev now sv = (r, sv1)" by fastforce
  with assms server_ok_verdict [OF assms(1) this] show ?thesis
    by (auto simp: published_serve [OF Some] inv_intros split: sum.splits if_splits)
qed

lemma server_ok_step: "server_ok C sv \<Longrightarrow> server_ok C (snd (sv_step C sv e))"
proof (induction C sv e rule: sv_step.induct)
  case (2 C sv conn m now)
  obtain frs alive sv' where m: "serve_message C conn m now sv = (frs, alive, sv')"
    by (cases "serve_message C conn m now sv") auto
  have "server_ok C sv'"
    using 2 m server_ok_text by (cases m) (auto split: prod.splits)
  with m show ?case by (simp add: server_ok_def leave_connection_def inv_intros)
qed (auto simp: server_ok_def open_connection_def drain_def leave_connection_def sweep_def inv_intros
    split: option.splits)

interpretation relay_server: op_system "\<lambda>sv e. snd (sv_step C sv e)" "server_ok C" "sv_new c"
  by unfold_locales (simp_all add: server_ok_new server_ok_step)

abbreviation sv_after :: "crate \<Rightarrow> relay_config \<Rightarrow> sv_event list \<Rightarrow> server" where
  "sv_after C c es \<equiv> run_ops (\<lambda>sv e. snd (sv_step C sv e)) (sv_new c) es"


section \<open>Leaving\<close>

fun conn_of :: "sv_event \<Rightarrow> nat option" where
  "conn_of (SvOpen c) = Some c"
| "conn_of (SvMessage c m now) = Some c"
| "conn_of (SvBeat c) = Some c"
| "conn_of (SvLeave c) = Some c"
| "conn_of (SvSweep now) = None"

definition absent :: "nat \<Rightarrow> server \<Rightarrow> bool" where
  "absent k sv \<longleftrightarrow> map_of (sv_subs sv) k = None \<and> map_of (sv_out sv) k = None"

lemma broadcast_to_none: "map_of out k = None \<Longrightarrow> map_of (broadcast_to ev c subs out) k = None"
  by (cases "k = c") (simp_all add: broadcast_to_get)

lemma absent_broadcast: "absent k sv \<Longrightarrow> absent k (broadcast ev sv)"
proof -
  have "map_of out k = None \<Longrightarrow>
      map_of (fold (\<lambda>(c, ss) out. broadcast_to ev c ss out) subs out) k = None" for subs out
    by (induction subs arbitrary: out) (auto simp: broadcast_to_none split: prod.splits)
  then show "absent k sv \<Longrightarrow> absent k (broadcast ev sv)"
    by (simp add: absent_def broadcast_def)
qed

lemma absent_text:
  assumes "absent k sv" and "conn \<noteq> k" and "serve_text C conn text now sv = (frs, sv')"
  shows "absent k sv'"
proof (cases "published C text")
  case None
  with assms show ?thesis
    by (auto simp: published_def serve_text_def serve_event_def serve_req_def serve_close_def
        or_default_def Let_def ok_def absent_def hm_simps
        split: sum.splits option.splits if_splits)
next
  case (Some ev)
  obtain r sv1 where v: "event_verdict C ev now sv = (r, sv1)" by fastforce
  then have "absent k sv1"
    using assms(1) by (auto simp: event_verdict_def absent_def Let_def
        split: sum.splits prod.splits if_splits)
  with assms(3) v show ?thesis
    by (auto simp: published_serve [OF Some] absent_broadcast split: sum.splits if_splits)
qed

lemma absent_step:
  "absent k sv \<Longrightarrow> conn_of e \<noteq> Some k \<Longrightarrow> absent k (snd (sv_step C sv e))"
proof (induction C sv e rule: sv_step.induct)
  case (2 C sv conn m now)
  obtain frs alive sv' where m: "serve_message C conn m now sv = (frs, alive, sv')"
    by (cases "serve_message C conn m now sv") auto
  have "absent k sv'"
    using 2 m absent_text by (cases m) (auto split: prod.splits)
  with m show ?case by (simp add: absent_def leave_connection_def hm_simps)
qed (auto simp: absent_def open_connection_def drain_def leave_connection_def sweep_def hm_simps
    split: option.splits)

text \<open>
  A connection that leaves takes its subscriptions and its queue with it, and as long as
  no connection comes back under its number nothing is ever subscribed or queued for it again,
  whatever the others do.
\<close>

theorem leaving_leaves_nothing:
  assumes "\<forall>e \<in> set es. conn_of e \<noteq> Some k"
  shows "absent k (run_ops (\<lambda>sv e. snd (sv_step C sv e)) (leave_connection k sv) es)"
proof -
  have "absent k s \<Longrightarrow> absent k (run_ops (\<lambda>sv e. snd (sv_step C sv e)) s es)" for s
    using assms by (induction es arbitrary: s) (auto intro: absent_step)
  moreover have "absent k (leave_connection k sv)"
    by (simp add: absent_def leave_connection_def hm_simps)
  ultimately show ?thesis by blast
qed


theorem leaving_leaves_nothing_witness:
  "absent 1 (run_ops (\<lambda>sv e. snd (sv_step demo_relay_crate sv e))
     (leave_connection 1 (sv_new default_config)) [SvOpen 2, SvMessage 2 (WText ''c'') 1002])"
  by (rule leaving_leaves_nothing) simp

end
