(* ===== verification/Uris.thy ===== *)
theory Uris
  imports Wire
begin

text \<open>
  The two pairing URIs of \<open>src/nostr/bunker.rs\<close>: \<open>bunker://\<close>, which the signer
  renders, and \<open>nostrconnect://\<close>, which a client renders and the signer parses, with the
  percent-encoding both use, the relay rule, and the name derived from a client's url.
\<close>

section \<open>UTF-8 and white space\<close>

text \<open>\<open>String::from_utf8\<close>: which byte strings are well-formed.\<close>

definition cont_byte :: "nat \<Rightarrow> bool" where
  "cont_byte b \<longleftrightarrow> 128 \<le> b \<and> b \<le> 191"

fun utf8_bytes :: "nat list \<Rightarrow> bool" where
  "utf8_bytes [] = True"
| "utf8_bytes (b # bs) =
     (if b < 128 then utf8_bytes bs
      else if 194 \<le> b \<and> b \<le> 223 then
        (case bs of c # r \<Rightarrow> cont_byte c \<and> utf8_bytes r | _ \<Rightarrow> False)
      else if 224 \<le> b \<and> b \<le> 239 then
        (case bs of c # d # r \<Rightarrow> cont_byte c \<and> (b = 224 \<longrightarrow> 160 \<le> c) \<and> (b = 237 \<longrightarrow> c \<le> 159) \<and>
           cont_byte d \<and> utf8_bytes r | _ \<Rightarrow> False)
      else if 240 \<le> b \<and> b \<le> 244 then
        (case bs of c # d # e # r \<Rightarrow> cont_byte c \<and> (b = 240 \<longrightarrow> 144 \<le> c) \<and> (b = 244 \<longrightarrow> c \<le> 143) \<and>
           cont_byte d \<and> cont_byte e \<and> utf8_bytes r | _ \<Rightarrow> False)
      else False)"

definition valid_utf8 :: "string \<Rightarrow> bool" where
  "valid_utf8 s = utf8_bytes (map of_char s)"

text \<open>The encodings of the characters \<open>str::trim\<close> removes (Unicode's white space).\<close>

definition white_spaces :: "nat list list" where
  "white_spaces =
     [[9], [10], [11], [12], [13], [32], [194, 133], [194, 160], [225, 154, 128],
      [226, 128, 128], [226, 128, 129], [226, 128, 130], [226, 128, 131], [226, 128, 132],
      [226, 128, 133], [226, 128, 134], [226, 128, 135], [226, 128, 136], [226, 128, 137],
      [226, 128, 138], [226, 128, 168], [226, 128, 169], [226, 128, 175], [226, 129, 159],
      [227, 128, 128]]"

text \<open>Leading occurrences of any of the given non-empty sequences are dropped.\<close>

function drop_any :: "string list \<Rightarrow> string \<Rightarrow> string" where
  "drop_any ws s =
     (case find (\<lambda>w. w \<noteq> [] \<and> starts_with w s) ws of
        Some w \<Rightarrow> drop_any ws (drop (length w) s) | None \<Rightarrow> s)"
  by pat_completeness auto

termination
  by (relation "measure (\<lambda>(ws, s). length s)")
    (auto simp: find_Some_iff starts_with_iff)

declare drop_any.simps [simp del]

definition trim :: "string \<Rightarrow> string" where
  "trim s =
     (let ws = map (map char_of) white_spaces
      in rev (drop_any (map rev ws) (rev (drop_any ws s))))"

section \<open>Percent-encoding\<close>

definition unreserved :: "char \<Rightarrow> bool" where
  "unreserved c \<longleftrightarrow> (let n = of_char c :: nat in
     65 \<le> n \<and> n \<le> 90 \<or> 97 \<le> n \<and> n \<le> 122 \<or> 48 \<le> n \<and> n \<le> 57) \<or> c \<in> set ''-._~''"

definition percent_encode :: "string \<Rightarrow> string" where
  "percent_encode s = concat (map (\<lambda>c. if unreserved c then [c] else CHR ''%'' # show_hex2 True c) s)"

fun percent_bytes :: "string \<Rightarrow> string option" where
  "percent_bytes [] = Some []"
| "percent_bytes (c # cs) =
     (if c = CHR ''+'' then map_option (Cons (CHR '' '')) (percent_bytes cs)
      else if c = CHR ''%'' then
        (case cs of a # b # rest \<Rightarrow>
           (case parse_hex2 a b of
              Some x \<Rightarrow> map_option (Cons x) (percent_bytes rest) | None \<Rightarrow> None)
         | _ \<Rightarrow> None)
      else map_option (Cons c) (percent_bytes cs))"

datatype uri_error =
    WrongScheme
  | BadPubkey string
  | BadPercent
  | NoRelay
  | RelayNoScheme string
  | RelayPlaintext string
  | RelayScheme string string
  | NoSecret

definition percent_decode :: "string \<Rightarrow> uri_error + string" where
  "percent_decode value =
     (case percent_bytes value of
        Some out \<Rightarrow> if valid_utf8 out then Inr out else Inl BadPercent
      | None \<Rightarrow> Inl BadPercent)"

section \<open>The bunker's URI\<close>

definition add_relay :: "string \<Rightarrow> string \<Rightarrow> string" where
  "add_relay uri relay =
     uri @ [if CHR ''?'' \<in> set uri then CHR ''&'' else CHR ''?''] @ ''relay='' @ percent_encode relay"

definition bunker_uri :: "pubkey \<Rightarrow> string list \<Rightarrow> string option \<Rightarrow> string" where
  "bunker_uri public_key relays secret =
     (let uri = foldl add_relay (''bunker://'' @ public_key) relays
      in case secret of Some s \<Rightarrow> uri @ ''&secret='' @ percent_encode s | None \<Rightarrow> uri)"

fun relay_values :: "string list \<Rightarrow> uri_error + string list" where
  "relay_values [] = Inr []"
| "relay_values (pair # ps) =
     (case strip_prefix ''relay='' pair of
        None \<Rightarrow> relay_values ps
      | Some value \<Rightarrow>
          (case percent_decode value of
             Inl e \<Rightarrow> Inl e
           | Inr relay \<Rightarrow>
               (case relay_values ps of Inl e \<Rightarrow> Inl e | Inr rs \<Rightarrow> Inr (relay # rs))))"

definition parse_bunker_uri :: "crate \<Rightarrow> string \<Rightarrow> uri_error + pubkey \<times> string list" where
  "parse_bunker_uri C uri =
     (case strip_prefix ''bunker://'' uri of
        None \<Rightarrow> Inl WrongScheme
      | Some rest \<Rightarrow>
          (let (pk, query) = (case split_once ''?'' rest of
                                Some (pk, q) \<Rightarrow> (pk, Some q) | None \<Rightarrow> (rest, None))
           in case pk_parse C pk of
                Inl e \<Rightarrow> Inl (BadPubkey e)
              | Inr key \<Rightarrow>
                  (case query of
                     None \<Rightarrow> Inr (key, [])
                   | Some q \<Rightarrow>
                       (case relay_values (split_char (CHR ''&'') q) of
                          Inl e \<Rightarrow> Inl e | Inr relays \<Rightarrow> Inr (key, relays)))))"

section \<open>The client's URI\<close>

record nostr_connect_parts =
  nc_client_pubkey :: pubkey
  nc_relays :: "string list"
  nc_secret :: string
  nc_perms :: "string option"
  nc_name :: "string option"
  nc_url :: "string option"

record nc_query =
  q_relays :: "string list"
  q_secret :: "string option"
  q_perms :: "string option"
  q_name :: "string option"
  q_url :: "string option"

definition nc_pair :: "nc_query \<Rightarrow> string \<Rightarrow> string \<Rightarrow> uri_error + nc_query" where
  "nc_pair q key value =
     (if key \<in> set [''relay'', ''secret'', ''perms'', ''name'', ''url''] then
        (case percent_decode value of
           Inl e \<Rightarrow> Inl e
         | Inr v \<Rightarrow> Inr
             (if key = ''relay'' then q\<lparr>q_relays := q_relays q @ [v]\<rparr>
              else if key = ''secret'' then q\<lparr>q_secret := Some v\<rparr>
              else if key = ''perms'' then q\<lparr>q_perms := Some v\<rparr>
              else if key = ''name'' then q\<lparr>q_name := Some v\<rparr>
              else q\<lparr>q_url := Some v\<rparr>))
      else Inr q)"

fun nc_pairs :: "nc_query \<Rightarrow> string list \<Rightarrow> uri_error + nc_query" where
  "nc_pairs q [] = Inr q"
| "nc_pairs q (pair # ps) =
     (case split_once ''='' pair of
        None \<Rightarrow> nc_pairs q ps
      | Some (key, value) \<Rightarrow>
          (case nc_pair q key value of Inl e \<Rightarrow> Inl e | Inr q' \<Rightarrow> nc_pairs q' ps))"

text \<open>The relay rule: \<open>wss://\<close> to anywhere, \<open>ws://\<close> to loopback only.\<close>

definition relay_rule :: "string \<Rightarrow> uri_error option" where
  "relay_rule relay =
     (case split_once ''://'' relay of
        None \<Rightarrow> Some (RelayNoScheme relay)
      | Some (scheme, rest) \<Rightarrow>
          if scheme = ''wss'' then None
          else if scheme = ''ws'' then
            (let authority = hd (split_char (CHR ''/'') rest);
                 host = hd (split_char (CHR '':'') authority)
             in if host \<in> set [''127.0.0.1'', ''::1'', ''localhost''] then None
                else Some (RelayPlaintext relay))
          else Some (RelayScheme relay scheme))"

fun first_error :: "string list \<Rightarrow> uri_error option" where
  "first_error [] = None"
| "first_error (r # rs) = (case relay_rule r of Some e \<Rightarrow> Some e | None \<Rightarrow> first_error rs)"

definition parse_nostrconnect_uri :: "crate \<Rightarrow> string \<Rightarrow> uri_error + nostr_connect_parts" where
  "parse_nostrconnect_uri C uri =
     (case strip_prefix ''nostrconnect://'' uri of
        None \<Rightarrow> Inl WrongScheme
      | Some rest \<Rightarrow>
          (let (pk, query) = (case split_once ''?'' rest of Some pq \<Rightarrow> pq | None \<Rightarrow> (rest, []))
           in case pk_parse C pk of
                Inl e \<Rightarrow> Inl (BadPubkey e)
              | Inr client \<Rightarrow>
                  (case nc_pairs \<lparr>q_relays = [], q_secret = None, q_perms = None, q_name = None,
                                   q_url = None\<rparr> (split_char (CHR ''&'') query) of
                     Inl e \<Rightarrow> Inl e
                   | Inr q \<Rightarrow>
                       if q_relays q = [] then Inl NoRelay
                       else (case first_error (q_relays q) of
                          Some e \<Rightarrow> Inl e
                        | None \<Rightarrow>
                            (case q_secret q of
                               None \<Rightarrow> Inl NoSecret
                             | Some s \<Rightarrow> Inr
                                 \<lparr>nc_client_pubkey = client, nc_relays = q_relays q, nc_secret = s,
                                  nc_perms = q_perms q, nc_name = q_name q, nc_url = q_url q\<rparr>)))))"

section \<open>A client's claims about itself\<close>

record client_meta =
  cm_name :: "string option"
  cm_url :: "string option"
  cm_img :: "string option"

definition client_meta_parse :: "crate \<Rightarrow> string option \<Rightarrow> client_meta option" where
  "client_meta_parse C raw =
     (case raw of
        None \<Rightarrow> None
      | Some s \<Rightarrow>
          (case json_parse C s of
             Inl _ \<Rightarrow> None
           | Inr v \<Rightarrow> Some \<lparr>cm_name = as_str (jindex v ''name''), cm_url = as_str (jindex v ''url''),
                             cm_img = as_str (jindex v ''image'')\<rparr>))"

text \<open>
  The name derived from a url's host. \<open>lower\<close> is \<open>str::to_lowercase\<close>, Unicode's table
  of lower cases.
\<close>

definition rsplit_once :: "char \<Rightarrow> string \<Rightarrow> (string \<times> string) option" where
  "rsplit_once c s = map_option (\<lambda>(a, b). (rev b, rev a)) (split_once [c] (rev s))"

definition name_from_url :: "(string \<Rightarrow> string) \<Rightarrow> string \<Rightarrow> string option" where
  "name_from_url lower url =
     (let rest = (case split_once ''://'' url of Some (_, r) \<Rightarrow> r | None \<Rightarrow> url);
          h1 = hd (split_char (CHR ''/'') rest);
          h2 = (case rsplit_once (CHR ''@'') h1 of Some (_, h) \<Rightarrow> h | None \<Rightarrow> h1);
          host = hd (split_char (CHR '':'') h2);
          labels = split_char (CHR ''.'') host
      in if length labels < 2 then None
         else if list_all (\<lambda>l. l \<noteq> [] \<and> list_all is_digit l) labels then None
         else Some (lower (labels ! (length labels - 2) @ ''.'' @ labels ! (length labels - 1))))"

section \<open>Round trips\<close>

lemma unreserved_not: "unreserved c \<Longrightarrow> c \<notin> set ''+%?&='' "
  by (auto simp: unreserved_def Let_def)

lemma hex_digit_cases:
  "d < 16 \<Longrightarrow> hex_digit True d \<in> set ''0123456789ABCDEF''"
proof -
  assume "d < 16"
  then have "d \<in> set [0..<16]" by simp
  moreover have "\<forall>d \<in> set [0..<16]. hex_digit True d \<in> set ''0123456789ABCDEF''"
    by code_simp
  ultimately show ?thesis by blast
qed

lemma nibbles: "(of_char c :: nat) div 16 < 16" "(of_char c :: nat) mod 16 < 16"
proof -
  have "(of_char c :: nat) < 256" by (metis nat_of_char_less_256)
  then show "(of_char c :: nat) div 16 < 16" by (simp add: less_mult_imp_div_less)
qed simp

lemma percent_encode_chars:
  "d \<in> set (percent_encode s) \<Longrightarrow> unreserved d \<or> d = CHR ''%'' \<or> d \<in> set ''0123456789ABCDEF''"
  using hex_digit_cases [OF nibbles(1)] hex_digit_cases [OF nibbles(2)]
  by (auto simp: percent_encode_def show_hex2_def split: if_splits)

lemma percent_encode_clean [simp]:
  "CHR ''?'' \<notin> set (percent_encode s)" "CHR ''&'' \<notin> set (percent_encode s)"
  "CHR ''='' \<notin> set (percent_encode s)"
  using percent_encode_chars [of _ s] unreserved_not by fastforce+

lemma percent_bytes_encode: "percent_bytes (percent_encode s @ t) = map_option ((@) s) (percent_bytes t)"
proof (induction s)
  case Nil
  then show ?case by (simp add: percent_encode_def option.map_ident [unfolded id_def])
next
  case (Cons c s)
  have enc: "percent_encode (c # s) =
      (if unreserved c then [c] else CHR ''%'' # show_hex2 True c) @ percent_encode s"
    by (simp add: percent_encode_def)
  show ?case
  proof (cases "unreserved c")
    case True
    then have "c \<noteq> CHR ''+''" "c \<noteq> CHR ''%''" using unreserved_not by auto
    with True Cons show ?thesis by (simp add: enc option.map_comp o_def)
  next
    case False
    with Cons show ?thesis
      by (simp add: enc show_hex2_def parse_hex2_show option.map_comp o_def)
  qed
qed

lemma percent_decode_encode: "valid_utf8 s \<Longrightarrow> percent_decode (percent_encode s) = Inr s"
  using percent_bytes_encode [of s "[]"] by (simp add: percent_decode_def)

text \<open>
  Percent-decoding undoes percent-encoding on every Rust string (every valid UTF-8 byte
  string), whatever bytes it holds.
\<close>

theorem percent_round_trip:
  assumes "valid_utf8 s"
  shows "percent_decode (percent_encode s) = Inr s"
  using assms by (rule percent_decode_encode)

lemma percent_round_trip_witness:
  "percent_decode (percent_encode ''ws://127.0.0.1:7777/?a=b+c'') = Inr ''ws://127.0.0.1:7777/?a=b+c''"
  by (rule percent_round_trip) code_simp

lemma foldl_relays:
  assumes "CHR ''?'' \<in> set uri"
  shows "foldl add_relay uri relays =
    uri @ concat (map (\<lambda>r. ''&relay='' @ percent_encode r) relays)"
  using assms by (induction relays arbitrary: uri) (simp_all add: add_relay_def)

lemma split_pairs:
  assumes "\<And>p. p \<in> set (p0 # ps) \<Longrightarrow> CHR ''&'' \<notin> set p"
  shows "split_char (CHR ''&'') (p0 @ concat (map (\<lambda>p. CHR ''&'' # p) ps)) = p0 # ps"
  using assms
proof (induction ps arbitrary: p0)
  case Nil
  then show ?case by (simp add: split_char_no_sep)
next
  case (Cons p ps)
  then show ?case using split_char_append [of "CHR ''&''" p0] by simp
qed

lemma relay_values_encoded:
  assumes "list_all valid_utf8 relays" "\<And>p. p \<in> set ps \<Longrightarrow> \<not> starts_with ''relay='' p"
  shows "relay_values (map (\<lambda>r. ''relay='' @ percent_encode r) relays @ ps) = Inr relays"
proof (use assms(1) in \<open>induction relays\<close>)
  case Nil
  show ?case
    using assms(2) by (simp, induction ps) (auto simp: strip_prefix_def)
next
  case (Cons r relays)
  have "strip_prefix ''relay='' (''relay='' @ percent_encode r) = Some (percent_encode r)"
    by (rule strip_prefix_append)
  with Cons percent_decode_encode [of r] show ?case by simp
qed

definition query_of :: "string list \<Rightarrow> string \<Rightarrow> string" where
  "query_of ps p0 = p0 @ concat (map (\<lambda>p. CHR ''&'' # p) ps)"

definition secret_pair :: "string option \<Rightarrow> string list" where
  "secret_pair secret = (case secret of Some s \<Rightarrow> [''secret='' @ percent_encode s] | None \<Rightarrow> [])"

lemma bunker_uri_shape:
  assumes "CHR ''?'' \<notin> set pk"
  shows "bunker_uri pk (r # relays) secret = ''bunker://'' @ pk @ ''?'' @
    query_of (map (\<lambda>r. ''relay='' @ percent_encode r) relays @ secret_pair secret)
      (''relay='' @ percent_encode r)"
proof -
  have "foldl add_relay (''bunker://'' @ pk) (r # relays) = ''bunker://'' @ pk @ ''?'' @
      query_of (map (\<lambda>r. ''relay='' @ percent_encode r) relays) (''relay='' @ percent_encode r)"
    using assms foldl_relays [of "add_relay (''bunker://'' @ pk) r" relays]
    by (simp add: add_relay_def query_of_def o_def)
  then show ?thesis
    by (cases secret) (simp_all add: bunker_uri_def Let_def query_of_def secret_pair_def)
qed

lemma no_amp_pairs:
  "p \<in> set ((''relay='' @ percent_encode r) # map (\<lambda>r. ''relay='' @ percent_encode r) relays
     @ secret_pair secret) \<Longrightarrow> CHR ''&'' \<notin> set p"
  by (auto simp: secret_pair_def split: option.splits)

lemma parse_rendered:
  assumes "pk_parse C pk = Inr key" "CHR ''?'' \<notin> set pk" "list_all valid_utf8 (r # relays)"
  shows "parse_bunker_uri C (bunker_uri pk (r # relays) secret) = Inr (key, r # relays)"
proof -
  let ?ps = "map (\<lambda>r. ''relay='' @ percent_encode r) relays @ secret_pair secret"
  let ?q = "query_of ?ps (''relay='' @ percent_encode r)"
  have uri: "strip_prefix ''bunker://'' (bunker_uri pk (r # relays) secret) = Some (pk @ CHR ''?'' # ?q)"
    by (simp only: bunker_uri_shape [OF assms(2)] strip_prefix_append) simp
  have pairs: "split_char (CHR ''&'') ?q = map (\<lambda>r. ''relay='' @ percent_encode r) (r # relays)
      @ secret_pair secret"
    unfolding query_of_def by (subst split_pairs [OF no_amp_pairs]) simp_all
  have "\<not> starts_with ''relay='' p" if "p \<in> set (secret_pair secret)" for p
    using that by (auto simp: secret_pair_def starts_with_def split: option.splits)
  then have "relay_values (split_char (CHR ''&'') ?q) = Inr (r # relays)"
    unfolding pairs by (rule relay_values_encoded [OF assms(3)])
  then show ?thesis
    unfolding parse_bunker_uri_def uri by (simp add: split_once_char [OF assms(2)] assms(1))
qed

text \<open>
  The URI the QR renders parses back: with at least one relay, for every key and all
  relays, and with or without a secret, parsing the rendered URI gives the key and the relays,
  in order.
\<close>

theorem bunker_uri_round_trip:
  assumes "pk_parse C pk = Inr key" "CHR ''?'' \<notin> set pk" "list_all valid_utf8 relays" "relays \<noteq> []"
  shows "parse_bunker_uri C (bunker_uri pk relays secret) = Inr (key, relays)"
  using assms parse_rendered by (cases relays) auto

lemma bunker_uri_round_trip_witness:
  "parse_bunker_uri demo_crate (bunker_uri ''ab12'' [''wss://a.example'', ''ws://localhost:7''] (Some ''x&y''))
    = Inr (''ab12'', [''wss://a.example'', ''ws://localhost:7''])"
  by (rule bunker_uri_round_trip) code_simp+

text \<open>
  Without a relay the rendered URI is malformed: the secret follows an ampersand with no
  question mark before it, so the URI has no query and the secret is read as part of the key.
\<close>

theorem no_relay_uri_has_no_query:
  assumes "CHR ''?'' \<notin> set pk"
  shows "bunker_uri pk [] (Some s) = ''bunker://'' @ pk @ ''&secret='' @ percent_encode s \<and>
    parse_bunker_uri C (bunker_uri pk [] (Some s)) =
      (case pk_parse C (pk @ ''&secret='' @ percent_encode s) of
         Inl e \<Rightarrow> Inl (BadPubkey e) | Inr key \<Rightarrow> Inr (key, []))"
proof -
  have uri: "bunker_uri pk [] (Some s) = ''bunker://'' @ pk @ ''&secret='' @ percent_encode s"
    by (simp add: bunker_uri_def)
  have "split_once ''?'' (pk @ ''&secret='' @ percent_encode s) = None"
    using assms by (intro split_once_none) simp
  moreover have "strip_prefix ''bunker://'' (bunker_uri pk [] (Some s)) =
      Some (pk @ ''&secret='' @ percent_encode s)"
    unfolding uri by (rule strip_prefix_append)
  ultimately show ?thesis
    using uri by (simp add: parse_bunker_uri_def split: sum.split)
qed

lemma no_relay_uri_has_no_query_witness:
  "parse_bunker_uri demo_crate (bunker_uri ''ab'' [] (Some ''s'')) = Inr (''ab&secret=s'', [])"
  by (rule trans [OF conjunct2 [OF no_relay_uri_has_no_query]]) code_simp+

section \<open>The relay rule\<close>

lemma hd_split_no_sep: "d \<notin> set (hd (split_char d s))"
  by (induction s) (auto split: list.splits)

lemma hd_split_append: "d \<notin> set p \<Longrightarrow> hd (split_char d (p @ d # t)) = p"
  by (simp add: split_char_append)

lemma first_error_None: "first_error rs = None \<longleftrightarrow> (\<forall>r \<in> set rs. relay_rule r = None)"
  by (induction rs) (auto split: option.splits)

lemma relay_rule_None:
  assumes "relay_rule r = None"
  shows "(\<exists>rest. r = ''wss://'' @ rest) \<or>
    (\<exists>rest. r = ''ws://'' @ rest \<and>
       hd (split_char (CHR '':'') (hd (split_char (CHR ''/'') rest))) \<in> set [''127.0.0.1'', ''localhost''])"
proof -
  obtain scheme rest where split: "split_once ''://'' r = Some (scheme, rest)"
    using assms by (auto simp: relay_rule_def split: option.splits)
  have "CHR '':'' \<notin> set (hd (split_char (CHR '':'') (hd (split_char (CHR ''/'') rest))))"
    by (rule hd_split_no_sep)
  then have "hd (split_char (CHR '':'') (hd (split_char (CHR ''/'') rest))) \<noteq> ''::1''" by fastforce
  with assms split split_once_Some [OF split] show ?thesis
    by (auto simp: relay_rule_def Let_def split: if_splits)
qed

text \<open>
  A pairing a client's URI starts names at least one relay, and every relay it names is
  \<open>wss://\<close>, or \<open>ws://\<close> with the loopback address or \<open>localhost\<close> before the first
  colon of its authority. (The third loopback name in the code's list, \<open>::1\<close>, is never
  that text: it holds colons itself.)
\<close>

theorem nostrconnect_relays_obey_the_rule:
  assumes "parse_nostrconnect_uri C uri = Inr parts"
  shows "nc_relays parts \<noteq> [] \<and>
    (\<forall>r \<in> set (nc_relays parts). (\<exists>rest. r = ''wss://'' @ rest) \<or>
      (\<exists>rest. r = ''ws://'' @ rest \<and>
         hd (split_char (CHR '':'') (hd (split_char (CHR ''/'') rest)))
           \<in> set [''127.0.0.1'', ''localhost'']))"
proof -
  have "nc_relays parts \<noteq> [] \<and> first_error (nc_relays parts) = None"
    using assms
    by (auto simp: parse_nostrconnect_uri_def Let_def split: option.splits prod.splits sum.splits if_splits)
  then show ?thesis using relay_rule_None by (simp add: first_error_None)
qed

lemma nostrconnect_relays_obey_the_rule_witness:
  "(\<exists>rest. ''wss://a.example'' = ''wss://'' @ rest) \<or>
      (\<exists>rest. ''wss://a.example'' = ''ws://'' @ rest \<and>
         hd (split_char (CHR '':'') (hd (split_char (CHR ''/'') rest)))
           \<in> set [''127.0.0.1'', ''localhost''])"
proof -
  have "parse_nostrconnect_uri demo_crate
      ''nostrconnect://ab12?relay=wss%3A%2F%2Fa.example&secret=s&name=My+Client'' =
    Inr \<lparr>nc_client_pubkey = ''ab12'', nc_relays = [''wss://a.example''], nc_secret = ''s'',
         nc_perms = None, nc_name = Some ''My Client'', nc_url = None\<rparr>"
    by code_simp
  from nostrconnect_relays_obey_the_rule [OF this] show ?thesis by simp
qed

text \<open>
  The loopback test reads the user part of an authority as its host: a plaintext relay at
  any host at all passes as loopback when its URL carries \<open>localhost\<close> as a user name. And
  the rule refuses every spelling of the IPv6 loopback address it lists.
\<close>

theorem loopback_rule_reads_user_as_host:
  "relay_rule (''ws://localhost:x@'' @ host) = None \<and>
   relay_rule (''ws://::1'' @ t) = Some (RelayPlaintext (''ws://::1'' @ t)) \<and>
   relay_rule (''ws://[::1]'' @ t) = Some (RelayPlaintext (''ws://[::1]'' @ t))"
proof -
  have scheme: "split_once ''://'' (''ws://'' @ rest) = Some (''ws'', rest)" for rest
    by (simp add: starts_with_def)
  have slash: "\<exists>w. hd (split_char (CHR ''/'') (p @ t)) = p @ w" if "CHR ''/'' \<notin> set p" for p t
    using that by (induction p) (auto split: list.splits simp: neq_Nil_conv intro: exI [of _ "hd (split_char (CHR ''/'') t)"])
  have host: "hd (split_char (CHR '':'') (hd (split_char (CHR ''/'') (p @ '':'' @ q @ t)))) = p"
    if "CHR '':'' \<notin> set p" "CHR ''/'' \<notin> set p" "CHR ''/'' \<notin> set q" for p q t
  proof -
    have "CHR ''/'' \<notin> set (p @ '':'' @ q)" using that by simp
    from slash [OF this, of t] obtain w where
      w: "hd (split_char (CHR ''/'') (p @ '':'' @ q @ t)) = p @ '':'' @ q @ w"
      by (auto simp only: append_assoc)
    show ?thesis unfolding w using hd_split_append [OF that(1), of "q @ w"] by simp
  qed
  have "relay_rule (''ws://'' @ (''localhost'' @ '':'' @ ''x@'') @ host) = None"
    unfolding relay_rule_def scheme by (simp add: Let_def host del: append.simps)
  moreover have "relay_rule (''ws://'' @ ([] @ '':'' @ '':1'') @ t) =
      Some (RelayPlaintext (''ws://'' @ ([] @ '':'' @ '':1'') @ t))"
    unfolding relay_rule_def scheme by (simp add: Let_def host del: append.simps)
  moreover have "relay_rule (''ws://'' @ (''['' @ '':'' @ '':1]'') @ t) =
      Some (RelayPlaintext (''ws://'' @ (''['' @ '':'' @ '':1]'') @ t))"
    unfolding relay_rule_def scheme by (simp add: Let_def host del: append.simps)
  ultimately show ?thesis by simp
qed

lemma nc_pairs_relays:
  "list_all valid_utf8 rs \<Longrightarrow>
   nc_pairs q (map (\<lambda>r. ''relay='' @ percent_encode r) rs @ ps) =
     nc_pairs (q\<lparr>q_relays := q_relays q @ rs\<rparr>) ps"
proof (induction rs arbitrary: q)
  case (Cons r rs)
  have "split_once ''='' (''relay='' @ percent_encode r) = Some (''relay'', percent_encode r)"
    using split_once_char [of "CHR ''=''" "''relay''" "percent_encode r"] by simp
  then have "nc_pairs q ((''relay='' @ percent_encode r) # x) =
      nc_pairs (q\<lparr>q_relays := q_relays q @ [r]\<rparr>) x" for x
    using Cons.prems by (simp add: nc_pair_def percent_decode_encode)
  with Cons show ?case by simp
qed simp

text \<open>
  A client's URI that follows the rules is accepted whole: for every key, every non-empty
  list of allowed relays and every secret, the URI that carries them percent-encoded parses to
  exactly that key, those relays in order and that secret.
\<close>

theorem nostrconnect_round_trip:
  assumes "pk_parse C pk = Inr client" "CHR ''?'' \<notin> set pk"
    and "list_all valid_utf8 (r # relays)" "valid_utf8 secret"
    and "list_all (\<lambda>r. relay_rule r = None) (r # relays)"
  shows "parse_nostrconnect_uri C (''nostrconnect://'' @ pk @ ''?'' @
      query_of (map (\<lambda>r. ''relay='' @ percent_encode r) relays @ secret_pair (Some secret))
        (''relay='' @ percent_encode r)) =
    Inr \<lparr>nc_client_pubkey = client, nc_relays = r # relays, nc_secret = secret, nc_perms = None,
         nc_name = None, nc_url = None\<rparr>"
proof -
  let ?ps = "map (\<lambda>r. ''relay='' @ percent_encode r) relays @ secret_pair (Some secret)"
  let ?q = "query_of ?ps (''relay='' @ percent_encode r)"
  have pairs: "split_char (CHR ''&'') ?q =
      map (\<lambda>r. ''relay='' @ percent_encode r) (r # relays) @ [''secret='' @ percent_encode secret]"
    unfolding query_of_def
    by (subst split_pairs, rule no_amp_pairs [of _ r relays "Some secret"])
      (simp_all add: secret_pair_def)
  have "split_once ''='' (''secret='' @ percent_encode secret) = Some (''secret'', percent_encode secret)"
    using split_once_char [of "CHR ''=''" "''secret''" "percent_encode secret"] by simp
  then have secret: "nc_pairs q [''secret='' @ percent_encode secret] = Inr (q\<lparr>q_secret := Some secret\<rparr>)" for q
    using assms(4) by (simp add: nc_pair_def percent_decode_encode)
  have query: "nc_pairs q (split_char (CHR ''&'') ?q) =
      Inr (q\<lparr>q_relays := q_relays q @ r # relays, q_secret := Some secret\<rparr>)" for q
    unfolding pairs nc_pairs_relays [OF assms(3)] secret by simp
  have strip: "strip_prefix ''nostrconnect://'' (''nostrconnect://'' @ pk @ ''?'' @ Q) = Some (pk @ CHR ''?'' # Q)" for Q
    by (simp only: strip_prefix_append) simp
  have rule: "first_error (r # relays) = None"
    using assms(5) by (simp add: first_error_None list_all_iff del: first_error.simps)
  have parse: "parse_nostrconnect_uri C (''nostrconnect://'' @ pk @ ''?'' @ Q) =
    Inr \<lparr>nc_client_pubkey = client, nc_relays = r # relays, nc_secret = secret, nc_perms = None,
         nc_name = None, nc_url = None\<rparr>" if "Q = ?q" for Q
    unfolding parse_nostrconnect_uri_def strip
    using rule query [folded that] by (simp add: split_once_char [OF assms(2)] assms(1) del: first_error.simps)
  show ?thesis by (rule parse) (rule refl)
qed

lemma nostrconnect_round_trip_witness:
  "parse_nostrconnect_uri demo_crate (''nostrconnect://'' @ ''ab12'' @ ''?'' @
      query_of (map (\<lambda>r. ''relay='' @ percent_encode r) [''ws://localhost:7''] @ secret_pair (Some ''s3 cret''))
        (''relay='' @ percent_encode ''wss://a.example'')) =
    Inr \<lparr>nc_client_pubkey = ''ab12'', nc_relays = [''wss://a.example'', ''ws://localhost:7''],
         nc_secret = ''s3 cret'', nc_perms = None, nc_name = None, nc_url = None\<rparr>"
  by (rule nostrconnect_round_trip) code_simp+

end
