(* ===== verification/Replay.thy ===== *)
theory Replay
  imports Complex_Main Wire
begin

text \<open>
  The gates a request passes before any cryptography runs, from \<open>src/nostr/bunker.rs\<close>: the
  replay caches (\<open>Replay\<close>) and the senders' token buckets (\<open>admit_rate\<close>,
  \<open>bucket_room\<close>). The wall clock is in seconds; the monotonic clock (\<open>Instant\<close>) is a
  natural number of nanoseconds. The buckets' \<open>f64\<close> tokens are rationals here: refills and
  spends are exact, without the rounding of floating point.
\<close>

section \<open>The replay caches\<close>

definition dedup_ttl_secs :: u64 where "dedup_ttl_secs = 600"
definition freshness_window_secs :: u64 where "freshness_window_secs = 600"
definition future_drift_secs :: u64 where "future_drift_secs = 120"
definition watermark_slack_secs :: u64 where "watermark_slack_secs = 60"
definition replay_cache_max :: nat where "replay_cache_max = 5000"

record replay =
  seen :: "(string \<times> u64) list"
  watermark :: "(pubkey \<times> (u64 \<times> u64)) list"

definition replay_empty :: replay where
  "replay_empty = \<lparr>seen = [], watermark = []\<rparr>"

definition shed :: "('v \<Rightarrow> u64) \<Rightarrow> u64 \<Rightarrow> ('k \<times> 'v) list \<Rightarrow> ('k \<times> 'v) list" where
  "shed expiry now m =
     (if length m < replay_cache_max then m
      else let live = hm_retain (\<lambda>_ v. now < expiry v) m
      in if length live < replay_cache_max then live
      else let expiries = sort (map (\<lambda>(_, v). expiry v) live);
               cutoff = expiries ! (length expiries div 8)
           in hm_retain (\<lambda>_ v. cutoff < expiry v) live)"

definition make_room :: "replay \<Rightarrow> u64 \<Rightarrow> replay" where
  "make_room r now = \<lparr>seen = shed id now (seen r), watermark = shed snd now (watermark r)\<rparr>"

definition replay_fresh :: "replay \<Rightarrow> event \<Rightarrow> u64 \<Rightarrow> bool" where
  "replay_fresh r ev now \<longleftrightarrow>
     \<not> (case hm_get (seen r) (ev_id ev) of Some expires \<Rightarrow> now < expires | None \<Rightarrow> False) \<and>
     \<not> (ev_created ev + freshness_window_secs < now \<or> now + future_drift_secs < ev_created ev) \<and>
     \<not> (case hm_get (watermark r) (ev_pubkey ev) of
          Some (newest, expires) \<Rightarrow> now < expires \<and> ev_created ev + watermark_slack_secs < newest
        | None \<Rightarrow> False)"

definition admit :: "replay \<Rightarrow> event \<Rightarrow> u64 \<Rightarrow> bool \<times> replay" where
  "admit r ev now =
     (if \<not> replay_fresh r ev now then (False, r)
      else let r1 = make_room r now;
               s = hm_insert (ev_id ev) (now + dedup_ttl_secs) (seen r1);
               mark = hm_insert (ev_pubkey ev) (ev_created ev, now + dedup_ttl_secs) (watermark r1);
               w = (case hm_get (watermark r1) (ev_pubkey ev) of
                      Some (newest, expires) \<Rightarrow>
                        if now < expires \<and> ev_created ev < newest then watermark r1 else mark
                    | None \<Rightarrow> mark)
           in (True, \<lparr>seen = s, watermark = w\<rparr>))"

section \<open>The senders' budgets\<close>

definition rate_refill_per_sec :: rat where "rate_refill_per_sec = 10"
definition rate_burst :: rat where "rate_burst = 30"
definition rate_buckets_max :: nat where "rate_buckets_max = 1000"

definition nanos_per_sec :: nat where "nanos_per_sec = 1000000000"

definition rate_bucket_stale :: nat where "rate_bucket_stale = 600 * nanos_per_sec"

record bucket =
  tokens :: rat
  last_seen :: nat

definition bucket_room :: "(pubkey \<times> bucket) list \<Rightarrow> nat \<Rightarrow> (pubkey \<times> bucket) list" where
  "bucket_room rate now =
     (if length rate < rate_buckets_max then rate
      else let live = hm_retain (\<lambda>_ b. now - last_seen b < rate_bucket_stale) rate
      in if length live < rate_buckets_max then live
      else let seens = sort (map (\<lambda>(_, b). last_seen b) live);
               cutoff = seens ! (length seens div 8)
           in hm_retain (\<lambda>_ b. cutoff < last_seen b) live)"

definition refilled :: "rat \<Rightarrow> rat \<Rightarrow> bucket \<Rightarrow> nat \<Rightarrow> rat" where
  "refilled refill burst b now =
     min (tokens b + of_nat (now - last_seen b) / of_nat nanos_per_sec * refill) burst"

text \<open>The same quotient with the divisor as a numeral, for evaluation.\<close>

lemma refilled_code [code]:
  "refilled refill burst b now =
     min (tokens b + of_nat (now - last_seen b) / 1000000000 * refill) burst"
  by (simp add: refilled_def nanos_per_sec_def)

definition admit_rate ::
  "rat \<Rightarrow> rat \<Rightarrow> (pubkey \<times> bucket) list \<Rightarrow> pubkey \<Rightarrow> nat \<Rightarrow> bool \<times> (pubkey \<times> bucket) list" where
  "admit_rate refill burst rate app now =
     (let rate1 = bucket_room rate now;
          b = (case hm_get rate1 app of Some b \<Rightarrow> b | None \<Rightarrow> \<lparr>tokens = burst, last_seen = now\<rparr>);
          t = refilled refill burst b now
      in if 1 \<le> t then (True, hm_insert app \<lparr>tokens = t - 1, last_seen = now\<rparr> rate1)
         else (False, hm_insert app \<lparr>tokens = t, last_seen = now\<rparr> rate1))"

section \<open>The caches stay bounded\<close>

definition cap_inv :: "replay \<Rightarrow> bool" where
  "cap_inv r \<longleftrightarrow> hm_inv (seen r) \<and> hm_inv (watermark r) \<and>
     length (seen r) \<le> replay_cache_max \<and> length (watermark r) \<le> replay_cache_max"

lemma length_above_nth_sorted:
  fixes xs :: "'a :: linorder list"
  assumes "sorted xs" "k < length xs"
  shows "length (filter (\<lambda>x. xs ! k < x) xs) \<le> length xs - Suc k"
proof -
  have "filter (\<lambda>x. xs ! k < x) (take (Suc k) xs) = []"
    using assms by (auto simp: filter_empty_conv in_set_conv_nth not_less less_Suc_eq_le)
      (rule sorted_nth_mono; simp)
  then have "filter (\<lambda>x. xs ! k < x) xs = filter (\<lambda>x. xs ! k < x) (drop (Suc k) xs)"
    by (metis append_take_drop_id filter_append self_append_conv2)
  then show ?thesis by (metis length_drop length_filter_le)
qed

lemma length_retain_above_cutoff:
  fixes key :: "'v \<Rightarrow> 'a :: linorder"
  assumes "m \<noteq> []" "es = sort (map (\<lambda>(_, v). key v) m)" "cutoff = es ! (length es div 8)"
  shows "length (hm_retain (\<lambda>_ v. cutoff < key v) m) < length m - length m div 8"
proof -
  have len: "length es = length m" and lt: "length es div 8 < length es"
    using assms by auto
  have "length (hm_retain (\<lambda>_ v. cutoff < key v) m) =
      length (filter (\<lambda>x. cutoff < x) (map (\<lambda>(_, v). key v) m))"
    by (simp add: hm_retain_def filter_map o_def case_prod_unfold)
  also have "\<dots> = length (filter (\<lambda>x. cutoff < x) es)"
    by (metis (no_types) assms(2) mset_filter mset_sort size_mset)
  also have "\<dots> \<le> length es - Suc (length es div 8)"
    unfolding assms(3) by (rule length_above_nth_sorted [OF _ lt]) (simp add: assms(2))
  finally show ?thesis using len lt by linarith
qed

lemma length_shed: "length m \<le> replay_cache_max \<Longrightarrow> length (shed expiry now m) < replay_cache_max"
proof -
  assume m: "length m \<le> replay_cache_max"
  let ?live = "hm_retain (\<lambda>_ v. now < expiry v) m"
  have live: "length ?live \<le> length m" by (rule length_hm_retain_le)
  show ?thesis
  proof (cases "length m < replay_cache_max \<or> length ?live < replay_cache_max")
    case True
    then show ?thesis by (auto simp: shed_def Let_def)
  next
    case False
    then have "?live \<noteq> []" by (auto simp: replay_cache_max_def)
    from length_retain_above_cutoff [OF this refl refl, of expiry] False m live show ?thesis
      by (simp add: shed_def Let_def)
  qed
qed

lemma hm_inv_shed [inv_intros]: "hm_inv m \<Longrightarrow> hm_inv (shed expiry now m)"
  by (simp add: shed_def Let_def hm.inv_retain)

lemma length_update_le: "length m < n \<Longrightarrow> length (AList.update k v m) \<le> n"
  by (simp add: length_hm_insert)

lemma cap_inv_admit: "cap_inv r \<Longrightarrow> cap_inv (snd (admit r ev now))"
proof -
  assume inv: "cap_inv r"
  have "length (shed id now (seen r)) < replay_cache_max" "length (shed snd now (watermark r)) < replay_cache_max"
    using inv by (auto simp: cap_inv_def intro: length_shed)
  then show ?thesis
    using inv
    by (auto simp: cap_inv_def admit_def make_room_def Let_def length_update_le
      intro!: inv_intros intro: less_imp_le split: option.split)
qed

definition replay_step :: "replay \<Rightarrow> event \<times> u64 \<Rightarrow> replay" where
  "replay_step r e = snd (admit r (fst e) (snd e))"

interpretation replay_caches: op_system replay_step cap_inv replay_empty
  by unfold_locales (simp_all add: cap_inv_def replay_empty_def replay_step_def hm.inv_empty
      cap_inv_admit [unfolded cap_inv_def])

section \<open>A request is admitted once\<close>

lemma length_seen_admit: "length (seen r) < replay_cache_max \<Longrightarrow>
    length (seen (snd (admit r ev now))) \<le> Suc (length (seen r))"
  by (simp add: admit_def make_room_def shed_def Let_def length_hm_insert)

lemma length_seen_run:
  "length (seen r) + length evs \<le> replay_cache_max \<Longrightarrow>
   length (seen (run_ops replay_step r evs)) \<le> length (seen r) + length evs"
proof (induction evs arbitrary: r)
  case (Cons e evs)
  then have "length (seen (replay_step r e)) \<le> Suc (length (seen r))"
    by (auto simp: replay_step_def intro: length_seen_admit)
  with Cons.IH [of "replay_step r e"] Cons.prems show ?case by simp
qed simp

lemma seen_kept:
  assumes "hm_get (seen r) i = Some x" "T \<le> unat x" "T \<le> unat now + 600"
    and "unat now + 600 < 2 ^ 64" "length (seen r) < replay_cache_max"
  shows "\<exists>x'. hm_get (seen (snd (admit r ev now))) i = Some x' \<and> T \<le> unat x'"
proof -
  have "unat (now + dedup_ttl_secs) = unat now + 600"
    using u64_plus_no_wrap [of now dedup_ttl_secs] assms(4) by (simp add: dedup_ttl_secs_def)
  with assms show ?thesis
    by (simp add: admit_def make_room_def shed_def Let_def hm.get_insert)
qed

lemma seen_kept_run:
  assumes "hm_get (seen r) i = Some x" "T \<le> unat x"
    and "\<And>e. e \<in> set evs \<Longrightarrow> T \<le> unat (snd e) + 600 \<and> unat (snd e) + 600 < 2 ^ 64"
    and "length (seen r) + length evs \<le> replay_cache_max"
  shows "\<exists>x'. hm_get (seen (run_ops replay_step r evs)) i = Some x' \<and> T \<le> unat x'"
  using assms
proof (induction evs arbitrary: r x)
  case (Cons e evs)
  obtain x' where x': "hm_get (seen (replay_step r e)) i = Some x'" "T \<le> unat x'"
    using seen_kept [OF Cons.prems(1,2), of "snd e" "fst e"] Cons.prems(3) [of e] Cons.prems(4)
    by (auto simp: replay_step_def)
  have "length (seen (replay_step r e)) + length evs \<le> replay_cache_max"
    using length_seen_admit [of r "fst e" "snd e"] Cons.prems(4) by (auto simp: replay_step_def)
  with Cons.IH [OF x'] Cons.prems(3) show ?case by simp
qed auto

lemma admitted_marks:
  "fst (admit r ev now) \<Longrightarrow> hm_get (seen (snd (admit r ev now))) (ev_id ev) = Some (now + dedup_ttl_secs)"
  by (simp add: admit_def Let_def hm.get_insert split: if_splits)

text \<open>
  C9. A request is answered at most once: while fewer than five thousand requests have come
  (so no live entry was shed), on a clock that does not go backwards, an event that was admitted
  and was created before the moment it was admitted is never admitted again, however often and
  however late the relays redeliver it: until its dedup entry runs out it is a duplicate, and
  after that it is stale.
\<close>

theorem admitted_once:
  assumes "sorted (map snd evs)" "length evs \<le> replay_cache_max"
    and "\<And>e. e \<in> set evs \<Longrightarrow> unat (snd e) + 600 < 2 ^ 64"
    and "a < b" "b < length evs" "ev_id (fst (evs ! b)) = ev_id (fst (evs ! a))"
    and "ev_created (fst (evs ! b)) = ev_created (fst (evs ! a))"
    and "ev_created (fst (evs ! a)) < snd (evs ! a)"
    and "fst (admit (run_ops replay_step replay_empty (take a evs)) (fst (evs ! a)) (snd (evs ! a)))"
  shows "\<not> fst (admit (run_ops replay_step replay_empty (take b evs)) (fst (evs ! b)) (snd (evs ! b)))"
proof -
  let ?run = "\<lambda>xs. run_ops replay_step replay_empty xs"
  let ?ev = "fst (evs ! a)" and ?t = "snd (evs ! a)" and ?t' = "snd (evs ! b)"
  let ?mid = "take (b - Suc a) (drop (Suc a) evs)"
  have t: "unat ?t + 600 < 2 ^ 64" using assms(3,4,5) by simp
  have le: "?t \<le> snd (evs ! j)" if "a \<le> j" "j < length evs" for j
    using sorted_nth_mono [OF assms(1), of a j] that by simp
  have mid: "unat ?t + 600 \<le> unat (snd e) + 600 \<and> unat (snd e) + 600 < 2 ^ 64"
    if e: "e \<in> set ?mid" for e
  proof -
    from e obtain j where "j < length ?mid" "e = ?mid ! j" by (metis in_set_conv_nth)
    then have "j < b - Suc a" "e = evs ! (Suc a + j)" using assms(5) by simp_all
    with le [of "Suc a + j"] assms(3) [of e] assms(5) show ?thesis
      by (simp add: word_le_nat_alt)
  qed
  define ra where "ra = ?run (take (Suc a) evs)"
  have "take (Suc a) evs = take a evs @ [evs ! a]"
    using assms(4,5) by (simp add: take_Suc_conv_app_nth)
  then have ra: "ra = snd (admit (?run (take a evs)) ?ev ?t)"
    by (simp add: ra_def run_ops_append replay_step_def)
  have "unat (?t + dedup_ttl_secs) = unat ?t + 600"
    using u64_plus_no_wrap [of ?t dedup_ttl_secs] t by (simp add: dedup_ttl_secs_def)
  with admitted_marks [OF assms(9)] have seen_a: "hm_get (seen ra) (ev_id ?ev) = Some (?t + dedup_ttl_secs)"
    "unat ?t + 600 \<le> unat (?t + dedup_ttl_secs)"
    by (simp_all add: ra)
  have "length (seen ra) \<le> Suc a"
    using length_seen_run [of replay_empty "take (Suc a) evs"] assms(2,4,5)
    by (simp add: ra_def replay_empty_def)
  then have len: "length (seen ra) + length ?mid \<le> replay_cache_max"
    using assms(2,4,5) by simp
  from seen_kept_run [OF seen_a mid len] obtain x where x:
    "hm_get (seen (run_ops replay_step ra ?mid)) (ev_id ?ev) = Some x" "unat ?t + 600 \<le> unat x"
    by blast
  have "take b evs = take (Suc a) evs @ ?mid"
    using assms(4) by (metis Suc_leI le_add_diff_inverse take_add)
  then have rb: "?run (take b evs) = run_ops replay_step ra ?mid"
    by (simp add: ra_def run_ops_append)
  have stale: "ev_created ?ev + freshness_window_secs < ?t'" if "unat ?t + 600 \<le> unat ?t'"
    using that assms(8) t u64_plus_no_wrap [of "ev_created ?ev" freshness_window_secs]
    by (simp add: word_less_nat_alt freshness_window_secs_def)
  show ?thesis
  proof (cases "unat ?t + 600 \<le> unat ?t'")
    case True
    with stale assms(7) show ?thesis by (simp add: admit_def replay_fresh_def)
  next
    case False
    with x have "?t' < x" by (simp add: word_less_nat_alt)
    with x rb assms(6) show ?thesis by (simp add: admit_def replay_fresh_def)
  qed
qed

definition demo_request :: event where
  "demo_request = demo_event ''e1'' ''app'' 1000 24133 [''pub''] ''ping''"

lemma admitted_once_witness:
  "\<not> fst (admit (run_ops replay_step replay_empty [(demo_request, 1005)]) demo_request 1700)"
proof -
  have "fst (admit replay_empty demo_request 1005)" by code_simp
  moreover have "ev_created demo_request < 1005" by code_simp
  moreover have "unat (snd e) + 600 < 2 ^ 64"
    if "e \<in> set [(demo_request, 1005), (demo_request, 1700)]" for e :: "event \<times> u64"
    using that by auto
  ultimately show ?thesis
    using admitted_once [of "[(demo_request, 1005), (demo_request, 1700)]" 0 1]
    by (simp add: replay_cache_max_def)
qed

text \<open>
  The replay caches hold at most five thousand ids and five thousand senders, whatever is
  sent at whatever times, and each keeps one entry per key.
\<close>

theorem replay_caches_bounded:
  "length (seen (run_ops replay_step replay_empty evs)) \<le> replay_cache_max \<and>
   length (watermark (run_ops replay_step replay_empty evs)) \<le> replay_cache_max \<and>
   distinct (map fst (seen (run_ops replay_step replay_empty evs)))"
  using replay_caches.good_run [of evs] by (simp add: cap_inv_def hm_inv_def)

text \<open>
  A request dated at or after the moment it arrives (the gates let a client's clock run up
  to two minutes ahead) is admitted a second time: its dedup entry and its sender's mark run out
  ten minutes after it was seen, while it stays fresh for ten minutes after its own date.
\<close>

theorem future_dated_admitted_again:
  assumes "ev_created ev = t + d" "unat d \<le> 120" "unat t + 720 < 2 ^ 64"
  shows "fst (admit replay_empty ev t) \<and>
    fst (admit (snd (admit replay_empty ev t)) ev (t + 600))"
proof -
  have "unat (t + d) = unat t + unat d" using assms by (intro u64_plus_no_wrap) simp
  moreover have "unat (t + 600) = unat t + 600" using assms(3) u64_plus_no_wrap [of t 600] by simp
  moreover have "unat (t + 120) = unat t + 120" using assms(3) u64_plus_no_wrap [of t 120] by simp
  moreover have "unat (t + d + 600) = unat t + unat d + 600"
    using assms(2,3) calculation(1) u64_plus_no_wrap [of "t + d" 600] by simp
  moreover have "unat (t + 600 + 120) = unat t + 720"
    using assms(3) calculation(2) u64_plus_no_wrap [of "t + 600" 120] by simp
  ultimately have t: "\<not> t + d + 600 < t" "\<not> t + 120 < t + d" "\<not> t + d + 600 < t + 600"
    "\<not> t + 600 + 120 < t + d" "\<not> t + 600 < t + 600"
    using assms(2) unfolding word_less_nat_alt by simp_all
  then have first: "replay_fresh replay_empty ev t"
    using assms(1) by (simp add: replay_fresh_def replay_empty_def freshness_window_secs_def
        future_drift_secs_def)
  moreover have "snd (admit replay_empty ev t) =
      \<lparr>seen = [(ev_id ev, t + 600)], watermark = [(ev_pubkey ev, t + d, t + 600)]\<rparr>"
    using first assms(1) by (simp add: admit_def replay_empty_def make_room_def shed_def
        replay_cache_max_def dedup_ttl_secs_def)
  ultimately show ?thesis
    using t assms(1)
    by (simp add: admit_def [of "\<lparr>seen = _, watermark = _\<rparr>"] admit_def [of replay_empty]
      replay_fresh_def freshness_window_secs_def future_drift_secs_def Let_def)
qed

lemma future_dated_admitted_again_witness:
  "fst (admit replay_empty demo_request 900) \<and>
   fst (admit (snd (admit replay_empty demo_request 900)) demo_request 1500)"
  using future_dated_admitted_again [of demo_request 900 100]
  by (simp add: demo_request_def demo_event_def)

text \<open>
  A sender's time does not go backwards: for ten minutes after the newest request of a
  sender so far was admitted, and while the mark cache has room, a request of that sender that
  is more than a minute older than it is refused, under whatever id it comes.
\<close>

theorem watermark_refuses_older:
  assumes "fst (admit r ev t)" "unat t' < unat t + 600" "unat t + 600 < 2 ^ 64"
    and "\<And>newest x. hm_get (watermark r) (ev_pubkey ev) = Some (newest, x) \<Longrightarrow> newest \<le> ev_created ev"
    and "ev_pubkey ev' = ev_pubkey ev" "unat (ev_created ev') + 60 < unat (ev_created ev)"
    and "length (watermark r) < replay_cache_max"
  shows "\<not> fst (admit (snd (admit r ev t)) ev' t')"
proof -
  have exp: "t' < t + dedup_ttl_secs"
    using assms(2,3) u64_plus_no_wrap [of t 600] by (simp add: dedup_ttl_secs_def word_less_nat_alt)
  have room: "watermark (make_room r t) = watermark r"
    using assms(7) by (simp add: make_room_def shed_def)
  have old: "ev_created ev' + watermark_slack_secs < ev_created ev"
    using assms(6) u64_plus_no_wrap [of "ev_created ev'" 60] unat_u64_lt [of "ev_created ev"]
    by (simp add: watermark_slack_secs_def word_less_nat_alt)
  have "hm_get (watermark (snd (admit r ev t))) (ev_pubkey ev) =
      Some (ev_created ev, t + dedup_ttl_secs)"
  proof (cases "hm_get (watermark r) (ev_pubkey ev)")
    case None
    then show ?thesis using assms(1) room
      by (simp add: admit_def Let_def hm.get_insert split: if_splits)
  next
    case (Some m)
    obtain n x where m: "m = (n, x)" by fastforce
    with Some assms(4) have "\<not> ev_created ev < n" by (simp add: not_less)
    with Some m assms(1) room show ?thesis
      by (simp add: admit_def Let_def hm.get_insert split: if_splits)
  qed
  then show ?thesis
    using old exp assms(5) by (simp add: admit_def [of "snd (admit r ev t)"] replay_fresh_def)
qed

lemma watermark_refuses_older_witness:
  "\<not> fst (admit (snd (admit replay_empty demo_request 1005))
     (demo_event ''e2'' ''app'' 900 24133 [''pub''] ''ping'') 1010)"
proof -
  have "fst (admit replay_empty demo_request 1005)" by code_simp
  then show ?thesis
    by (rule watermark_refuses_older)
      (simp_all add: demo_request_def demo_event_def replay_empty_def replay_cache_max_def)
qed

section \<open>The rate is the sender's own\<close>

text \<open>How many of a sender's requests a sequence admits.\<close>

fun admitted_of ::
  "rat \<Rightarrow> rat \<Rightarrow> (pubkey \<times> bucket) list \<Rightarrow> (pubkey \<times> nat) list \<Rightarrow> pubkey \<Rightarrow> nat" where
  "admitted_of refill burst rate [] app = 0"
| "admitted_of refill burst rate ((a, t) # es) app =
     (if fst (admit_rate refill burst rate a t) \<and> a = app then 1 else 0) +
     admitted_of refill burst (snd (admit_rate refill burst rate a t)) es app"

text \<open>Few enough senders that no bucket is ever shed.\<close>

definition few_senders :: "(pubkey \<times> bucket) list \<Rightarrow> (pubkey \<times> nat) list \<Rightarrow> bool" where
  "few_senders rate es \<longleftrightarrow> hm_inv rate \<and> card (fst ` set rate \<union> fst ` set es) < rate_buckets_max"

lemma few_no_shed: "few_senders rate es \<Longrightarrow> bucket_room rate t = rate"
proof -
  assume few: "few_senders rate es"
  have "length rate = card (fst ` set rate)"
    using few by (metis distinct_card few_senders_def hm_inv_def length_map set_map)
  also have "\<dots> \<le> card (fst ` set rate \<union> fst ` set es)" by (rule card_mono) auto
  finally show ?thesis using few by (simp add: bucket_room_def few_senders_def)
qed

lemma few_step:
  assumes "few_senders rate ((a, t) # es)"
  shows "few_senders (snd (admit_rate refill burst rate a t)) es"
proof -
  have "\<exists>b. snd (admit_rate refill burst rate a t) = AList.update a b rate"
    by (auto simp: admit_rate_def Let_def few_no_shed [OF assms])
  then obtain b where b: "snd (admit_rate refill burst rate a t) = AList.update a b rate" ..
  have "fst ` set (AList.update a b rate) \<union> fst ` set es = fst ` set rate \<union> fst ` set ((a, t) # es)"
    by (auto simp: dom_update)
  then show ?thesis
    using assms by (simp add: few_senders_def b hm.inv_insert)
qed

definition allowance :: "rat \<Rightarrow> rat \<Rightarrow> (pubkey \<times> bucket) list \<Rightarrow> pubkey \<Rightarrow> nat \<Rightarrow> rat" where
  "allowance refill burst rate app t =
     (case hm_get rate app of None \<Rightarrow> burst | Some b \<Rightarrow> refilled refill burst b t)"

definition refill_over :: "rat \<Rightarrow> nat \<Rightarrow> rat" where
  "refill_over refill n = of_nat n / of_nat nanos_per_sec * refill"

lemma refilled_over:
  "refilled refill burst b t = min (tokens b + refill_over refill (t - last_seen b)) burst"
  by (simp add: refilled_def refill_over_def)

lemma refill_over_add: "refill_over refill (m + n) = refill_over refill m + refill_over refill n"
  by (simp add: refill_over_def add_divide_distrib distrib_right)

lemma refill_over_nonneg: "0 \<le> refill \<Longrightarrow> 0 \<le> refill_over refill n"
  by (simp add: refill_over_def)

lemma refill_over_mono: "0 \<le> refill \<Longrightarrow> m \<le> n \<Longrightarrow> refill_over refill m \<le> refill_over refill n"
  by (simp add: refill_over_def divide_right_mono mult_right_mono)

lemma allowance_grows:
  assumes "0 \<le> refill" "s \<le> t"
  shows "allowance refill burst rate app t \<le> allowance refill burst rate app s + refill_over refill (t - s)"
proof (cases "hm_get rate app")
  case None
  then show ?thesis using assms by (simp add: allowance_def refill_over_nonneg)
next
  case (Some b)
  have "refill_over refill (t - last_seen b) \<le> refill_over refill ((s - last_seen b) + (t - s))"
    using assms by (intro refill_over_mono) auto
  then have "refill_over refill (t - last_seen b) \<le>
      refill_over refill (s - last_seen b) + refill_over refill (t - s)"
    by (simp add: refill_over_add)
  with Some refill_over_nonneg [OF assms(1), of "t - s"] show ?thesis
    by (simp add: allowance_def refilled_over)
qed

definition tokens_inv :: "(pubkey \<times> bucket) list \<Rightarrow> bool" where
  "tokens_inv rate \<longleftrightarrow> (\<forall>app b. hm_get rate app = Some b \<longrightarrow> 0 \<le> tokens b)"

lemma allowance_nonneg:
  "0 \<le> refill \<Longrightarrow> 0 \<le> burst \<Longrightarrow> tokens_inv rate \<Longrightarrow> 0 \<le> allowance refill burst rate app t"
  by (auto simp: allowance_def refilled_def tokens_inv_def split: option.split)

text \<open>One request: whose bucket moves, and by how much.\<close>

lemma admit_rate_own:
  assumes "few_senders rate ((a, t) # es)"
  shows "fst (admit_rate refill burst rate a t) \<longleftrightarrow> 1 \<le> allowance refill burst rate a t"
    and "hm_get (snd (admit_rate refill burst rate a t)) app =
      (if app = a then Some \<lparr>tokens = (if 1 \<le> allowance refill burst rate a t
           then allowance refill burst rate a t - 1 else allowance refill burst rate a t), last_seen = t\<rparr>
       else hm_get rate app)"
proof -
  let ?b = "case hm_get rate a of Some b \<Rightarrow> b | None \<Rightarrow> \<lparr>tokens = burst, last_seen = t\<rparr>"
  have "refilled refill burst ?b t = allowance refill burst rate a t"
    by (simp add: allowance_def refilled_def split: option.split)
  then show "fst (admit_rate refill burst rate a t) \<longleftrightarrow> 1 \<le> allowance refill burst rate a t"
    "hm_get (snd (admit_rate refill burst rate a t)) app =
      (if app = a then Some \<lparr>tokens = (if 1 \<le> allowance refill burst rate a t
           then allowance refill burst rate a t - 1 else allowance refill burst rate a t), last_seen = t\<rparr>
       else hm_get rate app)"
    by (simp_all add: admit_rate_def Let_def few_no_shed [OF assms] hm.get_insert)
qed

lemma tokens_inv_step:
  assumes "0 \<le> refill" "0 \<le> burst" "tokens_inv rate" "few_senders rate ((a, t) # es)"
  shows "tokens_inv (snd (admit_rate refill burst rate a t))"
  using assms(3) allowance_nonneg [OF assms(1-3), of a t]
  by (auto simp: tokens_inv_def admit_rate_own [OF assms(4)])

lemma admitted_within_allowance:
  assumes "0 \<le> refill" "0 \<le> burst" "tokens_inv rate" "few_senders rate es"
    and "sorted (map snd es)" "\<And>e. e \<in> set es \<Longrightarrow> s \<le> snd e \<and> snd e \<le> T" "s \<le> T"
  shows "of_nat (admitted_of refill burst rate es app) \<le>
    allowance refill burst rate app s + refill_over refill (T - s)"
  using assms
proof (induction es arbitrary: rate s)
  case Nil
  then show ?case
    using allowance_nonneg [of refill burst rate app s] refill_over_nonneg [of refill "T - s"]
    by simp
next
  case (Cons e es)
  obtain a t where e: "e = (a, t)" by fastforce
  note few = Cons.prems(4) [unfolded e]
  let ?rate = "snd (admit_rate refill burst rate a t)" and ?A = "allowance refill burst rate a"
  have t: "s \<le> t" "t \<le> T" using Cons.prems(6) [of e] e by auto
  have rest: "of_nat (admitted_of refill burst ?rate es app) \<le>
      allowance refill burst ?rate app t + refill_over refill (T - t)"
    using Cons.prems(5,6) t
    by (intro Cons.IH Cons.prems(1,2) tokens_inv_step [OF Cons.prems(1-3) few] few_step [OF few])
      (auto simp: e)
  have time: "refill_over refill (T - s) = refill_over refill (t - s) + refill_over refill (T - t)"
    using t by (simp flip: refill_over_add)
  have grows: "allowance refill burst rate app t \<le> allowance refill burst rate app s + refill_over refill (t - s)"
    by (rule allowance_grows [OF Cons.prems(1) t(1)])
  show ?case
  proof (cases "app = a")
    case True
    have "allowance refill burst ?rate a t \<le> (if 1 \<le> ?A t then ?A t - 1 else ?A t)"
      by (simp add: allowance_def [of _ _ ?rate] admit_rate_own [OF few] refilled_def)
    with rest grows time show ?thesis
      by (simp add: e True admit_rate_own(1) [OF few] split: if_splits)
  next
    case False
    then have "allowance refill burst ?rate app t = allowance refill burst rate app t"
      by (simp add: allowance_def admit_rate_own [OF few])
    with rest grows time False show ?thesis by (simp add: e)
  qed
qed

text \<open>
  C37. The rate holds: in any stretch of requests on the monotonic clock, with fewer than a
  thousand senders (so no bucket is shed), a sender has at most the burst plus the refill over
  the stretch's length admitted, whatever it and the others send.
\<close>

theorem rate_bound:
  assumes "tokens_inv rate" "few_senders rate es" "es \<noteq> []" "sorted (map snd es)"
  shows "of_nat (admitted_of rate_refill_per_sec rate_burst rate es app) \<le>
    rate_burst + rate_refill_per_sec *
      (of_nat (snd (last es) - snd (hd es)) / of_nat nanos_per_sec)"
proof -
  have "snd (hd es) \<le> snd e \<and> snd e \<le> snd (last es)" if e: "e \<in> set es" for e
  proof -
    from e obtain j where "j < length es" "e = es ! j" by (metis in_set_conv_nth)
    then show ?thesis
      using sorted_nth_mono [OF assms(4), of 0 j] sorted_nth_mono [OF assms(4), of j "length es - 1"]
        assms(3) by (simp add: hd_conv_nth last_conv_nth)
  qed
  note within = this
  have ends: "snd (hd es) \<le> snd (last es)" using within [of "hd es"] assms(3) by simp
  have "of_nat (admitted_of rate_refill_per_sec rate_burst rate es app) \<le>
      allowance rate_refill_per_sec rate_burst rate app (snd (hd es)) +
        refill_over rate_refill_per_sec (snd (last es) - snd (hd es))"
    by (rule admitted_within_allowance [OF _ _ assms(1,2,4) within ends])
      (simp_all add: rate_refill_per_sec_def rate_burst_def)
  moreover have "allowance rate_refill_per_sec rate_burst rate app (snd (hd es)) \<le> rate_burst"
    by (simp add: allowance_def refilled_def split: option.split)
  ultimately show ?thesis by (simp add: refill_over_def mult.commute)
qed

lemma rate_bound_witness:
  "of_nat (admitted_of rate_refill_per_sec rate_burst [] (replicate 40 (''app'', 7)) ''app'') \<le>
    (30 :: rat)"
proof -
  have "tokens_inv []" by (simp add: tokens_inv_def)
  moreover have "few_senders [] (replicate 40 (''app'', 7))"
    by (simp add: few_senders_def hm_inv_def rate_buckets_max_def)
  ultimately show ?thesis
    using rate_bound [of "[]" "replicate 40 (''app'', 7)" "''app''"]
    by (simp add: rate_burst_def)
qed

lemma few_senders_filter:
  assumes "few_senders rate ((a, t) # es)"
  shows "few_senders rate es"
proof -
  have "card (fst ` set rate \<union> fst ` set es) \<le> card (fst ` set rate \<union> fst ` set ((a, t) # es))"
    by (rule card_mono) auto
  with assms show ?thesis by (simp add: few_senders_def)
qed

lemma admitted_of_own:
  assumes "few_senders rate es" "few_senders rate' (filter (\<lambda>e. fst e = app) es)"
    and "hm_get rate app = hm_get rate' app"
  shows "admitted_of refill burst rate es app =
    admitted_of refill burst rate' (filter (\<lambda>e. fst e = app) es) app"
  using assms
proof (induction es arbitrary: rate rate')
  case (Cons e es)
  obtain a t where e: "e = (a, t)" by fastforce
  note few = Cons.prems(1) [unfolded e]
  show ?case
  proof (cases "a = app")
    case True
    with Cons.prems(2) e have few': "few_senders rate' ((a, t) # filter (\<lambda>e. fst e = app) es)" by simp
    have "allowance refill burst rate app t = allowance refill burst rate' app t"
      using Cons.prems(3) by (simp add: allowance_def)
    then show ?thesis
      using Cons.IH [OF few_step [OF few] few_step [OF few'], of refill burst refill burst] True
      by (simp add: e admit_rate_own [OF few [unfolded True]] admit_rate_own [OF few' [unfolded True]])
  next
    case False
    then show ?thesis
      using Cons.IH [OF few_step [OF few], of rate' refill burst] Cons.prems(2,3)
      by (simp add: e admit_rate_own(2) [OF few])
  qed
qed simp

text \<open>
  One app cannot spend another's budget: with fewer than a thousand senders, what a sender
  has admitted is what it would have had admitted alone, whatever the others send in between.
\<close>

theorem rate_is_the_senders_own:
  assumes "few_senders [] es"
  shows "admitted_of rate_refill_per_sec rate_burst [] es app =
    admitted_of rate_refill_per_sec rate_burst [] (filter (\<lambda>e. fst e = app) es) app"
proof -
  have "card (fst ` set (filter (\<lambda>e. fst e = app) es)) \<le> card (fst ` set es)"
    by (rule card_mono) auto
  then have "few_senders [] (filter (\<lambda>e. fst e = app) es)"
    using assms by (simp add: few_senders_def)
  with assms show ?thesis by (rule admitted_of_own) simp
qed

lemma rate_is_the_senders_own_witness:
  "admitted_of rate_refill_per_sec rate_burst [] [(''a'', 5), (''b'', 6), (''a'', 7)] ''a'' =
    admitted_of rate_refill_per_sec rate_burst [] [(''a'', 5), (''a'', 7)] ''a''"
proof -
  have "few_senders [] [(''a'', 5), (''b'', 6), (''a'', 7)]"
    by (simp add: few_senders_def hm_inv_def rate_buckets_max_def card_insert_if)
  from rate_is_the_senders_own [OF this, of "''a''"] show ?thesis by simp
qed

section \<open>The buckets stay bounded\<close>

definition buckets_ok :: "(pubkey \<times> bucket) list \<Rightarrow> bool" where
  "buckets_ok rate \<longleftrightarrow> hm_inv rate \<and> length rate \<le> rate_buckets_max"

lemma buckets_ok_admit: "buckets_ok rate \<Longrightarrow> buckets_ok (snd (admit_rate refill burst rate a t))"
proof -
  assume ok: "buckets_ok rate"
  let ?live = "hm_retain (\<lambda>_ b. t - last_seen b < rate_bucket_stale) rate"
  have live: "length ?live \<le> length rate" by (rule length_hm_retain_le)
  have room: "hm_inv (bucket_room rate t) \<and> length (bucket_room rate t) < rate_buckets_max"
  proof (cases "length rate < rate_buckets_max \<or> length ?live < rate_buckets_max")
    case True
    with ok show ?thesis by (auto simp: bucket_room_def Let_def buckets_ok_def hm.inv_retain)
  next
    case False
    then have "?live \<noteq> []" by (auto simp: rate_buckets_max_def)
    from length_retain_above_cutoff [OF this refl refl, of last_seen] False
    have "length (bucket_room rate t) < length ?live - length ?live div 8"
      by (simp add: bucket_room_def Let_def)
    then have "length (bucket_room rate t) < length rate" using live by linarith
    moreover have "hm_inv (bucket_room rate t)"
      using ok by (simp add: bucket_room_def Let_def buckets_ok_def hm.inv_retain)
    ultimately show ?thesis using ok by (simp add: buckets_ok_def)
  qed
  then show ?thesis
    by (auto simp: admit_rate_def Let_def buckets_ok_def length_update_le hm.inv_insert)
qed

interpretation rate_buckets: op_system
  "\<lambda>rate e. snd (admit_rate rate_refill_per_sec rate_burst rate (fst e) (snd e))" buckets_ok "[]"
  by unfold_locales (simp_all add: buckets_ok_admit, simp add: buckets_ok_def hm.inv_empty)

end
