(* ===== verification/Policy.thy ===== *)
theory Policy
  imports Wire
begin

text \<open>
  The policy engine, \<open>src/nostr/policy.rs\<close>: the paired apps and their levels, the pending
  asks, the remembered answers and the activity log. Every function body that runs under the
  engine's lock is one definition from state to state; the asynchronous \<open>decide\<close> is its
  critical sections, \<open>decide_pair\<close>, \<open>decide_gate\<close>, \<open>decide_ask\<close> and
  \<open>decide_expire\<close>, between which any other operation may run. The clock is an argument.
\<close>

section \<open>Levels, decisions and sensitivity\<close>

datatype level = Basic | Ask | Trust

datatype decision = Allow | Deny string

definition safe_kinds :: "u16 list" where
  "safe_kinds = [1, 6, 7, 16, 1111, 30023, 30024, 1808, 9735, 10001, 30000, 30001, 24242]"

definition event_kind :: "crate \<Rightarrow> string \<Rightarrow> u64 option" where
  "event_kind C json =
     (case json_parse C json of
        Inl _ \<Rightarrow> None
      | Inr v \<Rightarrow>
          (case jget v ''kind'' of
             Some (JNumber n) \<Rightarrow> as_u64 (JNumber n)
           | Some (JString s) \<Rightarrow> parse_u64 s
           | _ \<Rightarrow> None))"

definition event_content :: "crate \<Rightarrow> string \<Rightarrow> string option" where
  "event_content C json =
     (case json_parse C json of Inl _ \<Rightarrow> None
      | Inr v \<Rightarrow> Option.bind (jget v ''content'') as_str)"

fun is_sensitive :: "crate \<Rightarrow> nmethod \<Rightarrow> string list \<Rightarrow> bool" where
  "is_sensitive C Nip04Decrypt params = True"
| "is_sensitive C Nip44Decrypt params = True"
| "is_sensitive C Nip04Encrypt params = True"
| "is_sensitive C SignEvent params =
     (case Option.bind (nth_opt params 0) (event_kind C) of
        Some kind \<Rightarrow> \<not> List.member safe_kinds (ucast kind)
      | None \<Rightarrow> True)"
| "is_sensitive C _ params = False"

section \<open>Words for an ask\<close>

definition kind_label :: "u64 \<Rightarrow> string option" where
  "kind_label kind = map_of
     [(0, ''Metadata''), (1, ''Note''), (3, ''Contacts''), (4, ''DM''), (5, ''Delete''),
      (6, ''Repost''), (7, ''Reaction''), (8, ''Badge Award''), (9, ''Chat Message''),
      (10, ''Group Chat''), (1984, ''Report''), (9734, ''Zap Request''), (9735, ''Zap''),
      (10000, ''Mute List''), (10001, ''Pin List''), (10002, ''Relay List''),
      (22242, ''HTTP Auth''), (27235, ''HTTP Auth''), (30000, ''Categorized People''),
      (30001, ''Categorized Bookmarks''), (30023, ''Long-form Content''),
      (30078, ''App-specific Data'')] kind"

definition sign_event_summary :: "crate \<Rightarrow> string list \<Rightarrow> string" where
  "sign_event_summary C params =
     (case Option.bind (nth_opt params 0) (event_kind C) of
        Some kind \<Rightarrow>
          (case map_of
             [(0 :: u64, ''Update profile''), (1, ''Sign a note''), (3, ''Update contacts''),
              (4, ''Send DM''), (5, ''Delete event''), (6, ''Repost''), (7, ''Sign a reaction''),
              (9, ''Sign chat message''), (9734, ''Sign zap request''), (9735, ''Sign zap''),
              (10002, ''Update relay list''), (22242, ''Sign http auth''),
              (24133, ''Sign NIP-46 response''), (27235, ''Sign http auth''),
              (30023, ''Sign article'')] kind of
             Some s \<Rightarrow> s
           | None \<Rightarrow> ''Sign event (kind '' @ show_u64 kind @ '')'')
      | None \<Rightarrow> ''Sign event'')"

definition ascii_lower :: "char \<Rightarrow> char" where
  "ascii_lower c =
     (if 65 \<le> (of_char c :: nat) \<and> (of_char c :: nat) \<le> 90 then char_of (of_char c + 32 :: nat)
      else c)"

fun summarize :: "crate \<Rightarrow> nmethod \<Rightarrow> string list \<Rightarrow> string" where
  "summarize C SignEvent params = sign_event_summary C params"
| "summarize C GetPublicKey params = ''Get public key''"
| "summarize C Nip04Encrypt params = ''Encrypt message (NIP-04)''"
| "summarize C Nip04Decrypt params = ''Decrypt message (NIP-04)''"
| "summarize C Nip44Encrypt params = ''Encrypt message (NIP-44)''"
| "summarize C Nip44Decrypt params = ''Decrypt message (NIP-44)''"
| "summarize C Ping params = ''Ping''"
| "summarize C other params = map ascii_lower (method_debug other)"

fun detail :: "nmethod \<Rightarrow> string list \<Rightarrow> string option" where
  "detail Nip04Decrypt params = map_option (\<lambda>pk. ''decrypt for '' @ pk) (nth_opt params 0)"
| "detail Nip44Decrypt params = map_option (\<lambda>pk. ''decrypt for '' @ pk) (nth_opt params 0)"
| "detail Nip04Encrypt params = map_option (\<lambda>pk. ''encrypt for '' @ pk) (nth_opt params 0)"
| "detail _ params = None"

definition remember_key :: "pubkey \<Rightarrow> nmethod \<Rightarrow> string" where
  "remember_key app m = app @ '':'' @ method_debug m"

section \<open>State\<close>

record paired =
  p_pubkey :: string
  p_level :: level
  p_paired_at :: u64
  p_name :: "string option"
  p_image :: "string option"
  p_perms :: "string option"
  p_url :: "string option"
  p_revoked_at :: "u64 option"
  p_request_count :: u64
  p_last_used_at :: "u64 option"

record log_entry =
  l_at :: u64
  l_app :: string
  l_method :: string
  l_summary :: string
  l_verdict :: string

text \<open>
  A pending ask. Its responders are the sending halves of the channels its waiters hold, each
  named by a number.
\<close>

record prompt =
  pr_app :: pubkey
  pr_method :: nmethod
  pr_params :: "string list"
  pr_summary :: string
  pr_responders :: "nat list"

record prompt_view =
  pv_id :: string
  pv_app :: string
  pv_method :: string
  pv_summary :: string
  pv_kind :: "u64 option"
  pv_kind_label :: "string option"
  pv_content :: "string option"
  pv_sensitive :: bool
  pv_retries :: nat
  pv_detail :: "string option"

text \<open>
  The waiting half of an ask: still waiting, holding an answer, or past its window (its receiver
  is gone, so a send to it fails). A sender dropped unused is received as the denial the code
  turns it into.
\<close>

datatype wait = Waiting | Answered decision | TimedOut

record waiter =
  w_prompt :: string
  w_app :: pubkey
  w_method :: nmethod
  w_params :: "string list"
  w_summary :: string
  w_state :: wait

text \<open>
  The engine. \<open>e_disk_apps\<close> and \<open>e_disk_log\<close> are what the two state files hold, when
  they hold something that parses; \<open>e_persists\<close> says whether there is a state directory and
  \<open>e_disk_ok\<close> whether writing to it works.
\<close>

record engine =
  e_apps :: "paired list"
  e_prompts :: "(string \<times> prompt) list"
  e_remembered :: "(string \<times> u64) list"
  e_log :: "log_entry list"
  e_next_id :: u64
  e_waits :: "waiter list"
  e_persists :: bool
  e_disk_ok :: bool
  e_disk_apps :: "paired list option"
  e_disk_log :: "log_entry list option"

definition prompt_ttl_secs :: u64 where "prompt_ttl_secs = 300"
definition log_cap :: nat where "log_cap = 500"

text \<open>\<open>Engine::new\<close>: what the files hold is loaded, and only with a state directory.\<close>

definition engine_new ::
  "bool \<Rightarrow> bool \<Rightarrow> paired list option \<Rightarrow> log_entry list option \<Rightarrow> engine" where
  "engine_new persists disk_ok disk_apps disk_log =
     \<lparr>e_apps = (case disk_apps of Some a \<Rightarrow> if persists then a else [] | None \<Rightarrow> []),
      e_prompts = [], e_remembered = [],
      e_log = (case disk_log of Some l \<Rightarrow> if persists then l else [] | None \<Rightarrow> []),
      e_next_id = 0, e_waits = [], e_persists = persists, e_disk_ok = disk_ok,
      e_disk_apps = disk_apps, e_disk_log = disk_log\<rparr>"

definition persist_apps :: "engine \<Rightarrow> engine" where
  "persist_apps e =
     (if e_persists e \<and> e_disk_ok e then e\<lparr>e_disk_apps := Some (e_apps e)\<rparr> else e)"

definition persist_log :: "engine \<Rightarrow> engine" where
  "persist_log e =
     (if e_persists e \<and> e_disk_ok e then e\<lparr>e_disk_log := Some (e_log e)\<rparr> else e)"

definition record_log :: "engine \<Rightarrow> log_entry \<Rightarrow> engine" where
  "record_log e entry =
     (let log = e_log e @ [entry];
          log' = (if length log > log_cap then drop (length log - log_cap) log else log)
      in persist_log (e\<lparr>e_log := log'\<rparr>))"

definition log_line :: "u64 \<Rightarrow> string \<Rightarrow> string \<Rightarrow> string \<Rightarrow> string \<Rightarrow> log_entry" where
  "log_line at app m s v = \<lparr>l_at = at, l_app = app, l_method = m, l_summary = s, l_verdict = v\<rparr>"

section \<open>Pairing and the verbs\<close>

definition fill :: "'a option \<Rightarrow> 'a option \<Rightarrow> 'a option" where
  "fill old new = (case old of None \<Rightarrow> new | Some x \<Rightarrow> Some x)"

definition find_app :: "engine \<Rightarrow> string \<Rightarrow> paired option" where
  "find_app e app = find (\<lambda>p. p_pubkey p = app) (e_apps e)"

definition change_app :: "string \<Rightarrow> (paired \<Rightarrow> paired) \<Rightarrow> engine \<Rightarrow> engine" where
  "change_app app f e = e\<lparr>e_apps := update_first (\<lambda>p. p_pubkey p = app) f (e_apps e)\<rparr>"

definition new_paired ::
  "string \<Rightarrow> u64 \<Rightarrow> string option \<Rightarrow> string option \<Rightarrow> string option \<Rightarrow> string option \<Rightarrow> paired" where
  "new_paired app now name img perms url =
     \<lparr>p_pubkey = app, p_level = Ask, p_paired_at = now, p_name = name, p_image = img,
      p_perms = perms, p_url = url, p_revoked_at = None, p_request_count = 0,
      p_last_used_at = None\<rparr>"

definition pair_with_metadata ::
  "engine \<Rightarrow> pubkey \<Rightarrow> string option \<Rightarrow> string option \<Rightarrow> string option \<Rightarrow> string option
     \<Rightarrow> u64 \<Rightarrow> engine" where
  "pair_with_metadata e app name img perms url now =
     (case find_app e app of
        Some _ \<Rightarrow> change_app app (\<lambda>p. p\<lparr>p_name := fill (p_name p) name,
          p_image := fill (p_image p) img, p_perms := fill (p_perms p) perms,
          p_url := fill (p_url p) url\<rparr>) e
      | None \<Rightarrow>
          persist_apps (record_log (e\<lparr>e_apps := e_apps e @ [new_paired app now name img perms url]\<rparr>)
            (log_line now app ''connect'' ''paired'' ''paired at ask'')))"

definition pair_app :: "engine \<Rightarrow> pubkey \<Rightarrow> u64 \<Rightarrow> engine" where
  "pair_app e app now = pair_with_metadata e app None None None None now"

definition forget_answers :: "string \<Rightarrow> engine \<Rightarrow> engine" where
  "forget_answers app e =
     e\<lparr>e_remembered := hm_retain (\<lambda>key _. \<not> starts_with (app @ '':'') key) (e_remembered e)\<rparr>"

definition revoke :: "engine \<Rightarrow> string \<Rightarrow> u64 \<Rightarrow> bool \<times> engine" where
  "revoke e app now =
     (case find_app e app of
        None \<Rightarrow> (False, e)
      | Some p \<Rightarrow>
          let fresh = p_revoked_at p = None;
              e1 = forget_answers app (change_app app (\<lambda>p. p\<lparr>p_revoked_at := Some now\<rparr>) e);
              e2 = (if fresh then record_log e1 (log_line now app ''revoke''
                      ''the person revoked the app'' ''tombstoned'') else e1)
          in (True, persist_apps e2))"

definition unrevoke :: "engine \<Rightarrow> string \<Rightarrow> u64 \<Rightarrow> bool \<times> engine" where
  "unrevoke e app now =
     (case find_app e app of
        None \<Rightarrow> (False, e)
      | Some p \<Rightarrow>
          if p_revoked_at p = None then (False, e)
          else (True, persist_apps (record_log
            (change_app app (\<lambda>p. p\<lparr>p_revoked_at := None\<rparr>) e)
            (log_line now app ''unrevoke'' ''the person un-revoked the app'' ''cleared''))))"

definition rename :: "engine \<Rightarrow> string \<Rightarrow> string \<Rightarrow> u64 \<Rightarrow> bool \<times> engine" where
  "rename e app name now =
     (case find_app e app of
        None \<Rightarrow> (False, e)
      | Some _ \<Rightarrow> (True, persist_apps (record_log
          (change_app app (\<lambda>p. p\<lparr>p_name := Some name\<rparr>) e)
          (log_line now app ''label'' ''the person named the app'' ''named''))))"

definition remove_app :: "engine \<Rightarrow> string \<Rightarrow> bool \<times> engine" where
  "remove_app e app =
     (let before = length (e_apps e);
          e1 = forget_answers app (e\<lparr>e_apps := filter (\<lambda>p. p_pubkey p \<noteq> app) (e_apps e)\<rparr>)
      in (length (e_apps e1) < before, e1))"

definition delete_app :: "engine \<Rightarrow> string \<Rightarrow> u64 \<Rightarrow> bool \<times> engine" where
  "delete_app e app now =
     (let (removed, e1) = remove_app e app
      in (removed, if removed then persist_apps (record_log e1
            (log_line now app ''delete'' ''the person deleted the app'' ''removed'')) else e1))"

definition logout :: "engine \<Rightarrow> string \<Rightarrow> u64 \<Rightarrow> bool \<times> engine" where
  "logout e app now =
     (let (removed, e1) = remove_app e app
      in (removed, if removed then persist_apps (record_log e1
            (log_line now app ''logout'' ''the app ended its own session'' ''removed'')) else e1))"

definition noted :: "engine \<Rightarrow> string \<Rightarrow> string \<Rightarrow> string \<Rightarrow> string \<Rightarrow> u64 \<Rightarrow> engine" where
  "noted e app m summary verdict now = record_log e (log_line now app m summary verdict)"

definition set_level :: "engine \<Rightarrow> string \<Rightarrow> level \<Rightarrow> string + engine" where
  "set_level e app l =
     (case find_app e app of
        None \<Rightarrow> Inl (''no paired app '' @ app)
      | Some _ \<Rightarrow> Inr (persist_apps (change_app app (\<lambda>p. p\<lparr>p_level := l\<rparr>) e)))"

definition prompt_views :: "crate \<Rightarrow> engine \<Rightarrow> prompt_view list" where
  "prompt_views C e = map (\<lambda>(i, pr).
     let event_json = (if pr_method pr = SignEvent then nth_opt (pr_params pr) 0 else None);
         kind = Option.bind event_json (event_kind C)
     in \<lparr>pv_id = i, pv_app = pr_app pr, pv_method = method_debug (pr_method pr),
         pv_summary = pr_summary pr, pv_kind = kind, pv_kind_label = Option.bind kind kind_label,
         pv_content = Option.bind event_json (event_content C),
         pv_sensitive = is_sensitive C (pr_method pr) (pr_params pr),
         pv_retries = length (pr_responders pr), pv_detail = detail (pr_method pr) (pr_params pr)\<rparr>)
     (e_prompts e)"

section \<open>Answering an ask\<close>

text \<open>
  Sending the decision down every responder of a card: a send lands where the wait is still
  open. The flag says whether any did.
\<close>

fun send_all :: "decision \<Rightarrow> nat list \<Rightarrow> waiter list \<Rightarrow> bool \<times> waiter list" where
  "send_all d [] ws = (False, ws)"
| "send_all d (r # rs) ws =
     (if r < length ws \<and> w_state (ws ! r) = Waiting
      then (True, snd (send_all d rs (ws[r := (ws ! r)\<lparr>w_state := Answered d\<rparr>])))
      else send_all d rs ws)"

fun answer_verdict :: "decision \<Rightarrow> string" where
  "answer_verdict Allow = ''allowed''"
| "answer_verdict (Deny reason) = ''denied: '' @ reason"

definition stand :: "prompt \<Rightarrow> u64 option \<Rightarrow> u64 \<Rightarrow> engine \<Rightarrow> engine" where
  "stand pr remember now e =
     (case remember of
        Some secs \<Rightarrow> e\<lparr>e_remembered :=
          hm_insert (remember_key (pr_app pr) (pr_method pr)) (now + secs) (e_remembered e)\<rparr>
      | None \<Rightarrow> e)"

definition answer :: "engine \<Rightarrow> string \<Rightarrow> decision \<Rightarrow> u64 option \<Rightarrow> u64 \<Rightarrow> string + engine" where
  "answer e i d remember now =
     (case position (\<lambda>(k, _). k = i) (e_prompts e) of
        None \<Rightarrow> Inl (''no prompt '' @ i)
      | Some ix \<Rightarrow>
          let pr = snd (e_prompts e ! ix);
              e2 = stand pr remember now (e\<lparr>e_prompts := remove_at ix (e_prompts e)\<rparr>);
              (received, ws) = send_all d (pr_responders pr) (e_waits e2);
              verdict = (if received then answer_verdict d
                         else ''an answer came after the window closed'')
          in Inr (record_log (e2\<lparr>e_waits := ws\<rparr>)
               (log_line now (pr_app pr) (method_debug (pr_method pr)) (pr_summary pr) verdict)))"

definition approve :: "engine \<Rightarrow> string \<Rightarrow> u64 option \<Rightarrow> u64 \<Rightarrow> string + engine" where
  "approve e i remember now = answer e i Allow remember now"

definition deny :: "engine \<Rightarrow> string \<Rightarrow> u64 \<Rightarrow> string + engine" where
  "deny e i now = answer e i (Deny ''denied'') None now"

section \<open>The decision, by its critical sections\<close>

text \<open>
  The first section pairs the app. The second reads the level and the remembered answers: it
  allows, or falls through to the ask, or panics when the app it just paired is gone again.
\<close>

datatype gate_outcome = GateAllow | GateAsk | GatePanic

definition decide_pair :: "engine \<Rightarrow> pubkey \<Rightarrow> u64 \<Rightarrow> engine" where
  "decide_pair e app now = pair_app e app now"

definition trusted_here :: "engine \<Rightarrow> pubkey \<Rightarrow> nmethod \<Rightarrow> u64 \<Rightarrow> bool" where
  "trusted_here e app m now =
     (case hm_get (e_remembered e) (remember_key app m) of
        Some until \<Rightarrow> now < until | None \<Rightarrow> False)"

definition decide_gate ::
  "crate \<Rightarrow> engine \<Rightarrow> pubkey \<Rightarrow> nmethod \<Rightarrow> string list \<Rightarrow> u64 \<Rightarrow> gate_outcome \<times> engine" where
  "decide_gate C e app m params now =
     (case find_app e app of
        None \<Rightarrow> (GatePanic, e)
      | Some p \<Rightarrow>
          let e1 = change_app app (\<lambda>p. p\<lparr>p_request_count := p_request_count p + 1,
                     p_last_used_at := Some now\<rparr>) e;
              everywhere = (p_level p = Trust);
              here = trusted_here e1 app m now
          in if everywhere \<or> here \<or> (p_level p = Basic \<and> \<not> is_sensitive C m params)
             then (GateAllow, persist_apps (record_log e1
                     (log_line now app (method_debug m) (summarize C m params)
                        (if everywhere then ''allowed (trust)''
                         else if here then ''allowed (remembered)'' else ''allowed (basic)''))))
             else (GateAsk, e1))"

text \<open>
  The third registers the ask: an identical pending one is joined, else a card is queued. The
  answer is the number of the waiter, whose channel the card's responders now include.
\<close>

definition same_ask :: "pubkey \<Rightarrow> nmethod \<Rightarrow> string list \<Rightarrow> string \<times> prompt \<Rightarrow> bool" where
  "same_ask app m params c \<longleftrightarrow>
     pr_app (snd c) = app \<and> pr_method (snd c) = m \<and> pr_params (snd c) = params"

definition prompt_id :: "u64 \<Rightarrow> u64 \<Rightarrow> string" where
  "prompt_id now n = show_u64 now @ ''-'' @ show_padded 4 (unat n)"

definition decide_ask ::
  "crate \<Rightarrow> engine \<Rightarrow> pubkey \<Rightarrow> nmethod \<Rightarrow> string list \<Rightarrow> u64 \<Rightarrow> nat \<times> engine" where
  "decide_ask C e app m params now =
     (let tx = length (e_waits e);
          waiting = (\<lambda>i. \<lparr>w_prompt = i, w_app = app, w_method = m, w_params = params,
                         w_summary = summarize C m params, w_state = Waiting\<rparr>)
      in case find (same_ask app m params) (e_prompts e) of
           Some (i, _) \<Rightarrow>
             (tx, e\<lparr>e_prompts := update_first (same_ask app m params)
                      (\<lambda>(i, pr). (i, pr\<lparr>pr_responders := pr_responders pr @ [tx]\<rparr>)) (e_prompts e),
                    e_waits := e_waits e @ [waiting i]\<rparr>)
         | None \<Rightarrow>
             let n = e_next_id e + 1; i = prompt_id now n
             in (tx, e\<lparr>e_next_id := n,
                       e_prompts := e_prompts e @
                         [(i, \<lparr>pr_app = app, pr_method = m, pr_params = params,
                               pr_summary = summarize C m params, pr_responders = [tx]\<rparr>)],
                       e_waits := e_waits e @ [waiting i]\<rparr>))"

text \<open>
  The window closes: the waiter's receiver is dropped first, and the queue is cleaned under the
  lock afterwards. Cards leaving the queue unanswered drop their senders, and every other wait
  on them is answered with the denial for a dropped prompt.
\<close>

definition dropped :: decision where "dropped = Deny ''the prompt was dropped''"

definition decide_fire :: "engine \<Rightarrow> nat \<Rightarrow> engine" where
  "decide_fire e n =
     (if n < length (e_waits e) \<and> w_state (e_waits e ! n) = Waiting
      then e\<lparr>e_waits := (e_waits e)[n := (e_waits e ! n)\<lparr>w_state := TimedOut\<rparr>]\<rparr> else e)"

definition decide_expire :: "engine \<Rightarrow> nat \<Rightarrow> u64 \<Rightarrow> engine" where
  "decide_expire e n now =
     (if n < length (e_waits e) \<and> w_state (e_waits e ! n) = TimedOut then
        let w = e_waits e ! n; i = w_prompt w;
            gone = filter (\<lambda>(k, _). k = i) (e_prompts e)
        in if gone = [] then e
           else record_log (e\<lparr>e_prompts := filter (\<lambda>(k, _). k \<noteq> i) (e_prompts e),
                  e_waits := snd (send_all dropped
                    (concat (map (\<lambda>(_, pr). pr_responders pr) gone)) (e_waits e))\<rparr>)
                (log_line now (w_app w) (method_debug (w_method w)) (w_summary w)
                   ''expired unanswered'')
      else e)"

text \<open>What the \<open>decide\<close> of waiter \<open>n\<close> returns, once it returns.\<close>

definition decide_result :: "engine \<Rightarrow> nat \<Rightarrow> decision option" where
  "decide_result e n =
     (if n < length (e_waits e) then
        (case w_state (e_waits e ! n) of
           Waiting \<Rightarrow> None
         | Answered d \<Rightarrow> Some d
         | TimedOut \<Rightarrow> Some (Deny ''the ask timed out unanswered''))
      else None)"

text \<open>
  The decision with nothing in between, as one call makes it when no other task holds the lock:
  an immediate answer, or the number of the waiter.
\<close>

datatype decided = Now decision | Pending nat | Panicked

definition decide ::
  "crate \<Rightarrow> engine \<Rightarrow> pubkey \<Rightarrow> nmethod \<Rightarrow> string list \<Rightarrow> u64 \<Rightarrow> decided \<times> engine" where
  "decide C e app m params now =
     (case decide_gate C (decide_pair e app now) app m params now of
        (GatePanic, e1) \<Rightarrow> (Panicked, e1)
      | (GateAllow, e1) \<Rightarrow> (Now Allow, e1)
      | (GateAsk, e1) \<Rightarrow> (let (n, e2) = decide_ask C e1 app m params now in (Pending n, e2)))"

section \<open>Histories\<close>

datatype policy_op =
    OpPair pubkey "string option" "string option" "string option" "string option"
  | OpGate pubkey nmethod "string list"
  | OpAsk pubkey nmethod "string list"
  | OpApprove string "u64 option"
  | OpDeny string
  | OpFire nat
  | OpExpire nat
  | OpRevoke string
  | OpUnrevoke string
  | OpRename string string
  | OpDelete string
  | OpLogout string
  | OpNoted string string string string
  | OpLevel string level

definition ok_or :: "'s \<Rightarrow> 'e + 's \<Rightarrow> 's" where
  "ok_or s r = (case r of Inr t \<Rightarrow> t | Inl _ \<Rightarrow> s)"

fun policy_step :: "crate \<Rightarrow> engine \<Rightarrow> policy_op \<times> u64 \<Rightarrow> engine" where
  "policy_step C e (OpPair app name img perms url, now) =
     pair_with_metadata e app name img perms url now"
| "policy_step C e (OpGate app m ps, now) = snd (decide_gate C e app m ps now)"
| "policy_step C e (OpAsk app m ps, now) = snd (decide_ask C e app m ps now)"
| "policy_step C e (OpApprove i r, now) = ok_or e (approve e i r now)"
| "policy_step C e (OpDeny i, now) = ok_or e (deny e i now)"
| "policy_step C e (OpFire n, now) = decide_fire e n"
| "policy_step C e (OpExpire n, now) = decide_expire e n now"
| "policy_step C e (OpRevoke app, now) = snd (revoke e app now)"
| "policy_step C e (OpUnrevoke app, now) = snd (unrevoke e app now)"
| "policy_step C e (OpRename app n, now) = snd (rename e app n now)"
| "policy_step C e (OpDelete app, now) = snd (delete_app e app now)"
| "policy_step C e (OpLogout app, now) = snd (logout e app now)"
| "policy_step C e (OpNoted app m s v, now) = noted e app m s v now"
| "policy_step C e (OpLevel app l, now) = ok_or e (set_level e app l)"

section \<open>What the operations leave alone\<close>

lemma persist_apps_fields [simp]:
  "e_apps (persist_apps e) = e_apps e" "e_prompts (persist_apps e) = e_prompts e"
  "e_remembered (persist_apps e) = e_remembered e" "e_log (persist_apps e) = e_log e"
  "e_waits (persist_apps e) = e_waits e" "e_next_id (persist_apps e) = e_next_id e"
  "e_persists (persist_apps e) = e_persists e" "e_disk_ok (persist_apps e) = e_disk_ok e"
  "e_disk_log (persist_apps e) = e_disk_log e"
  by (simp_all add: persist_apps_def)

lemma record_log_fields [simp]:
  "e_apps (record_log e l) = e_apps e" "e_prompts (record_log e l) = e_prompts e"
  "e_remembered (record_log e l) = e_remembered e" "e_waits (record_log e l) = e_waits e"
  "e_next_id (record_log e l) = e_next_id e" "e_persists (record_log e l) = e_persists e"
  "e_disk_ok (record_log e l) = e_disk_ok e" "e_disk_apps (record_log e l) = e_disk_apps e"
  by (simp_all add: record_log_def persist_log_def Let_def)

lemma e_log_record_log: "e_log (record_log e l) =
    drop (Suc (length (e_log e)) - log_cap) (e_log e @ [l])"
  by (simp add: record_log_def persist_log_def Let_def)

lemma last_record_log [simp]: "last (e_log (record_log e l)) = l"
  by (simp add: e_log_record_log log_cap_def last_drop)

lemma change_app_fields [simp]:
  "e_prompts (change_app a f e) = e_prompts e" "e_remembered (change_app a f e) = e_remembered e"
  "e_log (change_app a f e) = e_log e" "e_waits (change_app a f e) = e_waits e"
  "e_next_id (change_app a f e) = e_next_id e" "e_persists (change_app a f e) = e_persists e"
  "e_disk_ok (change_app a f e) = e_disk_ok e"
  by (simp_all add: change_app_def)

lemma forget_answers_fields [simp]:
  "e_apps (forget_answers a e) = e_apps e" "e_prompts (forget_answers a e) = e_prompts e"
  "e_log (forget_answers a e) = e_log e" "e_waits (forget_answers a e) = e_waits e"
  "e_next_id (forget_answers a e) = e_next_id e" "e_persists (forget_answers a e) = e_persists e"
  "e_disk_ok (forget_answers a e) = e_disk_ok e"
  by (simp_all add: forget_answers_def)

lemmas verb_defs = pair_with_metadata_def revoke_def unrevoke_def rename_def remove_app_def
  delete_app_def logout_def noted_def set_level_def Let_def

text \<open>A verb of the socket changes neither the queue nor the waiters.\<close>

fun queue_op :: "policy_op \<Rightarrow> bool" where
  "queue_op (OpAsk _ _ _) = True"
| "queue_op (OpApprove _ _) = True"
| "queue_op (OpDeny _) = True"
| "queue_op (OpFire _) = True"
| "queue_op (OpExpire _) = True"
| "queue_op _ = False"

lemma quiet_step:
  assumes "\<not> queue_op o'"
  shows "e_prompts (policy_step C e (o', now)) = e_prompts e"
    and "e_waits (policy_step C e (o', now)) = e_waits e"
  using assms by (cases o'; simp add: verb_defs decide_gate_def ok_or_def split: option.split)+

section \<open>The log keeps its cap\<close>

definition log_capped :: "engine \<Rightarrow> bool" where
  "log_capped e \<longleftrightarrow> length (e_log e) \<le> log_cap"

lemma log_capped_record [inv_intros]: "log_capped (record_log e l)"
  by (simp add: log_capped_def e_log_record_log log_cap_def)

lemma log_capped_cong [inv_intros]: "log_capped e \<Longrightarrow> e_log e' = e_log e \<Longrightarrow> log_capped e'"
  by (simp add: log_capped_def)

lemma log_capped_simps [simp]:
  "log_capped (persist_apps e) = log_capped e" "log_capped (change_app a f e) = log_capped e"
  "log_capped (forget_answers a e) = log_capped e" "log_capped (record_log e l)"
  by (simp_all add: log_capped_def log_capped_record [unfolded log_capped_def])

lemma answer_Inr:
  "answer e i d remember now = Inr e' \<Longrightarrow> \<exists>ix. position (\<lambda>(k, _). k = i) (e_prompts e) = Some ix"
  by (simp add: answer_def split: option.splits)

lemma log_capped_step: "log_capped e \<Longrightarrow> log_capped (policy_step C e ev)"
proof (cases ev)
  case (Pair o' now)
  assume "log_capped e"
  with Pair show ?thesis
    by (cases o')
      (auto simp: verb_defs decide_gate_def decide_ask_def approve_def deny_def answer_def ok_or_def
        decide_fire_def decide_expire_def intro: log_capped_cong
        split: option.split prod.split)
qed

section \<open>Every wait is on a card, and every answer came through one\<close>

lemma length_send_all [simp]: "length (snd (send_all d rs ws)) = length ws"
  by (induction rs arbitrary: ws) auto

lemma nth_send_all:
  "n < length ws \<Longrightarrow> snd (send_all d rs ws) ! n =
     (if n \<in> set rs \<and> w_state (ws ! n) = Waiting then (ws ! n)\<lparr>w_state := Answered d\<rparr> else ws ! n)"
  by (induction rs arbitrary: ws) (auto simp: nth_list_update)

lemma fst_send_all:
  "fst (send_all d rs ws) \<longleftrightarrow> (\<exists>r \<in> set rs. r < length ws \<and> w_state (ws ! r) = Waiting)"
  by (induction rs arbitrary: ws) auto

lemma send_all_keeps [simp]:
  assumes "n < length ws"
  shows "w_prompt (snd (send_all d rs ws) ! n) = w_prompt (ws ! n)"
    and "w_app (snd (send_all d rs ws) ! n) = w_app (ws ! n)"
    and "w_method (snd (send_all d rs ws) ! n) = w_method (ws ! n)"
    and "w_params (snd (send_all d rs ws) ! n) = w_params (ws ! n)"
  using assms by (simp_all add: nth_send_all)

text \<open>A card's responders are waiters that asked exactly what the card shows.\<close>

definition card_ok :: "waiter list \<Rightarrow> string \<times> prompt \<Rightarrow> bool" where
  "card_ok ws c = (\<forall>r \<in> set (pr_responders (snd c)). r < length ws \<and>
     w_prompt (ws ! r) = fst c \<and> w_app (ws ! r) = pr_app (snd c) \<and>
     w_method (ws ! r) = pr_method (snd c) \<and> w_params (ws ! r) = pr_params (snd c))"

definition on_a_card :: "engine \<Rightarrow> nat \<Rightarrow> bool" where
  "on_a_card e n = (\<exists>c \<in> set (e_prompts e). n \<in> set (pr_responders (snd c)))"

definition asks_inv :: "engine \<Rightarrow> bool" where
  "asks_inv e \<longleftrightarrow> (\<forall>c \<in> set (e_prompts e). card_ok (e_waits e) c) \<and>
     (\<forall>n < length (e_waits e). w_state (e_waits e ! n) = Waiting \<longrightarrow> on_a_card e n)"

lemma asks_inv_cong:
  "asks_inv e \<Longrightarrow> e_prompts e' = e_prompts e \<Longrightarrow> e_waits e' = e_waits e \<Longrightarrow> asks_inv e'"
  by (simp add: asks_inv_def on_a_card_def)

lemma asks_inv_record [simp]: "asks_inv (record_log e l) = asks_inv e"
  by (simp add: asks_inv_def on_a_card_def)

lemma card_ok_send_all: "card_ok ws c \<Longrightarrow> card_ok (snd (send_all d rs ws)) c"
  by (auto simp: card_ok_def)

lemma card_ok_append: "card_ok ws c \<Longrightarrow> card_ok (ws @ [w]) c"
  by (auto simp: card_ok_def nth_append)

lemma update_first_set:
  "x \<in> set (update_first P f xs) \<Longrightarrow> x \<in> set xs \<or> (\<exists>y. find P xs = Some y \<and> x = f y)"
  by (induction xs) (auto split: if_splits)

lemma update_first_image:
  "x \<in> set xs \<Longrightarrow> x \<in> set (update_first P f xs) \<or> f x \<in> set (update_first P f xs)"
  by (induction xs) auto

lemma find_update_first_in: "find P xs = Some y \<Longrightarrow> f y \<in> set (update_first P f xs)"
  by (induction xs) (auto split: if_splits)

text \<open>Removing cards keeps the invariant once their waiters are answered.\<close>

lemma asks_inv_remove:
  assumes inv: "asks_inv e"
    and keep: "set (e_prompts e') \<subseteq> set (e_prompts e)"
    and waits: "e_waits e' = snd (send_all d rs (e_waits e))"
    and gone: "\<And>c. c \<in> set (e_prompts e) \<Longrightarrow> c \<in> set (e_prompts e') \<or> set (pr_responders (snd c)) \<subseteq> set rs"
  shows "asks_inv e'"
  unfolding asks_inv_def
proof (intro conjI ballI allI impI)
  fix c assume "c \<in> set (e_prompts e')"
  with inv keep show "card_ok (e_waits e') c"
    by (auto simp: asks_inv_def waits intro: card_ok_send_all)
next
  fix n assume n: "n < length (e_waits e')" "w_state (e_waits e' ! n) = Waiting"
  then have "n \<notin> set rs" "w_state (e_waits e ! n) = Waiting"
    by (auto simp: waits nth_send_all split: if_splits)
  with inv n obtain c where "c \<in> set (e_prompts e)" "n \<in> set (pr_responders (snd c))"
    by (auto simp: asks_inv_def on_a_card_def waits)
  with gone [of c] \<open>n \<notin> set rs\<close> show "on_a_card e' n"
    by (auto simp: on_a_card_def)
qed

lemma in_remove_at: "x \<in> set xs \<Longrightarrow> i < length xs \<Longrightarrow> x = xs ! i \<or> x \<in> set (remove_at i xs)"
  using arg_cong [OF mset_remove_at [of i xs], of set_mset] by auto

text \<open>What a successful answer does, field by field.\<close>

lemma stand_fields [simp]:
  "e_apps (stand pr r now e) = e_apps e" "e_prompts (stand pr r now e) = e_prompts e"
  "e_log (stand pr r now e) = e_log e" "e_waits (stand pr r now e) = e_waits e"
  "e_next_id (stand pr r now e) = e_next_id e"
  by (simp_all add: stand_def split: option.split)

lemma answer_found:
  assumes "position (\<lambda>(k, _). k = i) (e_prompts e) = Some ix" "e_prompts e ! ix = (i', pr)"
  shows "answer e i d remember now =
    Inr (record_log ((stand pr remember now (e\<lparr>e_prompts := remove_at ix (e_prompts e)\<rparr>))
         \<lparr>e_waits := snd (send_all d (pr_responders pr) (e_waits e))\<rparr>)
      (log_line now (pr_app pr) (method_debug (pr_method pr)) (pr_summary pr)
        (if fst (send_all d (pr_responders pr) (e_waits e)) then answer_verdict d
         else ''an answer came after the window closed'')))"
  using assms by (simp add: answer_def Let_def case_prod_beta)

lemma asks_inv_answer: "asks_inv e \<Longrightarrow> asks_inv (ok_or e (answer e i d remember now))"
proof (cases "position (\<lambda>(k, _). k = i) (e_prompts e)")
  case None
  then show "asks_inv e \<Longrightarrow> ?thesis" by (simp add: answer_def ok_or_def)
next
  case (Some ix)
  assume inv: "asks_inv e"
  obtain i' pr where at: "e_prompts e ! ix = (i', pr)" by fastforce
  obtain e' where e': "answer e i d remember now = Inr e'"
    "e_prompts e' = remove_at ix (e_prompts e)"
    "e_waits e' = snd (send_all d (pr_responders pr) (e_waits e))"
    by (simp add: answer_found [OF Some at])
  have "c \<in> set (e_prompts e') \<or> set (pr_responders (snd c)) \<subseteq> set (pr_responders pr)"
    if "c \<in> set (e_prompts e)" for c
    using in_remove_at [OF that] position_Some [OF Some] e'(2) at by fastforce
  then have "asks_inv e'"
    using e'(2) by (intro asks_inv_remove [OF inv _ e'(3)]) (simp_all add: set_remove_at_subset)
  with e'(1) show ?thesis by (simp add: ok_or_def)
qed

lemma asks_inv_ask: "asks_inv e \<Longrightarrow> asks_inv (snd (decide_ask C e app m ps now))"
proof -
  assume inv: "asks_inv e"
  let ?ws = "e_waits e" and ?tx = "length (e_waits e)"
  have old: "card_ok (?ws @ [w]) c" if "c \<in> set (e_prompts e)" for c w
    using inv that by (auto simp: asks_inv_def intro: card_ok_append)
  show ?thesis
  proof (cases "find (same_ask app m ps) (e_prompts e)")
    case None
    then show ?thesis
      using inv old
      by (auto simp: asks_inv_def decide_ask_def Let_def card_ok_def on_a_card_def nth_append
        less_Suc_eq)
  next
    case (Some c)
    obtain i pr where c: "c = (i, pr)" by fastforce
    have found: "c \<in> set (e_prompts e)" "same_ask app m ps c"
      using find_Some_split [OF Some] by auto
    define f where "f = (\<lambda>(i :: string, pr :: prompt). (i, pr\<lparr>pr_responders := pr_responders pr @ [?tx]\<rparr>))"
    define w where "w = \<lparr>w_prompt = i, w_app = app, w_method = m, w_params = ps,
      w_summary = summarize C m ps, w_state = Waiting\<rparr>"
    define cards where "cards = update_first (same_ask app m ps) f (e_prompts e)"
    have e': "e_prompts (snd (decide_ask C e app m ps now)) = cards"
      "e_waits (snd (decide_ask C e app m ps now)) = ?ws @ [w]"
      using Some c by (simp_all add: decide_ask_def Let_def f_def cards_def w_def)
    have "card_ok (?ws @ [w]) (f c)"
      using old [OF found(1), of w] found(2) c
      by (auto simp: card_ok_def f_def w_def same_ask_def nth_append)
    then have "card_ok (?ws @ [w]) d" if "d \<in> set cards" for d
      using update_first_set [OF that [unfolded cards_def]] Some old [of d w] by (elim disjE exE conjE) simp_all
    moreover have "\<exists>d \<in> set cards. n \<in> set (pr_responders (snd d))"
      if n: "n < length ?ws" "w_state (?ws ! n) = Waiting" for n
    proof -
      obtain d where d: "d \<in> set (e_prompts e)" "n \<in> set (pr_responders (snd d))"
        using inv n by (auto simp: asks_inv_def on_a_card_def)
      then have "n \<in> set (pr_responders (snd (f d)))" by (auto simp: f_def split: prod.split)
      with d update_first_image [OF d(1), of "same_ask app m ps" f] show ?thesis
        by (auto simp: cards_def)
    qed
    moreover have "f c \<in> set cards" "?tx \<in> set (pr_responders (snd (f c)))"
      using find_update_first_in [OF Some, of f] c by (auto simp: cards_def f_def)
    ultimately show ?thesis
      unfolding asks_inv_def on_a_card_def e'
      by (auto simp: nth_append less_Suc_eq)
  qed
qed

lemma asks_inv_fire: "asks_inv e \<Longrightarrow> asks_inv (decide_fire e n)"
  by (auto simp: asks_inv_def decide_fire_def card_ok_def on_a_card_def nth_list_update)

lemma asks_inv_expire: "asks_inv e \<Longrightarrow> asks_inv (decide_expire e n now)"
proof -
  assume inv: "asks_inv e"
  show ?thesis
  proof (cases "n < length (e_waits e) \<and> w_state (e_waits e ! n) = TimedOut \<and>
      filter (\<lambda>(k, _). k = w_prompt (e_waits e ! n)) (e_prompts e) \<noteq> []")
    case False
    with inv show ?thesis by (auto simp: decide_expire_def Let_def)
  next
    case True
    let ?i = "w_prompt (e_waits e ! n)"
    let ?gone = "filter (\<lambda>(k, _). k = ?i) (e_prompts e)"
    show ?thesis
      by (rule asks_inv_remove [OF inv, where d = dropped
            and rs = "concat (map (\<lambda>(_, pr). pr_responders pr) ?gone)"])
        (use True in \<open>auto simp: decide_expire_def Let_def\<close>)
  qed
qed

lemma asks_inv_step: "asks_inv e \<Longrightarrow> asks_inv (policy_step C e ev)"
proof (cases ev)
  case (Pair o' now)
  assume inv: "asks_inv e"
  show ?thesis
  proof (cases "queue_op o'")
    case False
    with inv Pair show ?thesis by (auto intro: asks_inv_cong simp: quiet_step)
  next
    case True
    with inv Pair show ?thesis
      by (cases o') (simp_all add: asks_inv_ask asks_inv_fire asks_inv_expire approve_def deny_def
        asks_inv_answer)
  qed
qed

lemma asks_inv_new: "asks_inv (engine_new p d a l)"
  by (simp add: asks_inv_def engine_new_def)

text \<open>It holds in every state of every history.\<close>

interpretation policy: op_system "policy_step C" asks_inv "engine_new p d a l"
  by unfold_locales (simp_all add: asks_inv_new asks_inv_step)

text \<open>
  A step keeps every settled wait as it was, keeps what each waiter asked, and settles a wait
  with a yes only when it approves the card that wait is on.
\<close>

definition waits_grow :: "waiter list \<Rightarrow> waiter list \<Rightarrow> bool" where
  "waits_grow ws ws' \<longleftrightarrow> length ws \<le> length ws' \<and>
     (\<forall>n < length ws. (w_state (ws ! n) \<noteq> Waiting \<longrightarrow> ws' ! n = ws ! n) \<and>
        ws' ! n = (ws ! n)\<lparr>w_state := w_state (ws' ! n)\<rparr>)"

lemma waits_grow_refl [simp]: "waits_grow ws ws"
  by (simp add: waits_grow_def)

lemma waits_grow_trans:
  assumes "waits_grow a b" "waits_grow b c"
  shows "waits_grow a c"
  unfolding waits_grow_def
proof (intro conjI allI impI)
  show "length a \<le> length c" using assms by (simp add: waits_grow_def)
next
  fix n assume n: "n < length a"
  then have b: "n < length b" "b ! n = (a ! n)\<lparr>w_state := w_state (b ! n)\<rparr>"
    and c: "c ! n = (b ! n)\<lparr>w_state := w_state (c ! n)\<rparr>"
    using assms by (auto simp: waits_grow_def)
  show "c ! n = (a ! n)\<lparr>w_state := w_state (c ! n)\<rparr>"
    using b(2) c by (metis waiter.surjective waiter.update_convs(6))
  assume "w_state (a ! n) \<noteq> Waiting"
  then show "c ! n = a ! n" using assms n b(1) by (auto simp: waits_grow_def)
qed

lemma waits_grow_send_all [simp]: "waits_grow ws (snd (send_all d rs ws))"
  by (auto simp: waits_grow_def nth_send_all)

lemma waits_grow_answer: "waits_grow (e_waits e) (e_waits (ok_or e (answer e i d remember now)))"
proof (cases "position (\<lambda>(k, _). k = i) (e_prompts e)")
  case None
  then show ?thesis by (simp add: answer_def ok_or_def)
next
  case (Some ix)
  obtain i' pr where "e_prompts e ! ix = (i', pr)" by fastforce
  from answer_found [OF Some this] show ?thesis by (simp add: ok_or_def)
qed

lemma waits_grow_ask: "waits_grow (e_waits e) (e_waits (snd (decide_ask C e app m ps now)))"
  by (auto simp: decide_ask_def Let_def waits_grow_def nth_append split: option.split prod.split)

lemma waits_grow_fire: "waits_grow (e_waits e) (e_waits (decide_fire e n))"
  by (auto simp: decide_fire_def waits_grow_def nth_list_update)

lemma waits_grow_expire: "waits_grow (e_waits e) (e_waits (decide_expire e n now))"
  by (simp add: decide_expire_def Let_def)

lemma waits_grow_step: "waits_grow (e_waits e) (e_waits (policy_step C e ev))"
proof (cases ev)
  case (Pair o' now)
  show ?thesis
  proof (cases "queue_op o'")
    case False
    with Pair show ?thesis by (simp add: quiet_step)
  next
    case True
    with Pair show ?thesis
      by (cases o') (simp_all add: waits_grow_ask waits_grow_fire waits_grow_expire approve_def
        deny_def waits_grow_answer)
  qed
qed

lemma waits_grow_run: "waits_grow (e_waits e) (e_waits (run_ops (policy_step C) e evs))"
  by (induction evs arbitrary: e) (auto intro: waits_grow_trans waits_grow_step)

definition card_of :: "engine \<Rightarrow> nat \<Rightarrow> string \<Rightarrow> waiter \<Rightarrow> bool" where
  "card_of e n i w = (\<exists>pr. (i, pr) \<in> set (e_prompts e) \<and> n \<in> set (pr_responders pr) \<and>
     pr_app pr = w_app w \<and> pr_method pr = w_method w \<and> pr_params pr = w_params w)"

lemma answered_by_answer:
  assumes inv: "asks_inv e"
    and n: "n < length (e_waits e)" "w_state (e_waits e ! n) \<noteq> Answered d'"
    and after: "w_state (e_waits (ok_or e (answer e i d remember now)) ! n) = Answered d'"
  shows "d' = d \<and> i = w_prompt (e_waits e ! n) \<and> card_of e n i (e_waits e ! n)"
proof (cases "position (\<lambda>(k, _). k = i) (e_prompts e)")
  case None
  with n after show ?thesis by (simp add: answer_def ok_or_def)
next
  case (Some ix)
  obtain i' pr where at: "e_prompts e ! ix = (i', pr)" by fastforce
  have card: "ix < length (e_prompts e)" "i' = i" using position_Some [OF Some] at by auto
  have ws: "e_waits (ok_or e (answer e i d remember now)) = snd (send_all d (pr_responders pr) (e_waits e))"
    by (simp add: answer_found [OF Some at] ok_or_def)
  have hit: "n \<in> set (pr_responders pr)" "d' = d"
    using after n by (auto simp: ws nth_send_all split: if_splits)
  have "(i, pr) \<in> set (e_prompts e)" using card at nth_mem by fastforce
  with inv hit show ?thesis by (fastforce simp: asks_inv_def card_ok_def card_of_def)
qed

lemma answered_yes_step:
  assumes inv: "asks_inv e" and n: "n < length (e_waits (policy_step C e (o', now)))"
    and after: "w_state (e_waits (policy_step C e (o', now)) ! n) = Answered Allow"
  shows "n < length (e_waits e) \<and> (w_state (e_waits e ! n) = Answered Allow \<or>
    (\<exists>r. o' = OpApprove (w_prompt (e_waits e ! n)) r \<and>
       card_of e n (w_prompt (e_waits e ! n)) (e_waits e ! n)))"
proof (cases "queue_op o'")
  case False
  with n after show ?thesis by (simp add: quiet_step)
next
  case True
  have same: "length (e_waits (ok_or e (answer e i d r now))) = length (e_waits e)" for i d r
  proof (cases "position (\<lambda>(k, _). k = i) (e_prompts e)")
    case (Some ix)
    obtain i' pr where "e_prompts e ! ix = (i', pr)" by fastforce
    from answer_found [OF Some this] show ?thesis by (simp add: ok_or_def)
  qed (simp add: answer_def ok_or_def)
  from True show ?thesis
  proof (cases o')
    case (OpAsk app m ps)
    with n after show ?thesis
      by (auto simp: decide_ask_def Let_def nth_append less_Suc_eq split: option.splits if_splits)
  next
    case (OpApprove i r)
    with n after same answered_by_answer [OF inv, of n Allow i Allow r now] show ?thesis
      by (auto simp: approve_def)
  next
    case (OpDeny i)
    with n after same answered_by_answer [OF inv, of n Allow i "Deny ''denied''" None now]
    show ?thesis by (auto simp: deny_def)
  next
    case (OpFire k)
    with n after show ?thesis
      by (auto simp: decide_fire_def nth_list_update split: if_splits)
  next
    case (OpExpire k)
    with n after show ?thesis
      by (auto simp: decide_expire_def Let_def nth_send_all dropped_def split: if_splits)
  qed simp_all
qed

section \<open>Properties\<close>

lemma find_app_persist [simp]: "find_app (persist_apps e) a = find_app e a"
  and find_app_record [simp]: "find_app (record_log e l) a = find_app e a"
  and find_app_forget [simp]: "find_app (forget_answers b e) a = find_app e a"
  by (simp_all add: find_app_def)

lemma find_change:
  "(\<And>p. p_pubkey (f p) = p_pubkey p) \<Longrightarrow>
   find (\<lambda>p. p_pubkey p = b) (update_first (\<lambda>p. p_pubkey p = a) f ps) =
     (if b = a then map_option f (find (\<lambda>p. p_pubkey p = b) ps)
      else find (\<lambda>p. p_pubkey p = b) ps)"
  by (induction ps) auto

lemma find_app_change:
  "(\<And>p. p_pubkey (f p) = p_pubkey p) \<Longrightarrow> find_app (change_app a f e) b =
     (if b = a then map_option f (find_app e b) else find_app e b)"
  by (simp add: find_app_def change_app_def find_change)

lemma find_app_pubkey: "find_app e a = Some p \<Longrightarrow> p_pubkey p = a"
  by (auto simp: find_app_def find_Some_iff)

lemma find_app_append: "find (\<lambda>p. p_pubkey p = a) (ps @ [q]) =
    (case find (\<lambda>p. p_pubkey p = a) ps of Some p \<Rightarrow> Some p
     | None \<Rightarrow> if p_pubkey q = a then Some q else None)"
  by (induction ps) auto

text \<open>The level the app's record holds once it is paired: what it had, or Ask.\<close>

definition level_of :: "engine \<Rightarrow> pubkey \<Rightarrow> level" where
  "level_of e app = (case find_app e app of Some p \<Rightarrow> p_level p | None \<Rightarrow> Ask)"

lemma paired_then:
  obtains p where "find_app (decide_pair e app now) app = Some p"
    and "p_level p = level_of e app"
    and "e_remembered (decide_pair e app now) = e_remembered e"
    and "e_waits (decide_pair e app now) = e_waits e"
    and "e_prompts (decide_pair e app now) = e_prompts e"
proof (cases "find_app e app")
  case None
  show thesis
    by (rule that [of "new_paired app now None None None None"])
      (use None in \<open>simp_all add: decide_pair_def pair_app_def pair_with_metadata_def find_app_def
         find_app_append level_of_def new_paired_def\<close>)
next
  case (Some p)
  show thesis
    by (rule that [of p])
      (use Some in \<open>simp_all add: decide_pair_def pair_app_def pair_with_metadata_def
         find_app_change level_of_def fill_def split: option.split\<close>)
qed


text \<open>
  Every unattended yes is in the activity log with the reason it was given: the entry
  names the app, the method and the summary, and the reason is the strongest one that holds.
\<close>

theorem unattended_yes_is_logged:
  assumes "decide C e app m ps now = (Now Allow, e')"
  shows "last (e_log e') = log_line now app (method_debug m) (summarize C m ps)
    (if level_of e app = Trust then ''allowed (trust)''
     else if trusted_here e app m now then ''allowed (remembered)'' else ''allowed (basic)'')"
proof -
  obtain p where p: "find_app (decide_pair e app now) app = Some p"
    "p_level p = level_of e app" "e_remembered (decide_pair e app now) = e_remembered e"
    by (rule paired_then)
  have "trusted_here (change_app app f (decide_pair e app now)) app m now = trusted_here e app m now"
    for f using p by (simp add: trusted_here_def)
  with p assms show ?thesis
    by (auto simp: decide_def decide_gate_def Let_def split: if_splits prod.splits)
qed

lemma unattended_yes_is_logged_witness:
  "l_verdict (last (e_log (snd (decide demo_crate
     (ok_or (engine_new False True None None)
        (set_level (pair_app (engine_new False True None None) ''app'' 5) ''app'' Basic))
     ''app'' SignEvent [''kind1''] 9)))) = ''allowed (basic)''"
  by (subst unattended_yes_is_logged [where C = demo_crate and app = "''app''" and m = SignEvent
        and ps = "[''kind1'']" and now = 9 and e = "ok_or (engine_new False True None None)
        (set_level (pair_app (engine_new False True None None) ''app'' 5) ''app'' Basic)"])
    (code_simp, code_simp)

text \<open>
  C4. A yes is a person's yes: in every history of the engine, with any interleaving of any
  number of asks, a wait that was answered with Allow was answered by an approval of the very
  card it was queued on, which showed that wait's own app, method and parameters at the moment
  of the approval. No expiry, denial or other verb, and no approval of another card, allows it.
\<close>

theorem approved_only_by_its_card:
  assumes "decide_result (run_ops (policy_step C) (engine_new p d a l) evs) n = Some Allow"
  shows "\<exists>k r now w. k < length evs \<and>
    w = e_waits (run_ops (policy_step C) (engine_new p d a l) evs) ! n \<and>
    evs ! k = (OpApprove (w_prompt w) r, now) \<and>
    card_of (run_ops (policy_step C) (engine_new p d a l) (take k evs)) n (w_prompt w) w"
  using assms
proof (induction evs rule: rev_induct)
  case Nil
  then show ?case by (simp add: decide_result_def engine_new_def)
next
  case (snoc ev evs)
  let ?e = "run_ops (policy_step C) (engine_new p d a l) evs"
  obtain o' now where ev: "ev = (o', now)" by fastforce
  define e1 where "e1 = policy_step C ?e (o', now)"
  have e': "run_ops (policy_step C) (engine_new p d a l) (evs @ [ev]) = e1"
    by (simp add: run_ops_append ev e1_def)
  have after: "n < length (e_waits e1)" "w_state (e_waits e1 ! n) = Answered Allow"
    using snoc.prems unfolding e' by (auto simp: decide_result_def split: if_splits wait.splits)
  from answered_yes_step [OF policy.good_run after [unfolded e1_def]]
  have n: "n < length (e_waits ?e)" by blast
  let ?w = "e_waits ?e ! n" and ?w' = "e_waits e1 ! n"
  have same: "w_prompt ?w' = w_prompt ?w" "card_of x n i ?w' = card_of x n i ?w" for x i
  proof -
    have "?w' = ?w\<lparr>w_state := w_state ?w'\<rparr>"
      using waits_grow_step [of ?e C "(o', now)"] n by (simp add: waits_grow_def e1_def)
    then obtain s where s: "?w' = ?w\<lparr>w_state := s\<rparr>" by blast
    show "w_prompt ?w' = w_prompt ?w" "card_of x n i ?w' = card_of x n i ?w"
      unfolding s by (simp_all add: card_of_def)
  qed
  show ?case
  proof (cases "w_state ?w = Answered Allow")
    case True
    then have "decide_result ?e n = Some Allow" using n by (simp add: decide_result_def)
    from snoc.IH [OF this] obtain k r t where k: "k < length evs"
      "evs ! k = (OpApprove (w_prompt ?w) r, t)"
      "card_of (run_ops (policy_step C) (engine_new p d a l) (take k evs)) n (w_prompt ?w) ?w"
      by blast
    show ?thesis
      unfolding e'
      by (rule exI [of _ k], rule exI [of _ r], rule exI [of _ t])
        (use k same in \<open>simp add: nth_append\<close>)
  next
    case False
    with answered_yes_step [OF policy.good_run after [unfolded e1_def]] obtain r where
      "o' = OpApprove (w_prompt ?w) r" "card_of ?e n (w_prompt ?w) ?w" by blast
    then show ?thesis
      unfolding e'
      by (intro exI [of _ "length evs"] exI [of _ r] exI [of _ now]) (simp add: ev same)
  qed
qed

lemma approved_only_by_its_card_witness:
  "\<exists>k r now w. k < length [(OpAsk ''app'' Ping [], 5 :: u64), (OpApprove ''5-0001'' None, 9)] \<and>
    w = e_waits (run_ops (policy_step demo_crate) (engine_new False True None None)
      [(OpAsk ''app'' Ping [], 5 :: u64), (OpApprove ''5-0001'' None, 9)]) ! 0 \<and>
    [(OpAsk ''app'' Ping [], 5 :: u64), (OpApprove ''5-0001'' None, 9)] ! k =
      (OpApprove (w_prompt w) r, now :: u64) \<and>
    card_of (run_ops (policy_step demo_crate) (engine_new False True None None)
      (take k [(OpAsk ''app'' Ping [], 5 :: u64), (OpApprove ''5-0001'' None, 9)])) 0 (w_prompt w) w"
  by (rule approved_only_by_its_card) code_simp

text \<open>
  No ask is lost: in every history, a wait that has not been answered and whose window has
  not closed is on a card of the queue, under the card's own id, and the card shows that wait's
  app, method and parameters, so the panel can always answer it.
\<close>

theorem every_wait_is_on_a_card:
  assumes "n < length (e_waits (run_ops (policy_step C) (engine_new p d a l) evs))"
    and "decide_result (run_ops (policy_step C) (engine_new p d a l) evs) n = None"
  shows "card_of (run_ops (policy_step C) (engine_new p d a l) evs) n
    (w_prompt (e_waits (run_ops (policy_step C) (engine_new p d a l) evs) ! n))
    (e_waits (run_ops (policy_step C) (engine_new p d a l) evs) ! n)"
proof -
  let ?e = "run_ops (policy_step C) (engine_new p d a l) evs"
  have "w_state (e_waits ?e ! n) = Waiting"
    using assms by (auto simp: decide_result_def split: wait.splits)
  with assms(1) policy.good_run [of C p d a l evs] obtain c where
    "c \<in> set (e_prompts ?e)" "n \<in> set (pr_responders (snd c))" "card_ok (e_waits ?e) c"
    by (auto simp: asks_inv_def on_a_card_def)
  then show ?thesis
    unfolding card_of_def by (intro exI [of _ "snd c"]) (simp add: card_ok_def)
qed

lemma every_wait_is_on_a_card_witness:
  "card_of (run_ops (policy_step demo_crate) (engine_new False True None None)
      [(OpAsk ''app'' Ping [], 5), (OpAsk ''app'' Ping [], 6), (OpFire 0, 305)]) 1
    (w_prompt (e_waits (run_ops (policy_step demo_crate) (engine_new False True None None)
      [(OpAsk ''app'' Ping [], 5), (OpAsk ''app'' Ping [], 6), (OpFire 0, 305)]) ! 1))
    (e_waits (run_ops (policy_step demo_crate) (engine_new False True None None)
      [(OpAsk ''app'' Ping [], 5), (OpAsk ''app'' Ping [], 6), (OpFire 0, 305)]) ! 1)"
  by (rule every_wait_is_on_a_card; code_simp)

lemma settled_run:
  assumes "decide_result e n = Some d"
  shows "decide_result (run_ops (policy_step C) e evs) n = Some d"
proof -
  have "n < length (e_waits e)" "w_state (e_waits e ! n) \<noteq> Waiting"
    using assms by (auto simp: decide_result_def split: if_splits wait.splits)
  then show ?thesis
    using assms waits_grow_run [of e C evs] by (auto simp: decide_result_def waits_grow_def)
qed

text \<open>
  One answer per ask: what a call has returned no later operation changes. An approval of a
  card whose window has closed, or of a request already answered, signs nothing more.
\<close>

theorem settled_stays_settled:
  assumes "decide_result e n = Some d"
  shows "\<exists>i. decide_result (run_ops (policy_step C) e evs) n = Some d \<and>
    i = w_prompt (e_waits e ! n) \<and> w_prompt (e_waits (run_ops (policy_step C) e evs) ! n) = i"
proof -
  have "n < length (e_waits e)" "w_state (e_waits e ! n) \<noteq> Waiting"
    using assms by (auto simp: decide_result_def split: if_splits wait.splits)
  then show ?thesis
    using settled_run [OF assms] waits_grow_run [of e C evs] by (simp add: waits_grow_def)
qed

lemma settled_stays_settled_witness:
  "\<exists>i. decide_result (run_ops (policy_step demo_crate)
      (run_ops (policy_step demo_crate) (engine_new False True None None)
        [(OpAsk ''app'' Ping [], 5 :: u64), (OpFire 0, 305)]) [(OpApprove ''5-0001'' None, 306)]) 0
      = Some (Deny ''the ask timed out unanswered'') \<and>
    i = w_prompt (e_waits (run_ops (policy_step demo_crate) (engine_new False True None None)
        [(OpAsk ''app'' Ping [], 5), (OpFire 0, 305)]) ! 0) \<and>
    w_prompt (e_waits (run_ops (policy_step demo_crate)
      (run_ops (policy_step demo_crate) (engine_new False True None None)
        [(OpAsk ''app'' Ping [], 5), (OpFire 0, 305)]) [(OpApprove ''5-0001'' None, 306)]) ! 0) = i"
  by (rule settled_stays_settled) code_simp

text \<open>
  One answer serves every waiter of its card, and no other: after an approval of a queued
  card every wait on it that was still open is allowed, every other wait is as it was, the card
  is gone, and the log says \<open>allowed\<close> exactly when someone was still waiting.
\<close>

theorem approve_answers_the_card:
  assumes "position (\<lambda>(k, _). k = i) (e_prompts e) = Some ix" "e_prompts e ! ix = (i, pr)"
    and "approve e i remember now = Inr e'"
  shows "(\<forall>n. n < length (e_waits e) \<longrightarrow> e_waits e' ! n =
      (if n \<in> set (pr_responders pr) \<and> w_state (e_waits e ! n) = Waiting
       then (e_waits e ! n)\<lparr>w_state := Answered Allow\<rparr> else e_waits e ! n)) \<and>
    e_prompts e' = remove_at ix (e_prompts e) \<and>
    (l_verdict (last (e_log e')) = ''allowed'' \<longleftrightarrow>
      (\<exists>n \<in> set (pr_responders pr). n < length (e_waits e) \<and> w_state (e_waits e ! n) = Waiting))"
  using assms(3) by (auto simp: approve_def answer_found [OF assms(1,2)] nth_send_all fst_send_all
      log_line_def split: if_splits)

definition asked_twice :: engine where
  "asked_twice = run_ops (policy_step demo_crate) (engine_new False True None None)
     [(OpAsk ''app'' Ping [], 5), (OpAsk ''app'' Ping [], 6)]"

lemma approve_answers_the_card_witness:
  "\<exists>e'. approve asked_twice ''5-0001'' None 9 = Inr e' \<and>
     l_verdict (last (e_log e')) = ''allowed'' \<and>
     w_state (e_waits e' ! 0) = Answered Allow \<and> w_state (e_waits e' ! 1) = Answered Allow"
proof -
  have ix: "position (\<lambda>(k, _). k = ''5-0001'') (e_prompts asked_twice) = Some 0"
    by code_simp
  have at: "e_prompts asked_twice ! 0 = (''5-0001'', snd (e_prompts asked_twice ! 0))"
    by code_simp
  obtain e' where e': "approve asked_twice ''5-0001'' None 9 = Inr e'"
    by (simp add: approve_def answer_found [OF ix at])
  have state: "length (e_waits asked_twice) = 2" "w_state (e_waits asked_twice ! 0) = Waiting"
    "w_state (e_waits asked_twice ! 1) = Waiting"
    "pr_responders (snd (e_prompts asked_twice ! 0)) = [0, 1]"
    by code_simp+
  show ?thesis
    using approve_answers_the_card [OF ix at e'] state e' by auto
qed

lemma map_of_update: "map_of (AList.update k v m) k' = (if k' = k then Some v else map_of m k')"
  by (rule hm.get_insert)

lemma remember_key_inj:
  assumes "CHR '':'' \<notin> set app" "CHR '':'' \<notin> set app'"
  shows "remember_key app m = remember_key app' m' \<longleftrightarrow> app = app' \<and> method_debug m = method_debug m'"
proof -
  have "split_once '':'' (remember_key a k) = Some (a, method_debug k)" if "CHR '':'' \<notin> set a" for a k
    using split_once_char [OF that, of "method_debug k"] by (simp add: remember_key_def)
  with assms show ?thesis by (metis option.inject prod.inject remember_key_def)
qed

text \<open>
  A remembered yes is one app's, one method's and runs out: after an approval remembered
  for some seconds (no wrap-around), the grant holds for that app and method exactly until those
  seconds have passed, and no other app's or method's standing changes.
\<close>

theorem remembered_until:
  assumes "position (\<lambda>(k, _). k = i) (e_prompts e) = Some ix" "e_prompts e ! ix = (i, pr)"
    and "approve e i (Some secs) now = Inr e'"
    and "CHR '':'' \<notin> set (pr_app pr)" "CHR '':'' \<notin> set app"
    and "unat now + unat secs < 2 ^ 64"
  shows "trusted_here e' app m t =
    (if app = pr_app pr \<and> method_debug m = method_debug (pr_method pr)
     then unat t < unat now + unat secs else trusted_here e app m t)"
  using assms(3) remember_key_inj [OF assms(5,4), of m "pr_method pr"]
  by (auto simp: approve_def answer_found [OF assms(1,2)] trusted_here_def stand_def map_of_update
      word_less_nat_alt u64_plus_no_wrap [OF assms(6)])

lemma remembered_until_witness:
  "\<exists>e'. approve asked_twice ''5-0001'' (Some 60) 9 = Inr e' \<and>
     trusted_here e' ''app'' Ping 68 \<and> \<not> trusted_here e' ''app'' Ping 69 \<and>
     \<not> trusted_here e' ''app'' Connect 10"
proof -
  have ix: "position (\<lambda>(k, _). k = ''5-0001'') (e_prompts asked_twice) = Some 0"
    by code_simp
  have at: "e_prompts asked_twice ! 0 = (''5-0001'', snd (e_prompts asked_twice ! 0))"
    by code_simp
  obtain e' where e': "approve asked_twice ''5-0001'' (Some 60) 9 = Inr e'"
    by (simp add: approve_def answer_found [OF ix at])
  have state: "pr_app (snd (e_prompts asked_twice ! 0)) = ''app''"
    "pr_method (snd (e_prompts asked_twice ! 0)) = Ping"
    "\<not> trusted_here asked_twice ''app'' Connect 10"
    by code_simp+
  show ?thesis
    using remembered_until [OF ix at e', of "''app''" Ping 68]
      remembered_until [OF ix at e', of "''app''" Ping 69]
      remembered_until [OF ix at e', of "''app''" Connect 10] state e' by auto
qed

lemma remember_key_starts: "CHR '':'' \<notin> set app \<Longrightarrow> CHR '':'' \<notin> set app' \<Longrightarrow>
    starts_with (app @ '':'') (remember_key app' m) \<longleftrightarrow> app = app'"
proof -
  assume c: "CHR '':'' \<notin> set app" "CHR '':'' \<notin> set app'"
  have "app = app'" if t: "remember_key app' m = (app @ '':'') @ t" for t
  proof -
    have "split_once '':'' (remember_key app' m) = Some (app, t)"
      unfolding t using split_once_char [OF c(1), of t] by simp
    moreover have "split_once '':'' (remember_key app' m) = Some (app', method_debug m)"
      using split_once_char [OF c(2), of "method_debug m"] by (simp add: remember_key_def)
    ultimately show ?thesis by simp
  qed
  then show ?thesis by (auto simp: starts_with_iff remember_key_def)
qed

lemma forget_trusted:
  assumes "hm_inv (e_remembered e)" "CHR '':'' \<notin> set app" "CHR '':'' \<notin> set app'"
  shows "trusted_here (forget_answers app e) app' m t =
    (app' \<noteq> app \<and> trusted_here e app' m t)"
  using assms remember_key_starts [OF assms(2,3), of m]
  by (auto simp: trusted_here_def forget_answers_def hm_simps split: option.split)

text \<open>
  Revocation has teeth and reaches no further: revoking a paired app with a working state
  directory leaves a tombstone a restarted engine still reads, erases every remembered answer of
  that app, and keeps the answers, the levels and the records of every other app.
\<close>

theorem revoked_app_loses_its_answers:
  assumes "find_app e app = Some p" "e_persists e" "e_disk_ok e"
    and "hm_inv (e_remembered e)" "CHR '':'' \<notin> set app" "CHR '':'' \<notin> set app'"
    and "revoke e app now = (b, e')"
  shows "b \<and>
    find_app (engine_new True True (e_disk_apps e') (e_disk_log e')) app =
      Some (p\<lparr>p_revoked_at := Some now\<rparr>) \<and>
    trusted_here e' app' m t = (app' \<noteq> app \<and> trusted_here e app' m t) \<and>
    (app' \<noteq> app \<longrightarrow> find_app e' app' = find_app e app') \<and>
    level_of e' app' = level_of e app'"
proof -
  let ?f = "\<lambda>p. p\<lparr>p_revoked_at := Some now\<rparr>"
  define e1 where "e1 = forget_answers app (change_app app ?f e)"
  have trust: "trusted_here e1 app' m t = (app' \<noteq> app \<and> trusted_here e app' m t)"
    using forget_trusted [of "change_app app ?f e" app app' m t] assms(4-6)
    by (simp add: e1_def trusted_here_def)
  have apps: "find_app e1 a = (if a = app then map_option ?f (find_app e a) else find_app e a)" for a
    by (simp add: e1_def find_app_change)
  obtain e2 where e2: "e' = persist_apps e2" "b" "e_apps e2 = e_apps e1"
    "e_remembered e2 = e_remembered e1" "e_persists e2" "e_disk_ok e2"
    using assms(1-3,7) by (auto simp: revoke_def Let_def e1_def split: if_splits)
  then have "e_disk_apps e' = Some (e_apps e1)" by (simp add: persist_apps_def)
  then have "find_app (engine_new True True (e_disk_apps e') (e_disk_log e')) a = find_app e1 a" for a
    by (simp add: engine_new_def find_app_def)
  moreover have "find_app e' a = find_app e1 a" for a
    by (simp add: e2 find_app_def)
  moreover have "trusted_here e' app' m t = trusted_here e1 app' m t"
    by (simp add: e2 trusted_here_def)
  ultimately show ?thesis
    using e2(2) trust apps assms(1) by (auto simp: level_of_def split: option.split)
qed

definition paired_on_disk :: engine where
  "paired_on_disk = pair_app (engine_new True True None None) ''app'' 5"

lemma revoked_app_loses_its_answers_witness:
  "fst (revoke paired_on_disk ''app'' 7) \<and>
   find_app (engine_new True True (e_disk_apps (snd (revoke paired_on_disk ''app'' 7)))
      (e_disk_log (snd (revoke paired_on_disk ''app'' 7)))) ''app'' =
     Some ((new_paired ''app'' 5 None None None None)\<lparr>p_revoked_at := Some 7\<rparr>)"
proof -
  have pre: "find_app paired_on_disk ''app'' = Some (new_paired ''app'' 5 None None None None)"
    "e_persists paired_on_disk" "e_disk_ok paired_on_disk" "hm_inv (e_remembered paired_on_disk)"
    "CHR '':'' \<notin> set ''app''"
    by code_simp+
  have split: "revoke paired_on_disk ''app'' 7 =
      (fst (revoke paired_on_disk ''app'' 7), snd (revoke paired_on_disk ''app'' 7))"
    by simp
  show ?thesis
    using revoked_app_loses_its_answers [OF pre pre(5) split] by simp
qed

text \<open>
  The activity log keeps its cap: through every history, whatever the requests and the
  socket verbs, the log never holds more than five hundred entries, once the file it was loaded
  from holds no more.
\<close>

theorem log_stays_capped:
  assumes "\<And>entries. l = Some entries \<Longrightarrow> length entries \<le> log_cap"
  shows "length (e_log (run_ops (policy_step C) (engine_new p d a l) evs)) \<le> log_cap"
proof -
  have "log_capped (engine_new p d a l)"
    using assms by (auto simp: log_capped_def engine_new_def log_cap_def split: option.split)
  then have "log_capped (run_ops (policy_step C) (engine_new p d a l) evs)"
    by (induction evs rule: rev_induct) (simp_all add: run_ops_append log_capped_step)
  then show ?thesis by (simp add: log_capped_def)
qed

lemma log_stays_capped_witness:
  "length (e_log (run_ops (policy_step demo_crate) (engine_new True True None None)
     [(OpNoted ''app'' ''m'' ''s'' ''v'', 5)])) \<le> log_cap"
  by (rule log_stays_capped) simp

text \<open>
  The pairing and the level check are two critical sections: when a delete (or the app's
  own logout) of the app lands between them, the check panics while it holds the lock, whatever
  the state was before; with nothing in between it never does.
\<close>

theorem delete_between_pair_and_gate_panics:
  "fst (decide_gate C (snd (delete_app (decide_pair e app t1) app t2)) app m ps t3) = GatePanic \<and>
   fst (decide_gate C (snd (logout (decide_pair e app t1) app t2)) app m ps t3) = GatePanic \<and>
   fst (decide_gate C (decide_pair e app t1) app m ps t3) \<noteq> GatePanic"
proof -
  have none: "find (\<lambda>p. p_pubkey p = app) (filter (\<lambda>p. p_pubkey p \<noteq> app) ps) = None" for ps
    by (induction ps) auto
  have "find_app (snd (delete_app e' app t2)) app = None"
    "find_app (snd (logout e' app t2)) app = None" for e'
    using none by (simp_all add: delete_app_def logout_def remove_app_def Let_def find_app_def)
  moreover obtain p where "find_app (decide_pair e app t1) app = Some p" by (rule paired_then)
  ultimately show ?thesis by (simp add: decide_gate_def Let_def)
qed

end
