(* ===== verification/Bunker.thy ===== *)
theory Bunker
  imports Replay Uris Policy
begin

text \<open>
  The bunker, \<open>src/nostr/bunker.rs\<close>: NIP-46 request events in, plans and response events
  out. \<open>plan\<close> is everything that is protocol, \<open>execute\<close> runs a decided method. The two
  clocks are arguments: \<open>now\<close> the wall clock in seconds, \<open>mt\<close> the monotonic clock in
  nanoseconds. The keys, the encryption and the message types of the \<open>nostr\<close> crate are the
  fields of \<open>C\<close>.
\<close>

record outstanding =
  os_secret :: string
  os_label :: "string option"

datatype plan =
    Ignore
  | Answer event
  | Paired event pubkey "client_meta option" "outstanding option" "string option"
  | RelaysServed event pubkey
  | Ended event pubkey
  | Shed pubkey
  | PlanAsk event string nmethod "string list"

record bunker =
  b_keys :: seckey
  b_sessions :: "pubkey set"
  b_secrets :: "outstanding list"
  b_revoked :: "pubkey set"
  b_relays :: "string list"
  b_refill :: rat
  b_burst :: rat
  b_rate :: "(pubkey \<times> bucket) list"
  b_replay :: replay

definition bunker_new :: "seckey \<Rightarrow> outstanding list \<Rightarrow> bunker" where
  "bunker_new keys secrets =
     \<lparr>b_keys = keys, b_sessions = {}, b_secrets = secrets, b_revoked = {}, b_relays = [],
      b_refill = rate_refill_per_sec, b_burst = rate_burst, b_rate = [], b_replay = replay_empty\<rparr>"

definition with_relays :: "bunker \<Rightarrow> string list \<Rightarrow> bunker" where
  "with_relays b relays = b\<lparr>b_relays := relays\<rparr>"

definition with_secrets :: "bunker \<Rightarrow> outstanding list \<Rightarrow> bunker" where
  "with_secrets b secrets = b\<lparr>b_secrets := secrets\<rparr>"

definition mark_revoked :: "bunker \<Rightarrow> pubkey \<Rightarrow> bunker" where
  "mark_revoked b app = b\<lparr>b_revoked := insert app (b_revoked b)\<rparr>"

definition mark_unrevoked :: "bunker \<Rightarrow> pubkey \<Rightarrow> bunker" where
  "mark_unrevoked b app = b\<lparr>b_revoked := b_revoked b - {app}\<rparr>"

definition seed :: "bunker \<Rightarrow> pubkey list \<Rightarrow> bunker" where
  "seed b apps = b\<lparr>b_sessions := b_sessions b \<union> set apps\<rparr>"

definition evict :: "crate \<Rightarrow> bunker \<Rightarrow> string \<Rightarrow> bunker" where
  "evict C b app =
     (case pk_parse C app of
        Inr pk \<Rightarrow> b\<lparr>b_sessions := b_sessions b - {pk}\<rparr> | Inl _ \<Rightarrow> b)"

definition is_paired :: "bunker \<Rightarrow> pubkey \<Rightarrow> bool" where
  "is_paired b app \<longleftrightarrow> app \<in> b_sessions b"

definition bunker_pubkey :: "crate \<Rightarrow> bunker \<Rightarrow> pubkey" where
  "bunker_pubkey C b = pub_of C (b_keys b)"

section \<open>Wrapping an answer\<close>

definition wrap :: "crate \<Rightarrow> bunker \<Rightarrow> pubkey \<Rightarrow> string \<Rightarrow> event option" where
  "wrap C b to message =
     (case nip44_enc C (b_keys b) to message of
        Inl _ \<Rightarrow> None
      | Inr content \<Rightarrow> ok (finalize C (b_keys b) 24133 content to))"

definition response_event :: "crate \<Rightarrow> bunker \<Rightarrow> event \<Rightarrow> string \<Rightarrow> nresponse \<Rightarrow> event option" where
  "response_event C b request i response = wrap C b (ev_pubkey request) (response_json C i response)"

definition raw_response :: "crate \<Rightarrow> bunker \<Rightarrow> event \<Rightarrow> string \<Rightarrow> string \<Rightarrow> event option" where
  "raw_response C b request i result = wrap C b (ev_pubkey request) (result_json C i result)"

definition or_ignore :: "event option \<Rightarrow> plan" where
  "or_ignore ans = (case ans of Some e \<Rightarrow> Answer e | None \<Rightarrow> Ignore)"

section \<open>Connecting\<close>

text \<open>
  Params are the user's key, the secret, the requested permissions and the client's metadata;
  a third param that opens a brace is metadata in the wrong place.
\<close>

definition requested_perms :: "string list \<Rightarrow> string option" where
  "requested_perms params =
     (case nth_opt params 2 of
        None \<Rightarrow> None
      | Some raw \<Rightarrow>
          (let trimmed = trim raw
           in if trimmed \<noteq> [] \<and> \<not> starts_with ''{'' trimmed then Some trimmed else None))"

definition connect_metadata :: "crate \<Rightarrow> string list \<Rightarrow> client_meta option" where
  "connect_metadata C params =
     (case client_meta_parse C (nth_opt params 3) of
        Some m \<Rightarrow> Some m | None \<Rightarrow> client_meta_parse C (nth_opt params 2))"

definition burn_at :: "bunker \<Rightarrow> pubkey \<Rightarrow> string option \<Rightarrow> nat option" where
  "burn_at b app secret =
     (case secret of
        Some provided \<Rightarrow>
          if is_paired b app then None
          else position (\<lambda>s. os_secret s = provided) (b_secrets b)
      | None \<Rightarrow> None)"

definition plan_connect ::
  "crate \<Rightarrow> bunker \<Rightarrow> event \<Rightarrow> string \<Rightarrow> string list \<Rightarrow> plan \<times> bunker" where
  "plan_connect C b ev i params =
     (let app = ev_pubkey ev; burn = burn_at b app (nth_opt params 1)
      in if app \<in> b_revoked b then
           (or_ignore (response_event C b ev i (with_error ''this app is revoked'')), b)
         else if \<not> is_paired b app \<and> burn = None then
           (or_ignore (response_event C b ev i
              (with_error ''the connect did not carry the secret the pairing URI carries'')), b)
         else
           (let b1 = b\<lparr>b_sessions := insert app (b_sessions b)\<rparr>
            in case response_event C b1 ev i (with_result RAck) of
                 Some ans \<Rightarrow>
                   (Paired ans app (connect_metadata C params)
                      (map_option (\<lambda>ix. b_secrets b1 ! ix) burn) (requested_perms params),
                    case burn of
                      Some ix \<Rightarrow> b1\<lparr>b_secrets := remove_at ix (b_secrets b1)\<rparr> | None \<Rightarrow> b1)
               | None \<Rightarrow> (Ignore, b1)))"

section \<open>Planning\<close>

definition plan_raw :: "crate \<Rightarrow> bunker \<Rightarrow> event \<Rightarrow> json \<Rightarrow> plan \<times> bunker" where
  "plan_raw C b ev v =
     (let app = ev_pubkey ev
      in case (as_str (jindex v ''id''), as_str (jindex v ''method'')) of
           (Some i, Some m) \<Rightarrow>
             if m = ''switch_relays'' then
               if \<not> is_paired b app then (Ignore, b)
               else (case strings_json C (b_relays b) of
                       None \<Rightarrow> (Ignore, b)
                     | Some relays \<Rightarrow>
                         (case raw_response C b ev i relays of
                            Some ans \<Rightarrow> (RelaysServed ans app, b) | None \<Rightarrow> (Ignore, b)))
             else if m = ''logout'' then
               (let paired = is_paired b app;
                    b1 = b\<lparr>b_sessions := b_sessions b - {app}\<rparr>
                in case raw_response C b1 ev i ''ack'' of
                     Some ans \<Rightarrow> (if paired then Ended ans app else Answer ans, b1)
                   | None \<Rightarrow> (Ignore, b1))
             else (Ignore, b)
         | _ \<Rightarrow> (Ignore, b))"

definition plan_method :: "crate \<Rightarrow> bunker \<Rightarrow> event \<Rightarrow> string \<Rightarrow> nmethod \<Rightarrow> string list \<Rightarrow> plan \<times> bunker" where
  "plan_method C b ev i m params =
     (case m of
        Connect \<Rightarrow> plan_connect C b ev i params
      | Ping \<Rightarrow> (or_ignore (response_event C b ev i (with_result RPong)), b)
      | _ \<Rightarrow>
          if \<not> is_paired b (ev_pubkey ev) then
            (or_ignore (response_event C b ev i (with_error ''this app is not paired'')), b)
          else (PlanAsk ev i m params, b))"

text \<open>What follows the gates: the plaintext's raw methods first, then the typed message.\<close>

definition plan_plain :: "crate \<Rightarrow> bunker \<Rightarrow> event \<Rightarrow> string \<Rightarrow> plan \<times> bunker" where
  "plan_plain C b ev plaintext =
     (case json_parse C plaintext of
        Inl _ \<Rightarrow> (Ignore, b)
      | Inr v \<Rightarrow>
          if as_str (jindex v ''method'') \<in> {Some ''switch_relays'', Some ''logout''} then plan_raw C b ev v
          else (case message_parse C plaintext of
                  Some (Request i m params) \<Rightarrow> plan_method C b ev i m params
                | _ \<Rightarrow> (Ignore, b)))"

definition plan :: "crate \<Rightarrow> bunker \<Rightarrow> event \<Rightarrow> u64 \<Rightarrow> nat \<Rightarrow> plan \<times> bunker" where
  "plan C b ev now mt =
     (if ev_kind ev \<noteq> 24133 \<or> \<not> List.member (ev_ptags ev) (bunker_pubkey C b) then (Ignore, b)
      else let (fresh, replay) = admit (b_replay b) ev now; b1 = b\<lparr>b_replay := replay\<rparr>
      in if \<not> fresh then (Ignore, b1)
      else let (room, rate) = admit_rate (b_refill b) (b_burst b) (b_rate b) (ev_pubkey ev) mt;
               b2 = b1\<lparr>b_rate := rate\<rparr>
      in if \<not> room then (Shed (ev_pubkey ev), b2)
      else case nip44_dec C (b_keys b) (ev_pubkey ev) (ev_content ev) of
             Inl _ \<Rightarrow> (Ignore, b2)
           | Inr plaintext \<Rightarrow> plan_plain C b2 ev plaintext)"

section \<open>Running a decided method\<close>

definition sign_kind :: "json \<Rightarrow> u16 option" where
  "sign_kind parsed =
     (case jget parsed ''kind'' of
        Some (JNumber n) \<Rightarrow> Option.bind (as_u64 (JNumber n)) u16_try_from
      | Some (JString s) \<Rightarrow> parse_u16 s
      | _ \<Rightarrow> None)"

definition sign_tags :: "crate \<Rightarrow> json \<Rightarrow> string + string list list" where
  "sign_tags C parsed =
     (case jget parsed ''tags'' of
        None \<Rightarrow> Inr []
      | Some v \<Rightarrow>
          (case json_string_lists v of
             None \<Rightarrow> Inl (''the event's tags do not parse: '' @ tags_json_error C v)
           | Some tags \<Rightarrow>
               (case tags_parse C tags of
                  Inl e \<Rightarrow> Inl (''the event's tags do not parse: '' @ e) | Inr ts \<Rightarrow> Inr ts)))"

definition run_sign_event :: "crate \<Rightarrow> bunker \<Rightarrow> string list \<Rightarrow> u64 \<Rightarrow> nresponse" where
  "run_sign_event C b params now =
     (case nth_opt params 0 of
        None \<Rightarrow> with_error ''sign_event wants an event''
      | Some js \<Rightarrow>
          (case json_parse C js of
             Inl e \<Rightarrow> with_error (''unreadable unsigned event: '' @ e)
           | Inr parsed \<Rightarrow>
               (case sign_kind parsed of
                  None \<Rightarrow> with_error ''the event carries no kind''
                | Some kind \<Rightarrow>
                    (let content = (case Option.bind (jget parsed ''content'') as_str of
                                      Some c \<Rightarrow> c | None \<Rightarrow> [])
                     in case sign_tags C parsed of
                          Inl e \<Rightarrow> with_error e
                        | Inr tags \<Rightarrow>
                            (let created = (case Option.bind (jget parsed ''created_at'') as_u64 of
                                              Some t \<Rightarrow> t | None \<Rightarrow> now)
                             in case sign_event C (b_keys b)
                                  \<lparr>un_pubkey = bunker_pubkey C b, un_created = created, un_kind = kind,
                                   un_tags = tags, un_content = content\<rparr> of
                                  Inr sg \<Rightarrow> with_result (RSignEvent sg)
                                | Inl e \<Rightarrow> with_error (''signing failed: '' @ e))))))"

definition third_party_crypto :: "crate \<Rightarrow> bunker \<Rightarrow> nmethod \<Rightarrow> string list \<Rightarrow> nresponse" where
  "third_party_crypto C b m params =
     (case params of
        [pk, payload] \<Rightarrow>
          (case pk_parse C pk of
             Inl e \<Rightarrow> with_error (''unreadable pubkey: '' @ e)
           | Inr peer \<Rightarrow>
               (let finish = (\<lambda>attempt tag. case attempt of
                      Inr t \<Rightarrow> with_result (tag t)
                    | Inl e \<Rightarrow> with_error (''the payload did not transform: '' @ e))
                in case m of
                     Nip04Encrypt \<Rightarrow> finish (nip04_enc C (b_keys b) peer payload) RNip04Encrypt
                   | Nip04Decrypt \<Rightarrow> finish (nip04_dec C (b_keys b) peer payload) RNip04Decrypt
                   | Nip44Encrypt \<Rightarrow> finish (nip44_enc C (b_keys b) peer payload) RNip44Encrypt
                   | Nip44Decrypt \<Rightarrow> finish (nip44_dec C (b_keys b) peer payload) RNip44Decrypt
                   | _ \<Rightarrow> with_error ''not a third-party crypto method''))
      | _ \<Rightarrow> with_error ''the method wants [pubkey, payload]'')"

definition run_method :: "crate \<Rightarrow> bunker \<Rightarrow> nmethod \<Rightarrow> string list \<Rightarrow> u64 \<Rightarrow> nresponse" where
  "run_method C b m params now =
     (case m of
        GetPublicKey \<Rightarrow> with_result (RGetPublicKey (bunker_pubkey C b))
      | SignEvent \<Rightarrow> run_sign_event C b params now
      | Nip04Encrypt \<Rightarrow> third_party_crypto C b m params
      | Nip04Decrypt \<Rightarrow> third_party_crypto C b m params
      | Nip44Encrypt \<Rightarrow> third_party_crypto C b m params
      | Nip44Decrypt \<Rightarrow> third_party_crypto C b m params
      | other \<Rightarrow> with_error (''the '' @ method_debug other @ '' method is not implemented''))"

definition execute ::
  "crate \<Rightarrow> bunker \<Rightarrow> event \<Rightarrow> string \<Rightarrow> nmethod \<Rightarrow> string list \<Rightarrow> decision \<Rightarrow> u64 \<Rightarrow> event option" where
  "execute C b request i m params d now =
     response_event C b request i
       (case d of Allow \<Rightarrow> run_method C b m params now | Deny reason \<Rightarrow> with_error reason)"

section \<open>The pairing a client starts\<close>

text \<open>
  The handshake's id is eight random bytes, an argument here. The session opens before the
  answer is wrapped, and stays when the wrap fails.
\<close>

datatype handshake_error = HsUri uri_error | HsWrap string

definition start_handshake ::
  "crate \<Rightarrow> bunker \<Rightarrow> string \<Rightarrow> string \<Rightarrow> (handshake_error + event \<times> nostr_connect_parts) \<times> bunker" where
  "start_handshake C b i uri =
     (case parse_nostrconnect_uri C uri of
        Inl e \<Rightarrow> (Inl (HsUri e), b)
      | Inr parts \<Rightarrow>
          (let client = nc_client_pubkey parts;
               b1 = b\<lparr>b_sessions := insert client (b_sessions b)\<rparr>
           in case nip44_enc C (b_keys b) client (result_json C i (nc_secret parts)) of
                Inl e \<Rightarrow> (Inl (HsWrap e), b1)
              | Inr content \<Rightarrow>
                  (case finalize C (b_keys b) 24133 content client of
                     Inl e \<Rightarrow> (Inl (HsWrap e), b1) | Inr ev \<Rightarrow> (Inr (ev, parts), b1))))"

definition handshake_id :: "string \<Rightarrow> string" where
  "handshake_id bytes = concat (map (show_hex2 False) bytes)"

section \<open>What a plan changes\<close>

text \<open>The gates leave the pairing state alone; all that follows them is \<open>plan_plain\<close>.\<close>

definition same_pairing :: "bunker \<Rightarrow> bunker \<Rightarrow> bool" where
  "same_pairing b b' \<longleftrightarrow> b_keys b' = b_keys b \<and> b_sessions b' = b_sessions b \<and>
     b_secrets b' = b_secrets b \<and> b_revoked b' = b_revoked b \<and> b_relays b' = b_relays b"

lemma same_pairing_simps:
  assumes "same_pairing b b'"
  shows "b_keys b' = b_keys b" "b_sessions b' = b_sessions b" "b_secrets b' = b_secrets b"
    "b_revoked b' = b_revoked b" "b_relays b' = b_relays b" "is_paired b' a = is_paired b a"
    "bunker_pubkey C b' = bunker_pubkey C b" "wrap C b' p m = wrap C b p m"
    "response_event C b' ev i r = response_event C b ev i r"
    "raw_response C b' ev i s = raw_response C b ev i s" "burn_at b' a o' = burn_at b a o'"
  using assms by (simp_all add: same_pairing_def is_paired_def bunker_pubkey_def wrap_def
      response_event_def raw_response_def burn_at_def split: sum.split option.split)

lemma plan_cases:
  obtains (quiet) b1 where "same_pairing b b1"
      "plan C b ev now mt = (Ignore, b1) \<or> plan C b ev now mt = (Shed (ev_pubkey ev), b1)"
  | (planned) b1 plaintext where "same_pairing b b1" "ev_kind ev = 24133"
      "bunker_pubkey C b \<in> set (ev_ptags ev)" "fst (admit (b_replay b) ev now)"
      "nip44_dec C (b_keys b) (ev_pubkey ev) (ev_content ev) = Inr plaintext"
      "plan C b ev now mt = plan_plain C b1 ev plaintext"
proof -
  obtain fresh replay where a: "admit (b_replay b) ev now = (fresh, replay)" by fastforce
  let ?b1 = "b\<lparr>b_replay := replay\<rparr>"
  obtain room rate where r:
    "admit_rate (b_refill b) (b_burst b) (b_rate b) (ev_pubkey ev) mt = (room, rate)" by fastforce
  let ?b2 = "?b1\<lparr>b_rate := rate\<rparr>"
  have same: "same_pairing b b" "same_pairing b ?b1" "same_pairing b ?b2"
    by (simp_all add: same_pairing_def)
  consider "ev_kind ev \<noteq> 24133 \<or> bunker_pubkey C b \<notin> set (ev_ptags ev)"
    | "ev_kind ev = 24133" "bunker_pubkey C b \<in> set (ev_ptags ev)" "\<not> fresh"
    | "ev_kind ev = 24133" "bunker_pubkey C b \<in> set (ev_ptags ev)" "fresh" "\<not> room"
    | (dec) "ev_kind ev = 24133" "bunker_pubkey C b \<in> set (ev_ptags ev)" "fresh" "room" by blast
  then show thesis
  proof cases
    case 1
    then show thesis by (intro quiet [OF same(1)]) (auto simp: plan_def)
  next
    case 2
    then show thesis by (intro quiet [OF same(2)]) (simp add: plan_def a)
  next
    case 3
    then show thesis by (intro quiet [OF same(3)]) (simp add: plan_def a r)
  next
    case dec
    show thesis
    proof (cases "nip44_dec C (b_keys b) (ev_pubkey ev) (ev_content ev)")
      case (Inl e)
      with dec show thesis by (intro quiet [OF same(3)]) (simp add: plan_def a r)
    next
      case (Inr plaintext)
      with dec a r show thesis by (intro planned [OF same(3)]) (simp_all add: plan_def)
    qed
  qed
qed

text \<open>A plain-text plan, by what it answers.\<close>

definition plan_ok :: "crate \<Rightarrow> bunker \<Rightarrow> event \<Rightarrow> plan \<times> bunker \<Rightarrow> bool" where
  "plan_ok C b ev r \<longleftrightarrow>
     (case r of (p, b') \<Rightarrow>
        b_keys b' = b_keys b \<and> b_revoked b' = b_revoked b \<and> b_relays b' = b_relays b \<and>
        b_sessions b' - {ev_pubkey ev} = b_sessions b - {ev_pubkey ev} \<and>
        (case p of
           Paired a app m burned ps \<Rightarrow> app = ev_pubkey ev \<and> app \<notin> b_revoked b \<and>
             b_sessions b' = insert app (b_sessions b) \<and>
             (case burned of
                None \<Rightarrow> app \<in> b_sessions b \<and> b_secrets b' = b_secrets b
              | Some o' \<Rightarrow> app \<notin> b_sessions b \<and> o' \<in> set (b_secrets b) \<and>
                  mset (b_secrets b) = add_mset o' (mset (b_secrets b')))
         | PlanAsk e i m ps \<Rightarrow> e = ev \<and> ev_pubkey ev \<in> b_sessions b \<and>
             b_sessions b' = b_sessions b \<and> b_secrets b' = b_secrets b
         | RelaysServed a app \<Rightarrow> app = ev_pubkey ev \<and> app \<in> b_sessions b \<and>
             b_sessions b' = b_sessions b \<and> b_secrets b' = b_secrets b
         | Ended a app \<Rightarrow> app = ev_pubkey ev \<and> app \<in> b_sessions b \<and>
             b_sessions b' = b_sessions b - {app} \<and> b_secrets b' = b_secrets b
         | _ \<Rightarrow> b_secrets b' = b_secrets b \<and>
             (ev_pubkey ev \<in> b_revoked b \<longrightarrow> b_sessions b' \<subseteq> b_sessions b)))"

lemma or_ignore_cases: "or_ignore x = Ignore \<or> (\<exists>e. or_ignore x = Answer e)"
  by (auto simp: or_ignore_def split: option.split)

lemma plan_ok_same: "p = Ignore \<or> (\<exists>e. p = Answer e) \<or> (\<exists>a. p = Shed a) \<Longrightarrow> plan_ok C b ev (p, b)"
  by (auto simp: plan_ok_def)

lemma plan_ok_or_ignore: "plan_ok C b ev (or_ignore x, b)"
  using or_ignore_cases [of x] by (intro plan_ok_same) auto

lemma burn_at_Some: "burn_at b app s = Some ix \<Longrightarrow> ix < length (b_secrets b) \<and> app \<notin> b_sessions b"
  by (auto simp: burn_at_def is_paired_def dest: position_Some split: option.splits if_splits)

lemma plan_ok_connect: "plan_ok C b ev (plan_connect C b ev i params)"
proof -
  let ?app = "ev_pubkey ev" and ?burn = "burn_at b (ev_pubkey ev) (nth_opt params 1)"
  let ?b1 = "b\<lparr>b_sessions := insert ?app (b_sessions b)\<rparr>"
  consider "?app \<in> b_revoked b" | "?app \<notin> b_revoked b" "\<not> is_paired b ?app" "?burn = None"
    | (go) "?app \<notin> b_revoked b" "is_paired b ?app \<or> ?burn \<noteq> None" by blast
  then show ?thesis
  proof cases
    case 1
    then show ?thesis by (simp add: plan_connect_def Let_def plan_ok_or_ignore)
  next
    case 2
    then show ?thesis by (simp add: plan_connect_def Let_def plan_ok_or_ignore)
  next
    case go
    show ?thesis
    proof (cases "response_event C ?b1 ev i (with_result RAck)")
      case None
      with go show ?thesis by (auto simp: plan_connect_def Let_def plan_ok_def)
    next
      case (Some ans)
      show ?thesis
      proof (cases ?burn)
        case None
        with go Some show ?thesis
          by (auto simp: plan_connect_def Let_def plan_ok_def is_paired_def)
      next
        case (Some ix)
        with go \<open>response_event C ?b1 ev i _ = _\<close> burn_at_Some [OF Some]
          mset_remove_at [of ix "b_secrets b"] show ?thesis
          by (auto simp: plan_connect_def Let_def plan_ok_def)
      qed
    qed
  qed
qed

lemma plan_ok_raw: "plan_ok C b ev (plan_raw C b ev v)"
  by (auto simp: plan_raw_def Let_def plan_ok_def is_paired_def split: option.split)

lemma plan_ok_method: "plan_ok C b ev (plan_method C b ev i m params)"
  by (cases m) (auto simp: plan_method_def plan_ok_connect plan_ok_or_ignore,
      auto simp: plan_ok_def is_paired_def)

lemma plan_ok_plain: "plan_ok C b ev (plan_plain C b ev plaintext)"
  by (auto simp: plan_plain_def plan_ok_raw plan_ok_method plan_ok_same
      split: sum.split option.split nmessage.split)

lemma plan_ok_plan: "plan_ok C b ev (plan C b ev now mt)"
proof (cases rule: plan_cases [of b C ev now mt])
  case (quiet b1)
  then show ?thesis by (auto simp: plan_ok_def same_pairing_def)
next
  case (planned b1 plaintext)
  have "plan_ok C b1 ev (plan C b ev now mt)" unfolding planned(6) by (rule plan_ok_plain)
  with planned(1) show ?thesis
    by (cases "plan C b ev now mt"; cases "fst (plan C b ev now mt)")
      (auto simp: plan_ok_def same_pairing_def split: option.splits)
qed

section \<open>Properties\<close>

text \<open>A run of plans, with what each answered.\<close>

fun plan_run :: "crate \<Rightarrow> bunker \<Rightarrow> (event \<times> u64 \<times> nat) list \<Rightarrow> plan list \<times> bunker" where
  "plan_run C b [] = ([], b)"
| "plan_run C b ((ev, now, mt) # es) =
     (let (p, b1) = plan C b ev now mt; (ps, b2) = plan_run C b1 es in (p # ps, b2))"

definition burned_of :: "plan \<Rightarrow> outstanding list" where
  "burned_of p = (case p of Paired _ _ _ (Some o') _ \<Rightarrow> [o'] | _ \<Rightarrow> [])"

lemma plan_burns:
  "plan C b ev now mt = (p, b1) \<Longrightarrow> mset (b_secrets b) = mset (burned_of p) + mset (b_secrets b1)"
  using plan_ok_plan [of C b ev now mt]
  by (cases p) (auto simp: plan_ok_def burned_of_def split: option.splits)

text \<open>
  C3. A secret pairs once: over any run of requests, from anyone and in any order, the secrets
  that paired an app and the secrets still outstanding are together exactly the secrets the
  bunker started with. No secret pairs twice, none is lost and none appears.
\<close>

theorem secrets_are_spent_once:
  assumes "plan_run C b es = (ps, b')"
  shows "mset (b_secrets b) = mset (concat (map burned_of ps)) + mset (b_secrets b')"
  using assms
proof (induction es arbitrary: b ps)
  case Nil
  then show ?case by simp
next
  case (Cons e es)
  obtain ev now mt where e: "e = (ev, now, mt)" by (cases e)
  obtain p b1 where p: "plan C b ev now mt = (p, b1)" by fastforce
  obtain ps' where ps': "plan_run C b1 es = (ps', b')" "ps = p # ps'"
    using Cons.prems by (auto simp: e p split: prod.splits)
  from plan_burns [OF p] Cons.IH [OF ps'(1)] ps'(2) show ?case by (simp add: ac_simps)
qed

definition demo_bunker :: bunker where
  "demo_bunker = bunker_new ''s'' [\<lparr>os_secret = ''s3cret'', os_label = None\<rparr>]"

definition connect_request :: "string \<Rightarrow> pubkey \<Rightarrow> u64 \<Rightarrow> event" where
  "connect_request i app t = demo_event i app t 24133 [''pubs''] ''connect''"

lemma secrets_are_spent_once_witness:
  "mset (b_secrets demo_bunker) =
    mset (concat (map burned_of (fst (plan_run demo_crate demo_bunker
      [(connect_request ''1'' ''app'' 1000, 1001, 0), (connect_request ''2'' ''evil'' 1000, 1002, 5)])))) +
    mset (b_secrets (snd (plan_run demo_crate demo_bunker
      [(connect_request ''1'' ''app'' 1000, 1001, 0), (connect_request ''2'' ''evil'' 1000, 1002, 5)])))"
  by (rule secrets_are_spent_once) (rule prod.collapse [symmetric])

lemma paired_by_connect:
  assumes "plan_plain C b ev plaintext = (Paired a app m burned ps, b')"
  shows "\<exists>i params. message_parse C plaintext = Some (Request i Connect params) \<and>
    burned = map_option ((!) (b_secrets b)) (burn_at b app (nth_opt params 1)) \<and> app = ev_pubkey ev \<and>
    app \<notin> b_revoked b"
proof -
  have raw: "plan_raw C b ev v \<noteq> (Paired a app m burned ps, b')" for v
    by (auto simp: plan_raw_def Let_def split: option.split)
  obtain i meth params where msg: "message_parse C plaintext = Some (Request i meth params)"
    "plan_method C b ev i meth params = (Paired a app m burned ps, b')"
    using assms raw by (auto simp: plan_plain_def split: sum.splits option.splits nmessage.splits if_splits)
  have conn: "meth = Connect"
    using msg(2) or_ignore_cases by (cases meth) (auto simp: plan_method_def or_ignore_def split: if_splits option.splits)
  have "plan_connect C b ev i params = (Paired a app m burned ps, b')"
    using msg(2) by (simp add: conn plan_method_def)
  then show ?thesis
    using msg(1) or_ignore_cases
    by (auto simp: conn plan_connect_def Let_def or_ignore_def split: if_splits option.splits)
qed

text \<open>
  C7. Only a live secret opens a door: when a connect pairs an app the bunker has no session
  of, the request's second parameter is the text of an outstanding secret, that secret is the one
  burned, and the app is not revoked.
\<close>

theorem pairing_takes_a_live_secret:
  assumes "plan C b ev now mt = (Paired a app m burned ps, b')" "app \<notin> b_sessions b"
  shows "app = ev_pubkey ev \<and> app \<notin> b_revoked b \<and>
    (\<exists>plaintext i params s. nip44_dec C (b_keys b) app (ev_content ev) = Inr plaintext \<and>
       message_parse C plaintext = Some (Request i Connect params) \<and>
       burned = Some s \<and> s \<in> set (b_secrets b) \<and> nth_opt params 1 = Some (os_secret s))"
proof (cases rule: plan_cases [of b C ev now mt])
  case (quiet b1)
  with assms show ?thesis by auto
next
  case (planned b1 plaintext)
  from planned(6) assms(1) have "plan_plain C b1 ev plaintext = (Paired a app m burned ps, b')" by simp
  from paired_by_connect [OF this] obtain i params where
    c: "message_parse C plaintext = Some (Request i Connect params)" "app = ev_pubkey ev"
      "burned = map_option ((!) (b_secrets b)) (burn_at b app (nth_opt params 1))" "app \<notin> b_revoked b"
    using same_pairing_simps [OF planned(1)] by auto
  have "burned \<noteq> None"
    using plan_ok_plan [of C b ev now mt] assms by (auto simp: plan_ok_def)
  then obtain ix where ix: "burn_at b app (nth_opt params 1) = Some ix" "burned = Some (b_secrets b ! ix)"
    using c(3) by auto
  then obtain provided where "nth_opt params 1 = Some provided"
    "position (\<lambda>s. os_secret s = provided) (b_secrets b) = Some ix"
    by (auto simp: burn_at_def split: option.splits if_splits)
  note found = this
  have "b_secrets b ! ix \<in> set (b_secrets b)" "os_secret (b_secrets b ! ix) = provided"
    using position_Some [OF found(2)] by auto
  with found(1) c planned(5) ix(2) show ?thesis by blast
qed

definition demo_paired :: "plan \<times> bunker" where
  "demo_paired = plan demo_crate demo_bunker (connect_request ''1'' ''app'' 1000) 1001 0"

lemma demo_paired_value:
  "fst demo_paired = Paired (demo_event ''out'' ''pubs'' 0 24133 [''app''] ''1'') ''app'' None
     (Some \<lparr>os_secret = ''s3cret'', os_label = None\<rparr>) None"
  by code_simp

lemma demo_paired_plan:
  "plan demo_crate demo_bunker (connect_request ''1'' ''app'' 1000) 1001 0 =
     (Paired (demo_event ''out'' ''pubs'' 0 24133 [''app''] ''1'') ''app'' None
       (Some \<lparr>os_secret = ''s3cret'', os_label = None\<rparr>) None, snd demo_paired)"
  by (simp flip: demo_paired_value) (simp add: demo_paired_def)

lemma pairing_takes_a_live_secret_witness:
  "\<exists>plaintext i params s. nip44_dec demo_crate ''s'' ''app'' ''connect'' = Inr plaintext \<and>
     message_parse demo_crate plaintext = Some (Request i Connect params) \<and>
     s \<in> set (b_secrets demo_bunker) \<and> nth_opt params 1 = Some (os_secret s)"
proof -
  have "''app'' \<notin> b_sessions demo_bunker" by code_simp
  moreover have "b_keys demo_bunker = ''s''"
    "ev_content (connect_request ''1'' ''app'' 1000) = ''connect''" by code_simp+
  ultimately show ?thesis
    using pairing_takes_a_live_secret [OF demo_paired_plan] by fastforce
qed

text \<open>The app a plan serves, acts for or removes, when it does.\<close>

fun served_app :: "plan \<Rightarrow> pubkey option" where
  "served_app (Paired _ app _ _ _) = Some app"
| "served_app (PlanAsk ev _ _ _) = Some (ev_pubkey ev)"
| "served_app (RelaysServed _ app) = Some app"
| "served_app (Ended _ app) = Some app"
| "served_app _ = None"

lemma plan_served:
  assumes "plan C b ev now mt = (p, b')"
  shows "b_revoked b' = b_revoked b" "b_keys b' = b_keys b"
    and "q \<noteq> ev_pubkey ev \<Longrightarrow> q \<in> b_sessions b' \<longleftrightarrow> q \<in> b_sessions b"
    and "served_app p = Some a \<Longrightarrow> a = ev_pubkey ev \<and> (a \<in> b_sessions b \<or> a \<notin> b_revoked b)"
    and "ev_pubkey ev \<in> b_revoked b \<Longrightarrow> b_sessions b' \<subseteq> b_sessions b"
  using plan_ok_plan [of C b ev now mt] assms
  by (cases p; auto simp: plan_ok_def split: option.splits)+

text \<open>
  C8. Revocation has teeth: an app that is tombstoned and has no session is refused whatever it
  carries. Over any run of requests, from it and from anyone else, no plan pairs it, asks for
  it, serves it relays or ends it, and it never regains a session.
\<close>

theorem revoked_app_stays_out:
  assumes "plan_run C b es = (ps, b')" "app \<in> b_revoked b" "app \<notin> b_sessions b"
  shows "app \<notin> b_sessions b' \<and> Some app \<notin> served_app ` set ps"
  using assms
proof (induction es arbitrary: b ps)
  case Nil
  then show ?case by simp
next
  case (Cons e es)
  obtain ev now mt where e: "e = (ev, now, mt)" by (cases e)
  obtain p b1 where p: "plan C b ev now mt = (p, b1)" by fastforce
  obtain ps' where ps': "plan_run C b1 es = (ps', b')" "ps = p # ps'"
    using Cons.prems by (auto simp: e p split: prod.splits)
  have "app \<notin> b_sessions b1"
    using plan_served(3) [OF p, of app] plan_served(5) [OF p] Cons.prems(2,3)
    by (cases "app = ev_pubkey ev") auto
  moreover have "served_app p \<noteq> Some app"
    using plan_served(4) [OF p, of app] Cons.prems(2,3) by auto
  ultimately show ?case
    using Cons.IH [OF ps'(1)] Cons.prems(2) plan_served(1) [OF p] ps'(2) by auto
qed

lemma revoked_app_stays_out_witness:
  "''app'' \<notin> b_sessions (snd (plan_run demo_crate (mark_revoked demo_bunker ''app'')
      [(connect_request ''1'' ''app'' 1000, 1001, 0)])) \<and>
   Some ''app'' \<notin> served_app ` set (fst (plan_run demo_crate (mark_revoked demo_bunker ''app'')
      [(connect_request ''1'' ''app'' 1000, 1001, 0)]))"
  by (rule revoked_app_stays_out [OF prod.collapse [symmetric]]) code_simp+

text \<open>
  A request reaches no further than its sender: whatever it carries, planning it keeps every
  other app's session, every tombstone and the key, and what it serves, asks or removes is its
  sender's own. Asking, serving relays and ending are for a sender with a session only.
\<close>

theorem plan_is_self_scoped:
  assumes "plan C b ev now mt = (p, b')"
  shows "b_sessions b' - {ev_pubkey ev} = b_sessions b - {ev_pubkey ev} \<and>
    b_revoked b' = b_revoked b \<and> b_keys b' = b_keys b \<and>
    (case p of
       PlanAsk e i m ps \<Rightarrow> e = ev \<and> ev_pubkey ev \<in> b_sessions b
     | RelaysServed e app \<Rightarrow> app = ev_pubkey ev \<and> app \<in> b_sessions b
     | Ended e app \<Rightarrow> app = ev_pubkey ev \<and> app \<in> b_sessions b \<and> app \<notin> b_sessions b'
     | Paired e app m burned ps \<Rightarrow> app = ev_pubkey ev \<and> app \<in> b_sessions b'
     | _ \<Rightarrow> b_secrets b' = b_secrets b)"
  using plan_ok_plan [of C b ev now mt] assms
  by (cases p) (auto simp: plan_ok_def split: option.splits)

lemma plan_is_self_scoped_witness:
  "b_sessions (snd demo_paired) - {''app''} = b_sessions demo_bunker - {''app''}"
  using plan_is_self_scoped [OF demo_paired_plan]
  by (simp add: connect_request_def demo_event_def)

section \<open>What is signed\<close>

lemma ucast16_64: "(ucast (ucast (k :: u16) :: u64) :: u16) = k"
  by (rule bit_word_eqI) (simp add: bit_simps)

lemma ucast64_16: "x < 65536 \<Longrightarrow> (ucast (ucast (x :: u64) :: u16) :: u64) = x"
proof -
  assume "x < 65536"
  then have "take_bit 16 (unat x) = unat x" by (simp add: word_less_nat_alt take_bit_nat_eq_self)
  then show ?thesis by (simp add: word_unat_eq_iff unsigned_ucast_eq unsigned_take_bit_eq)
qed

lemma of_nat_ucast: "n < 65536 \<Longrightarrow> (of_nat n :: u64) = ucast (of_nat n :: u16)"
  by (simp add: word_unat_eq_iff unsigned_ucast_eq unsigned_of_nat take_bit_nat_eq_self)

lemma parse_u16_u64: "parse_u16 s = Some k \<Longrightarrow> parse_u64 s = Some (ucast k)"
  by (auto simp: parse_u16_def parse_u64_def parse_below_def Let_def of_nat_ucast split: if_splits)

lemma sign_kind_event_kind:
  assumes "json_parse C js = Inr parsed" "sign_kind parsed = Some k"
  shows "event_kind C js = Some (ucast k)"
proof (cases "jget parsed ''kind''")
  case (Some v)
  show ?thesis
  proof (cases v)
    case (JNumber n)
    with Some assms obtain x where x: "as_u64 (JNumber n) = Some x" "u16_try_from x = Some k"
      by (auto simp: sign_kind_def bind_eq_Some_conv)
    then have "x < 65536" "k = ucast x" by (auto simp: u16_try_from_def split: if_splits)
    then have "x = ucast k" using ucast64_16 by simp
    with x Some JNumber assms show ?thesis by (simp add: event_kind_def)
  next
    case (JString s)
    with Some assms parse_u16_u64 show ?thesis by (simp add: sign_kind_def event_kind_def)
  qed (use Some assms in \<open>simp_all add: sign_kind_def\<close>)
qed (use assms in \<open>simp add: sign_kind_def\<close>)

text \<open>
  C10. What is signed is what was shown: when a sign request is run and a signed event comes
  back, it is the signature, under the bunker's own key, of an event whose kind is the kind the
  prompt and the sensitivity check read from the same parameter, whose content is the content the
  prompt shows, and whose author is the bunker.
\<close>

theorem signed_is_what_was_shown:
  assumes "run_method C b SignEvent (js # ps) now = with_result (RSignEvent sg)"
  shows "\<exists>u. sign_event C (b_keys b) u = Inr sg \<and> un_pubkey u = bunker_pubkey C b \<and>
    event_kind C js = Some (ucast (un_kind u)) \<and>
    un_content u = (case event_content C js of Some c \<Rightarrow> c | None \<Rightarrow> []) \<and>
    is_sensitive C SignEvent (js # ps) = (un_kind u \<notin> set safe_kinds)"
proof -
  have "nth_opt (js # ps) 0 = Some js" by (simp add: nth_opt_def)
  with assms obtain parsed k tags u where
    u: "json_parse C js = Inr parsed" "sign_kind parsed = Some k" "sign_tags C parsed = Inr tags"
      "sign_event C (b_keys b) u = Inr sg" "un_pubkey u = bunker_pubkey C b" "un_kind u = k"
      "un_content u = (case Option.bind (jget parsed ''content'') as_str of Some c \<Rightarrow> c | None \<Rightarrow> [])"
    by (auto simp: run_method_def run_sign_event_def Let_def split: sum.splits option.splits)
  have kind: "event_kind C js = Some (ucast k)" by (rule sign_kind_event_kind [OF u(1,2)])
  have "is_sensitive C SignEvent (js # ps) = (k \<notin> set safe_kinds)"
    using kind by (simp add: nth_opt_def ucast16_64)
  with u kind show ?thesis by (auto simp: event_content_def)
qed

lemma signed_is_what_was_shown_witness:
  "run_method demo_crate demo_bunker SignEvent [''kind1''] 9 =
     with_result (RSignEvent (demo_event ''signed'' ''pubs'' 9 1 [] [])) \<and>
   is_sensitive demo_crate SignEvent [''kind1''] = False"
proof -
  have run: "run_method demo_crate demo_bunker SignEvent [''kind1''] 9 =
     with_result (RSignEvent (demo_event ''signed'' ''pubs'' 9 1 [] []))" by code_simp
  have kind: "event_kind demo_crate ''kind1'' = Some 1" by code_simp
  obtain u :: unsigned_event where u: "event_kind demo_crate ''kind1'' = Some (ucast (un_kind u))"
    "is_sensitive demo_crate SignEvent [''kind1''] = (un_kind u \<notin> set safe_kinds)"
    using signed_is_what_was_shown [OF run] by blast
  then have "un_kind u = 1" using kind ucast16_64 [of "un_kind u"] by simp
  with u(2) run show ?thesis by (simp add: safe_kinds_def)
qed

text \<open>
  Unattended, only the safe list is signed: when the gate lets a sign request of an app at
  Basic through without asking and without a remembered answer, an event that comes back signed
  has one of the safe kinds. (The check reads the kind as 64 bits and compares its low 16; the
  signer refuses a kind above 16 bits, so no kind off the list slips through.)
\<close>

theorem unattended_basic_signs_safe_kinds:
  assumes "fst (decide C e app SignEvent (js # ps) t) = Now Allow"
    and "level_of e app = Basic" "\<not> trusted_here e app SignEvent t"
    and "run_method C b SignEvent (js # ps) now = with_result (RSignEvent sg)"
  shows "\<exists>u. sign_event C (b_keys b) u = Inr sg \<and> un_kind u \<in> set safe_kinds"
proof -
  have safe: "\<not> is_sensitive C SignEvent (js # ps)"
  proof -
    obtain p where p: "find_app (decide_pair e app t) app = Some p" "p_level p = level_of e app"
      "e_remembered (decide_pair e app t) = e_remembered e" by (rule paired_then)
    then show ?thesis
      using assms(1-3) by (auto simp: decide_def decide_gate_def trusted_here_def Let_def split: if_splits prod.splits)
  qed
  have "nth_opt (js # ps) 0 = Some js" by (simp add: nth_opt_def)
  with assms(4) obtain parsed k u where
    u: "json_parse C js = Inr parsed" "sign_kind parsed = Some k"
      "sign_event C (b_keys b) u = Inr sg" "un_kind u = k"
    by (auto simp: run_method_def run_sign_event_def Let_def split: sum.splits option.splits)
  have "event_kind C js = Some (ucast k)" by (rule sign_kind_event_kind [OF u(1,2)])
  with safe u(3,4) show ?thesis by (auto simp: nth_opt_def ucast16_64)
qed

definition basic_engine :: engine where
  "basic_engine = ok_or (engine_new False True None None)
     (set_level (pair_app (engine_new False True None None) ''app'' 5) ''app'' Basic)"

lemma unattended_basic_signs_safe_kinds_witness:
  "\<exists>u. sign_event demo_crate (b_keys demo_bunker) u =
     Inr (demo_event ''signed'' ''pubs'' 9 1 [] []) \<and> un_kind u \<in> set safe_kinds"
  by (rule unattended_basic_signs_safe_kinds [where e = basic_engine and app = "''app''"
        and js = "''kind1''" and ps = "[]" and t = 6 and now = 9]) code_simp+

end
