(* ===== verification/Vault.thy ===== *)
theory Vault
  imports Uris Bunker
begin

text \<open>
  The vault, \<open>src/nostr/vault.rs\<close>, and the key material, \<open>src/nostr/keys.rs\<close>: where
  the signer's key and the outstanding pairing secrets live. The store is an interface
  (\<open>SecretStore\<close>, the locale \<open>secret_store\<close>) the in-memory store provides; the blob's
  serialisation, the key formats and NIP-49 are the crates' and are fields of \<open>keycrate\<close>. A
  draw from the system's randomness is an argument: the bytes, or none when it fails.
\<close>

section \<open>Key material\<close>

record blob =
  bl_v :: u8
  bl_wrap :: string
  bl_ncryptsec :: string
  bl_pubkey :: string
  bl_secrets :: "string list"
  bl_labels :: "(string \<times> string) list"

text \<open>What the crates do: keys from text, NIP-49 wrapping, and the blob's serialisation.\<close>

record keycrate =
  sk_parse :: "string \<Rightarrow> seckey option"
  sk_mnemonic :: "string \<Rightarrow> string + seckey"
  sk_pubkey :: "seckey \<Rightarrow> pubkey"
  nc_parse :: "string \<Rightarrow> string + string"
  nc_open :: "string \<Rightarrow> string \<Rightarrow> string + seckey"
  nc_wrap :: "seckey \<Rightarrow> string \<Rightarrow> u8 \<Rightarrow> string + string"
  nc_bech32 :: "string \<Rightarrow> string + string"
  alphabetic :: "string \<Rightarrow> bool"
  blob_parse :: "string \<Rightarrow> string + blob"
  blob_bytes :: "blob \<Rightarrow> string"
  raw_json :: "string \<Rightarrow> string + json"
  pubkey_parse :: "string \<Rightarrow> string + pubkey"

text \<open>\<open>split_whitespace().count()\<close>: how many words, separated by white space, a text has.\<close>

definition ws_bytes :: "string list" where
  "ws_bytes = map (map char_of) white_spaces"

definition at_space :: "string \<Rightarrow> nat option" where
  "at_space s = map_option length (find (\<lambda>w. w \<noteq> [] \<and> starts_with w s) ws_bytes)"

text \<open>The flag says whether the text before is inside a word; \<open>n\<close> bytes of a space are skipped.\<close>

fun count_words :: "bool \<Rightarrow> nat \<Rightarrow> string \<Rightarrow> nat" where
  "count_words inside n [] = 0"
| "count_words inside (Suc n) (c # cs) = count_words False n cs"
| "count_words inside 0 (c # cs) =
     (case at_space (c # cs) of
        Some k \<Rightarrow> count_words False (k - 1) cs
      | None \<Rightarrow> (if inside then 0 else 1) + count_words True 0 cs)"

definition from_mnemonic :: "keycrate \<Rightarrow> string \<Rightarrow> string + seckey" where
  "from_mnemonic K phrase =
     (let words = count_words False 0 phrase
      in if words \<noteq> 12 \<and> words \<noteq> 24 then Inl (''a mnemonic is 12 or 24 words, got '' @ show_nat words)
         else (case sk_mnemonic K phrase of
                 Inl e \<Rightarrow> Inl (''mnemonic rejected: '' @ e) | Inr key \<Rightarrow> Inr key))"

definition import_key :: "keycrate \<Rightarrow> string \<Rightarrow> string + seckey" where
  "import_key K raw =
     (let t = trim raw
      in case sk_parse K t of
           Some key \<Rightarrow> Inr key
         | None \<Rightarrow>
             if 1 < count_words False 0 t then from_mnemonic K t
             else Inl ''not an nsec, not hex, and not a mnemonic'')"

definition decrypt_ncryptsec :: "keycrate \<Rightarrow> string \<Rightarrow> string \<Rightarrow> string + seckey" where
  "decrypt_ncryptsec K s passphrase =
     (case nc_parse K (trim s) of
        Inl e \<Rightarrow> Inl (''not an ncryptsec: '' @ e)
      | Inr enc \<Rightarrow>
          (case nc_open K enc passphrase of
             Inl e \<Rightarrow> Inl (''ncryptsec did not decrypt with that passphrase: '' @ e)
           | Inr key \<Rightarrow> Inr key))"

definition wrap_log_n :: u8 where "wrap_log_n = 18"

definition to_ncryptsec :: "keycrate \<Rightarrow> seckey \<Rightarrow> string \<Rightarrow> string + string" where
  "to_ncryptsec K key passphrase =
     (case nc_wrap K key passphrase wrap_log_n of
        Inl e \<Rightarrow> Inl (''wrapping the key failed: '' @ e) | Inr enc \<Rightarrow> Inr enc)"

text \<open>The characters of a UTF-8 string, each as its bytes.\<close>

fun utf8_chars :: "string \<Rightarrow> string list" where
  "utf8_chars [] = []"
| "utf8_chars (c # cs) =
     (case utf8_chars cs of
        [] \<Rightarrow> [[c]]
      | w # ws \<Rightarrow> if cont_byte (of_char (hd w)) then (c # w) # ws else [c] # w # ws)"

definition passphrase_strength :: "keycrate \<Rightarrow> string \<Rightarrow> string + unit" where
  "passphrase_strength K p =
     (let cs = utf8_chars p
      in if length cs < 16 then Inl ''passphrase is shorter than 16 characters''
         else if length (remdups cs) = 1 then Inl ''passphrase is one character repeated''
         else if \<not> list_ex is_digit p \<or> \<not> list_ex (alphabetic K) cs
           then Inl ''passphrase must mix letters and digits''
         else Inr ())"

section \<open>The blob\<close>

definition blob_version :: u8 where "blob_version = 4"

definition blob_new :: "keycrate \<Rightarrow> seckey \<Rightarrow> string \<Rightarrow> string list \<Rightarrow> string + blob" where
  "blob_new K key wr secrets =
     (case to_ncryptsec K key wr of
        Inl e \<Rightarrow> Inl e
      | Inr enc \<Rightarrow>
          (case nc_bech32 K enc of
             Inl e \<Rightarrow> Inl e
           | Inr text \<Rightarrow> Inr \<lparr>bl_v = blob_version, bl_wrap = wr, bl_ncryptsec = text,
               bl_pubkey = sk_pubkey K key, bl_secrets = secrets, bl_labels = []\<rparr>))"

definition blob_decode :: "keycrate \<Rightarrow> string \<Rightarrow> string + blob" where
  "blob_decode K bytes =
     (case blob_parse K bytes of
        Inl e \<Rightarrow> Inl e
      | Inr b \<Rightarrow>
          if bl_v b \<notin> set [4, 3, 2, 1]
          then Inl (''vault blob is version '' @ show_nat (unat (bl_v b)) @ '', this binary reads 4'')
          else Inr b)"

definition generate_wrap :: "string option \<Rightarrow> string + string" where
  "generate_wrap draw =
     (case draw of
        None \<Rightarrow> Inl ''OS randomness unavailable''
      | Some bytes \<Rightarrow> Inr (concat (map (show_hex2 False) bytes)))"

section \<open>The store\<close>

record 's store =
  st_load :: "'s \<Rightarrow> string + string option"
  st_save :: "string \<Rightarrow> 's \<Rightarrow> (string + unit) \<times> 's"
  st_remove :: "'s \<Rightarrow> (string + unit) \<times> 's"

text \<open>\<open>MemoryStore\<close>.\<close>

definition memory_store :: "string option store" where
  "memory_store = \<lparr>st_load = (\<lambda>m. Inr m), st_save = (\<lambda>payload m. (Inr (), Some payload)),
     st_remove = (\<lambda>m. (Inr (), None))\<rparr>"

section \<open>The vault\<close>

record 's vault =
  vt_store :: 's
  vt_key :: "seckey option"
  vt_secrets :: "string list"
  vt_labels :: "(string \<times> string) list"

definition vault_new :: "'s \<Rightarrow> 's vault" where
  "vault_new s = \<lparr>vt_store = s, vt_key = None, vt_secrets = [], vt_labels = []\<rparr>"

definition is_unlocked :: "'s vault \<Rightarrow> bool" where
  "is_unlocked v \<longleftrightarrow> vt_key v \<noteq> None"

definition vault_outstanding :: "'s vault \<Rightarrow> outstanding list" where
  "vault_outstanding v =
     map (\<lambda>s. \<lparr>os_secret = s, os_label = hm_get (vt_labels v) s\<rparr>) (vt_secrets v)"

definition uri_secret :: "'s vault \<Rightarrow> string option" where
  "uri_secret v = (if vt_secrets v = [] then None else Some (last (vt_secrets v)))"

definition vault_stored :: "'s store \<Rightarrow> 's vault \<Rightarrow> string + bool" where
  "vault_stored S v = map_sum id (\<lambda>p. p \<noteq> None) (st_load S (vt_store v))"

text \<open>The stored blob, as every operation that changes it first reads it.\<close>

definition read_blob :: "keycrate \<Rightarrow> 's store \<Rightarrow> 's vault \<Rightarrow> string + blob" where
  "read_blob K S v =
     (case st_load S (vt_store v) of
        Inl e \<Rightarrow> Inl e
      | Inr None \<Rightarrow> Inl ''no vault exists in this store''
      | Inr (Some bytes) \<Rightarrow> blob_decode K bytes)"

definition stored_pubkey :: "keycrate \<Rightarrow> 's store \<Rightarrow> 's vault \<Rightarrow> string + pubkey option" where
  "stored_pubkey K S v =
     (case st_load S (vt_store v) of
        Inl e \<Rightarrow> Inl e
      | Inr None \<Rightarrow> Inr None
      | Inr (Some bytes) \<Rightarrow>
          (case blob_decode K bytes of
             Inl e \<Rightarrow> Inl e
           | Inr b \<Rightarrow>
               (case pubkey_parse K (bl_pubkey b) of
                  Inl e \<Rightarrow> Inl (''the stored pubkey is broken: '' @ e) | Inr pk \<Rightarrow> Inr (Some pk))))"

text \<open>A changed blob is saved first; only a save that succeeded is mirrored in memory.\<close>

definition save_blob ::
  "keycrate \<Rightarrow> 's store \<Rightarrow> blob \<Rightarrow> 'a \<Rightarrow> 's vault \<Rightarrow> (string + 'a) \<times> 's vault" where
  "save_blob K S b result v =
     (case st_save S (blob_bytes K b) (vt_store v) of
        (Inl e, s) \<Rightarrow> (Inl e, v\<lparr>vt_store := s\<rparr>)
      | (Inr _, s) \<Rightarrow> (Inr result, v\<lparr>vt_store := s, vt_secrets := bl_secrets b, vt_labels := bl_labels b\<rparr>))"

definition store_and_unlock ::
  "keycrate \<Rightarrow> 's store \<Rightarrow> seckey \<Rightarrow> string option \<Rightarrow> string option \<Rightarrow> 's vault
     \<Rightarrow> (string + unit) \<times> 's vault" where
  "store_and_unlock K S key draw1 draw2 v =
     (case generate_wrap draw1 of
        Inl e \<Rightarrow> (Inl e, v)
      | Inr wr \<Rightarrow>
          (case generate_wrap draw2 of
             Inl e \<Rightarrow> (Inl e, v)
           | Inr secret \<Rightarrow>
               (case blob_new K key wr [secret] of
                  Inl e \<Rightarrow> (Inl e, v)
                | Inr b \<Rightarrow>
                    (case st_save S (blob_bytes K b) (vt_store v) of
                       (Inl e, s) \<Rightarrow> (Inl e, v\<lparr>vt_store := s\<rparr>)
                     | (Inr _, s) \<Rightarrow> (Inr (), v\<lparr>vt_store := s, vt_secrets := bl_secrets b,
                         vt_key := Some key\<rparr>)))))"

definition vault_setup ::
  "keycrate \<Rightarrow> 's store \<Rightarrow> seckey \<Rightarrow> string option \<Rightarrow> string option \<Rightarrow> 's vault
     \<Rightarrow> (string + unit) \<times> 's vault" where
  "vault_setup K S key draw1 draw2 v =
     (case st_load S (vt_store v) of
        Inl e \<Rightarrow> (Inl e, v)
      | Inr (Some _) \<Rightarrow> (Inl ''a vault already exists; destroy it first'', v)
      | Inr None \<Rightarrow> store_and_unlock K S key draw1 draw2 v)"

text \<open>
  Unlocking opens the key before anything migrates. Version 2 kept one reusable nonce, which
  becomes one outstanding secret; version 1 kept none; version 3 lacks only the labels.
\<close>

definition migrated_secrets :: "keycrate \<Rightarrow> string \<Rightarrow> blob \<Rightarrow> string option \<Rightarrow> string + string list" where
  "migrated_secrets K bytes b draw =
     (if bl_v b = 2 then
        (case raw_json K bytes of
           Inl e \<Rightarrow> Inl ''reading the version 2 blob's own shape''
         | Inr v \<Rightarrow> Inr (case as_str (jindex v ''secret'') of Some s \<Rightarrow> [s] | None \<Rightarrow> []))
      else if bl_v b = 1 then map_sum id (\<lambda>s. [s]) (generate_wrap draw)
      else Inr (bl_secrets b))"

definition vault_unlock ::
  "keycrate \<Rightarrow> 's store \<Rightarrow> string option \<Rightarrow> 's vault \<Rightarrow> (string + unit) \<times> 's vault" where
  "vault_unlock K S draw v =
     (if is_unlocked v then (Inr (), v)
      else case st_load S (vt_store v) of
        Inl e \<Rightarrow> (Inl e, v)
      | Inr None \<Rightarrow> (Inl ''no vault exists in this store'', v)
      | Inr (Some bytes) \<Rightarrow>
          (case blob_decode K bytes of
             Inl e \<Rightarrow> (Inl e, v)
           | Inr b \<Rightarrow>
               (case decrypt_ncryptsec K (bl_ncryptsec b) (bl_wrap b) of
                  Inl e \<Rightarrow> (Inl e, v)
                | Inr key \<Rightarrow>
                    (case migrated_secrets K bytes b draw of
                       Inl e \<Rightarrow> (Inl e, v)
                     | Inr ss \<Rightarrow>
                         (case (if ss = [] then map_sum id (\<lambda>s. [s]) (generate_wrap draw) else Inr ss) of
                            Inl e \<Rightarrow> (Inl e, v)
                          | Inr ss' \<Rightarrow>
                              (case save_blob K S (b\<lparr>bl_v := blob_version, bl_secrets := ss'\<rparr>) () v of
                                 (Inl e, v') \<Rightarrow> (Inl e, v')
                               | (Inr _, v') \<Rightarrow> (Inr (), v'\<lparr>vt_key := Some key\<rparr>)))))))"

definition vault_lock :: "'s vault \<Rightarrow> 's vault" where
  "vault_lock v = v\<lparr>vt_key := None\<rparr>"

definition mint_secret ::
  "keycrate \<Rightarrow> 's store \<Rightarrow> string option \<Rightarrow> string option \<Rightarrow> 's vault \<Rightarrow> (string + string) \<times> 's vault" where
  "mint_secret K S label draw v =
     (case read_blob K S v of
        Inl e \<Rightarrow> (Inl e, v)
      | Inr b \<Rightarrow>
          (case generate_wrap draw of
             Inl e \<Rightarrow> (Inl e, v)
           | Inr fresh \<Rightarrow>
               save_blob K S (b\<lparr>bl_secrets := bl_secrets b @ [fresh],
                   bl_labels := (case label of Some l \<Rightarrow> hm_insert fresh l (bl_labels b) | None \<Rightarrow> bl_labels b)\<rparr>)
                 fresh v))"

definition burn_secret ::
  "keycrate \<Rightarrow> 's store \<Rightarrow> string \<Rightarrow> 's vault \<Rightarrow> (string + bool) \<times> 's vault" where
  "burn_secret K S secret v =
     (case read_blob K S v of
        Inl e \<Rightarrow> (Inl e, v)
      | Inr b \<Rightarrow>
          (let rest = filter (\<lambda>s. s \<noteq> secret) (bl_secrets b)
           in if length rest = length (bl_secrets b) then (Inr False, v)
              else save_blob K S (b\<lparr>bl_secrets := rest, bl_labels := hm_remove secret (bl_labels b)\<rparr>) True v))"

definition rotate_secret ::
  "keycrate \<Rightarrow> 's store \<Rightarrow> string option \<Rightarrow> 's vault \<Rightarrow> (string + string) \<times> 's vault" where
  "rotate_secret K S draw v =
     (case read_blob K S v of
        Inl e \<Rightarrow> (Inl e, v)
      | Inr b \<Rightarrow>
          (case generate_wrap draw of
             Inl e \<Rightarrow> (Inl e, v)
           | Inr fresh \<Rightarrow>
               save_blob K S (b\<lparr>bl_secrets := [fresh], bl_labels := [], bl_v := blob_version\<rparr>) fresh v))"

definition vault_destroy :: "'s store \<Rightarrow> 's vault \<Rightarrow> (string + unit) \<times> 's vault" where
  "vault_destroy S v =
     (case st_remove S (vt_store v) of
        (r, s) \<Rightarrow> (r, (vault_lock v)\<lparr>vt_store := s, vt_secrets := [], vt_labels := []\<rparr>))"

section \<open>The store's contract\<close>

locale secret_store =
  fixes S :: "'s store"
  assumes save_ok: "st_save S p s = (Inr u, s') \<Longrightarrow> st_load S s' = Inr (Some p)"
    and save_failed: "st_save S p s = (Inl e, s') \<Longrightarrow> st_load S s' = st_load S s"
    and remove_ok: "st_remove S s = (Inr u, s') \<Longrightarrow> st_load S s' = Inr None"

text \<open>
  What the vault relies on of the crates: a serialised blob parses back, and a key wrapped with
  a passphrase opens with it.
\<close>

definition keycrate_laws :: "keycrate \<Rightarrow> bool" where
  "keycrate_laws K \<longleftrightarrow> (\<forall>b. blob_parse K (blob_bytes K b) = Inr b) \<and>
     (\<forall>key w ss b. blob_new K key w ss = Inr b \<longrightarrow>
        decrypt_ncryptsec K (bl_ncryptsec b) (bl_wrap b) = Inr key)"

text \<open>
  Memory and store agree: nothing stored and nothing held, or a current blob whose secrets and
  labels are the ones held, and whose key is the one held if one is.
\<close>

definition blob_agrees :: "keycrate \<Rightarrow> 's vault \<Rightarrow> blob \<Rightarrow> bool" where
  "blob_agrees K v b \<longleftrightarrow> bl_v b = 4 \<and> bl_secrets b = vt_secrets v \<and> bl_labels b = vt_labels v \<and>
     (\<forall>key. vt_key v = Some key \<longrightarrow> decrypt_ncryptsec K (bl_ncryptsec b) (bl_wrap b) = Inr key)"

definition vault_agrees :: "keycrate \<Rightarrow> 's store \<Rightarrow> 's vault \<Rightarrow> bool" where
  "vault_agrees K S v \<longleftrightarrow>
     (case st_load S (vt_store v) of
        Inl _ \<Rightarrow> True
      | Inr None \<Rightarrow> vt_secrets v = [] \<and> vt_labels v = [] \<and> vt_key v = None
      | Inr (Some bytes) \<Rightarrow> (\<exists>b. blob_decode K bytes = Inr b \<and> blob_agrees K v b))"

datatype vault_op =
    VSetup seckey "string option" "string option"
  | VUnlock "string option"
  | VLock
  | VMint "string option" "string option"
  | VBurn string
  | VRotate "string option"
  | VDestroy

fun vault_step :: "keycrate \<Rightarrow> 's store \<Rightarrow> 's vault \<Rightarrow> vault_op \<Rightarrow> 's vault" where
  "vault_step K S v (VSetup key d1 d2) = snd (vault_setup K S key d1 d2 v)"
| "vault_step K S v (VUnlock d) = snd (vault_unlock K S d v)"
| "vault_step K S v VLock = vault_lock v"
| "vault_step K S v (VMint l d) = snd (mint_secret K S l d v)"
| "vault_step K S v (VBurn s) = snd (burn_secret K S s v)"
| "vault_step K S v (VRotate d) = snd (rotate_secret K S d v)"
| "vault_step K S v VDestroy = snd (vault_destroy S v)"

lemma decode_bytes: "keycrate_laws K \<Longrightarrow> bl_v b = 4 \<Longrightarrow> blob_decode K (blob_bytes K b) = Inr b"
  by (simp add: keycrate_laws_def blob_decode_def)

context secret_store
begin

lemma agrees_keep:
  "vault_agrees K S v \<Longrightarrow> st_load S (vt_store v') = st_load S (vt_store v) \<Longrightarrow>
   vt_secrets v' = vt_secrets v \<Longrightarrow> vt_labels v' = vt_labels v \<Longrightarrow> vt_key v' \<in> {None, vt_key v} \<Longrightarrow>
   vault_agrees K S v'"
  by (auto simp: vault_agrees_def blob_agrees_def split: sum.splits option.splits)

lemma save_blob_cases:
  assumes "keycrate_laws K" "bl_v b = 4" "save_blob K S b r v = (res, v')"
  obtains (failed) e where "res = Inl e" "vt_secrets v' = vt_secrets v" "vt_labels v' = vt_labels v"
      "vt_key v' = vt_key v" "st_load S (vt_store v') = st_load S (vt_store v)"
  | (saved) "res = Inr r" "vt_secrets v' = bl_secrets b" "vt_labels v' = bl_labels b"
      "vt_key v' = vt_key v" "st_load S (vt_store v') = Inr (Some (blob_bytes K b))"
      "blob_decode K (blob_bytes K b) = Inr b"
  using assms decode_bytes [OF assms(1,2)]
  by (cases "st_save S (blob_bytes K b) (vt_store v)"; cases "fst (st_save S (blob_bytes K b) (vt_store v))")
    (auto simp: save_blob_def dest: save_ok save_failed)

lemma agrees_save_blob:
  assumes laws: "keycrate_laws K" and v4: "bl_v b = 4" and save: "save_blob K S b r v = (res, v')"
    and inv: "vault_agrees K S v"
    and key: "\<And>key. vt_key v = Some key \<Longrightarrow> decrypt_ncryptsec K (bl_ncryptsec b) (bl_wrap b) = Inr key"
  shows "vault_agrees K S v'"
proof (cases rule: save_blob_cases [OF laws v4 save, case_names failed saved])
  case failed
  with inv show ?thesis by (auto intro: agrees_keep)
next
  case saved
  with v4 key show ?thesis by (auto simp: vault_agrees_def blob_agrees_def)
qed

lemma read_agrees:
  assumes "read_blob K S v = Inr b" "vault_agrees K S v"
  shows "blob_agrees K v b"
  using assms by (auto simp: read_blob_def vault_agrees_def split: sum.splits option.splits)

lemma agrees_mint:
  assumes "keycrate_laws K" "vault_agrees K S v"
  shows "vault_agrees K S (snd (mint_secret K S l d v))"
proof (cases "\<exists>b fresh. read_blob K S v = Inr b \<and> generate_wrap d = Inr fresh")
  case False
  then have "snd (mint_secret K S l d v) = v"
    by (cases "read_blob K S v"; cases "generate_wrap d") (auto simp: mint_secret_def)
  with assms(2) show ?thesis by simp
next
  case True
  then obtain b fresh where b: "read_blob K S v = Inr b" "generate_wrap d = Inr fresh" by blast
  from read_agrees [OF b(1) assms(2)] have ag: "blob_agrees K v b" .
  let ?b = "b\<lparr>bl_secrets := bl_secrets b @ [fresh],
    bl_labels := (case l of Some l \<Rightarrow> hm_insert fresh l (bl_labels b) | None \<Rightarrow> bl_labels b)\<rparr>"
  obtain res v' where save: "save_blob K S ?b fresh v = (res, v')" by fastforce
  have "vault_agrees K S v'"
    by (rule agrees_save_blob [OF assms(1) _ save assms(2)]) (use ag in \<open>auto simp: blob_agrees_def\<close>)
  with b save show ?thesis by (simp add: mint_secret_def)
qed

lemma agrees_burn:
  assumes "keycrate_laws K" "vault_agrees K S v"
  shows "vault_agrees K S (snd (burn_secret K S s v))"
proof (cases "read_blob K S v")
  case (Inl e)
  with assms(2) show ?thesis by (simp add: burn_secret_def)
next
  case (Inr b)
  from read_agrees [OF Inr assms(2)] have ag: "blob_agrees K v b" .
  let ?b = "b\<lparr>bl_secrets := filter (\<lambda>x. x \<noteq> s) (bl_secrets b), bl_labels := hm_remove s (bl_labels b)\<rparr>"
  obtain res v' where save: "save_blob K S ?b True v = (res, v')" by fastforce
  have "vault_agrees K S v'"
    by (rule agrees_save_blob [OF assms(1) _ save assms(2)]) (use ag in \<open>auto simp: blob_agrees_def\<close>)
  with Inr save assms(2) show ?thesis by (simp add: burn_secret_def Let_def)
qed

lemma agrees_rotate:
  assumes "keycrate_laws K" "vault_agrees K S v"
  shows "vault_agrees K S (snd (rotate_secret K S d v))"
proof (cases "\<exists>b fresh. read_blob K S v = Inr b \<and> generate_wrap d = Inr fresh")
  case False
  then have "snd (rotate_secret K S d v) = v"
    by (cases "read_blob K S v"; cases "generate_wrap d") (auto simp: rotate_secret_def)
  with assms(2) show ?thesis by simp
next
  case True
  then obtain b fresh where b: "read_blob K S v = Inr b" "generate_wrap d = Inr fresh" by blast
  from read_agrees [OF b(1) assms(2)] have ag: "blob_agrees K v b" .
  let ?b = "b\<lparr>bl_secrets := [fresh], bl_labels := [], bl_v := blob_version\<rparr>"
  obtain res v' where save: "save_blob K S ?b fresh v = (res, v')" by fastforce
  have "vault_agrees K S v'"
    by (rule agrees_save_blob [OF assms(1) _ save assms(2)])
      (use ag in \<open>auto simp: blob_agrees_def blob_version_def\<close>)
  with b save show ?thesis by (simp add: rotate_secret_def)
qed

end

interpretation memory: secret_store memory_store
  by unfold_locales (auto simp: memory_store_def)

context secret_store
begin

text \<open>Unlocking, from whatever version the store holds: what a success leaves.\<close>

lemma unlock_cases:
  assumes "keycrate_laws K" "vt_key v = None"
  obtains (failed) "vt_secrets (snd (vault_unlock K S d v)) = vt_secrets v"
      "vt_labels (snd (vault_unlock K S d v)) = vt_labels v"
      "vt_key (snd (vault_unlock K S d v)) = None"
      "st_load S (vt_store (snd (vault_unlock K S d v))) = st_load S (vt_store v)"
      "\<exists>e. fst (vault_unlock K S d v) = Inl e"
  | (opened) bytes b key ss where "st_load S (vt_store v) = Inr (Some bytes)"
      "blob_decode K bytes = Inr b" "decrypt_ncryptsec K (bl_ncryptsec b) (bl_wrap b) = Inr key"
      "ss \<noteq> []" "bl_v b \<notin> {1, 2} \<Longrightarrow> bl_secrets b \<noteq> [] \<Longrightarrow> ss = bl_secrets b"
      "st_load S (vt_store (snd (vault_unlock K S d v))) =
         Inr (Some (blob_bytes K (b\<lparr>bl_v := 4, bl_secrets := ss\<rparr>)))"
      "blob_agrees K (snd (vault_unlock K S d v)) (b\<lparr>bl_v := 4, bl_secrets := ss\<rparr>)"
      "vt_key (snd (vault_unlock K S d v)) = Some key" "fst (vault_unlock K S d v) = Inr ()"
proof (cases "\<exists>bytes b key ss ss'. st_load S (vt_store v) = Inr (Some bytes) \<and> blob_decode K bytes = Inr b \<and>
    decrypt_ncryptsec K (bl_ncryptsec b) (bl_wrap b) = Inr key \<and> migrated_secrets K bytes b d = Inr ss \<and>
    (if ss = [] then map_sum id (\<lambda>s. [s]) (generate_wrap d) else Inr ss) = Inr ss'")
  case False
  then have "\<exists>e. vault_unlock K S d v = (Inl e, v)"
    using assms(2)
    by (auto simp: vault_unlock_def is_unlocked_def split: sum.splits option.splits)
  with assms(2) failed show thesis by auto
next
  case True
  then obtain bytes b key ss ss' where
    b: "st_load S (vt_store v) = Inr (Some bytes)" "blob_decode K bytes = Inr b"
      "decrypt_ncryptsec K (bl_ncryptsec b) (bl_wrap b) = Inr key" "migrated_secrets K bytes b d = Inr ss"
      "(if ss = [] then map_sum id (\<lambda>s. [s]) (generate_wrap d) else Inr ss) = Inr ss'" by blast
  let ?b = "b\<lparr>bl_v := blob_version, bl_secrets := ss'\<rparr>"
  have ne: "ss' \<noteq> []" using b(5) by (auto split: if_splits elim: sum.map_cong simp: map_sum_def split: sum.splits)
  have same: "bl_v b \<notin> {1, 2} \<Longrightarrow> bl_secrets b \<noteq> [] \<Longrightarrow> ss' = bl_secrets b"
    using b(4,5) by (auto simp: migrated_secrets_def)
  obtain res v' where save: "save_blob K S ?b () v = (res, v')" by fastforce
  have un: "vault_unlock K S d v = (case res of Inl e \<Rightarrow> (Inl e, v') | Inr _ \<Rightarrow> (Inr (), v'\<lparr>vt_key := Some key\<rparr>))"
    using b save assms(2) by (auto simp: vault_unlock_def is_unlocked_def split: sum.split)
  have v4: "bl_v ?b = 4" by (simp add: blob_version_def)
  show thesis
  proof (cases rule: save_blob_cases [OF assms(1) v4 save, case_names failed saved])
    case (failed e)
    with un assms(2) show thesis by (intro that(1)) simp_all
  next
    case saved
    with un have load: "st_load S (vt_store (snd (vault_unlock K S d v))) = Inr (Some (blob_bytes K ?b))"
      and mem: "blob_agrees K (snd (vault_unlock K S d v)) ?b"
      "vt_key (snd (vault_unlock K S d v)) = Some key" "fst (vault_unlock K S d v) = Inr ()"
      using v4 b(3) by (simp_all add: blob_agrees_def)
    show thesis
      by (rule that(2) [OF b(1-3) ne same]) (use load mem in \<open>simp_all add: blob_version_def\<close>)
  qed
qed

lemma agrees_unlock:
  assumes "keycrate_laws K" "vault_agrees K S v"
  shows "vault_agrees K S (snd (vault_unlock K S d v))"
proof (cases "vt_key v")
  case (Some key)
  with assms(2) show ?thesis by (simp add: vault_unlock_def is_unlocked_def)
next
  case None
  show ?thesis
  proof (cases rule: unlock_cases [OF assms(1) None, of d, case_names failed opened])
    case failed
    with assms(2) show ?thesis by (intro agrees_keep [OF assms(2)]) simp_all
  next
    case (opened bytes b key ss)
    then show ?thesis
      using decode_bytes [OF assms(1), of "b\<lparr>bl_v := 4, bl_secrets := ss\<rparr>"]
      by (auto simp: vault_agrees_def)
  qed
qed

lemma setup_cases:
  assumes "keycrate_laws K"
  obtains (failed) "\<exists>e. fst (vault_setup K S key d1 d2 v) = Inl e"
      "vt_secrets (snd (vault_setup K S key d1 d2 v)) = vt_secrets v"
      "vt_labels (snd (vault_setup K S key d1 d2 v)) = vt_labels v"
      "vt_key (snd (vault_setup K S key d1 d2 v)) = vt_key v"
      "st_load S (vt_store (snd (vault_setup K S key d1 d2 v))) = st_load S (vt_store v)"
  | (stored) b where "fst (vault_setup K S key d1 d2 v) = Inr ()"
      "st_load S (vt_store v) = Inr None" "bl_v b = 4" "bl_labels b = []"
      "decrypt_ncryptsec K (bl_ncryptsec b) (bl_wrap b) = Inr key" "bl_pubkey b = sk_pubkey K key"
      "vt_secrets (snd (vault_setup K S key d1 d2 v)) = bl_secrets b"
      "vt_labels (snd (vault_setup K S key d1 d2 v)) = vt_labels v"
      "vt_key (snd (vault_setup K S key d1 d2 v)) = Some key"
      "st_load S (vt_store (snd (vault_setup K S key d1 d2 v))) = Inr (Some (blob_bytes K b))"
proof (cases "\<exists>w s b. st_load S (vt_store v) = Inr None \<and> generate_wrap d1 = Inr w \<and>
    generate_wrap d2 = Inr s \<and> blob_new K key w [s] = Inr b")
  case False
  then have "\<exists>e. vault_setup K S key d1 d2 v = (Inl e, v)"
    by (auto simp: vault_setup_def store_and_unlock_def split: sum.splits option.splits)
  with failed show thesis by auto
next
  case True
  then obtain w s b where b: "st_load S (vt_store v) = Inr None" "generate_wrap d1 = Inr w"
    "generate_wrap d2 = Inr s" "blob_new K key w [s] = Inr b" by blast
  have blob: "bl_v b = 4" "bl_labels b = []" "bl_pubkey b = sk_pubkey K key"
    using b(4) by (auto simp: blob_new_def blob_version_def split: sum.splits)
  have opens: "decrypt_ncryptsec K (bl_ncryptsec b) (bl_wrap b) = Inr key"
    using assms b(4) by (auto simp: keycrate_laws_def)
  obtain r s' where save: "st_save S (blob_bytes K b) (vt_store v) = (r, s')" by fastforce
  have set: "vault_setup K S key d1 d2 v = (case r of Inl e \<Rightarrow> (Inl e, v\<lparr>vt_store := s'\<rparr>)
    | Inr _ \<Rightarrow> (Inr (), v\<lparr>vt_store := s', vt_secrets := bl_secrets b, vt_key := Some key\<rparr>))"
    using b save by (simp add: vault_setup_def store_and_unlock_def split: sum.split)
  show thesis
  proof (cases r)
    case (Inl e)
    with set save_failed [of "blob_bytes K b" "vt_store v" e s'] save show thesis by (intro failed) simp_all
  next
    case (Inr u)
    with set save_ok [of "blob_bytes K b" "vt_store v" u s'] save show thesis
      by (intro stored [OF _ b(1) blob(1,2) opens blob(3)]) simp_all
  qed
qed

lemma agrees_setup:
  assumes "keycrate_laws K" "vault_agrees K S v"
  shows "vault_agrees K S (snd (vault_setup K S key d1 d2 v))"
proof (cases rule: setup_cases [OF assms(1), of key d1 d2 v, case_names failed stored])
  case failed
  then show ?thesis by (intro agrees_keep [OF assms(2)]) simp_all
next
  case (stored b)
  moreover have "vt_labels v = []" using assms(2) stored(2) by (simp add: vault_agrees_def)
  ultimately show ?thesis
    using decode_bytes [OF assms(1), of b] by (simp add: vault_agrees_def blob_agrees_def)
qed

lemma agrees_destroy:
  assumes "fst (vault_destroy S v) = Inr ()"
  shows "vault_agrees K S (snd (vault_destroy S v))"
  using assms by (auto simp: vault_destroy_def vault_lock_def vault_agrees_def dest: remove_ok split: prod.splits)

lemma agrees_step:
  assumes "keycrate_laws K" "vault_agrees K S v" "op = VDestroy \<Longrightarrow> fst (vault_destroy S v) = Inr ()"
  shows "vault_agrees K S (vault_step K S v op)"
proof (cases op)
  case VLock
  with assms(2) show ?thesis by (simp add: vault_lock_def) (rule agrees_keep [OF assms(2)], simp_all)
qed (use assms in \<open>simp_all add: agrees_setup agrees_unlock agrees_mint agrees_burn agrees_rotate agrees_destroy\<close>)

end

definition vault_run :: "keycrate \<Rightarrow> string option vault \<Rightarrow> vault_op list \<Rightarrow> string option vault" where
  "vault_run K v ops = foldl (vault_step K memory_store) v ops"

lemma memory_destroy: "fst (vault_destroy memory_store v) = Inr ()"
  by (simp add: vault_destroy_def memory_store_def)

lemma run_agrees:
  assumes "keycrate_laws K" "vault_agrees K memory_store v"
  shows "vault_agrees K memory_store (vault_run K v ops)"
  using assms(2)
proof (induction ops arbitrary: v)
  case (Cons op ops)
  from memory.agrees_step [OF assms(1) Cons.prems, of op] have
    "vault_agrees K memory_store (vault_step K memory_store v op)" by (simp add: memory_destroy)
  from Cons.IH [OF this] show ?case by (simp add: vault_run_def)
qed (simp add: vault_run_def)

lemma empty_agrees: "vault_agrees K memory_store (vault_new None)"
  by (simp add: vault_agrees_def vault_new_def memory_store_def)

lemma agrees_stored:
  assumes "vault_agrees K memory_store v" "vt_store v = Some bytes"
  obtains b where "blob_decode K bytes = Inr b" "blob_agrees K v b" "read_blob K memory_store v = Inr b"
  using assms by (auto simp: vault_agrees_def memory_store_def read_blob_def)

lemma agrees_empty:
  "vault_agrees K memory_store v \<Longrightarrow> vt_store v = None \<Longrightarrow>
     vt_secrets v = [] \<and> vt_labels v = [] \<and> vt_key v = None"
  by (simp add: vault_agrees_def memory_store_def)


text \<open>
  A key once provisioned is never replaced: until the vault is destroyed, no setup, unlock, mint,
  burn, rotation or lock makes the vault hold another key, and a locked vault opens to it again.
\<close>

definition opens_to :: "keycrate \<Rightarrow> seckey \<Rightarrow> string option vault \<Rightarrow> bool" where
  "opens_to K key v \<longleftrightarrow> (\<exists>b bytes. vt_store v = Some bytes \<and> blob_decode K bytes = Inr b \<and>
     decrypt_ncryptsec K (bl_ncryptsec b) (bl_wrap b) = Inr key) \<and> vt_key v \<in> {None, Some key}"

lemma opens_save:
  assumes "keycrate_laws K" "bl_v b = 4" "opens_to K key v"
    "decrypt_ncryptsec K (bl_ncryptsec b) (bl_wrap b) = Inr key"
  shows "opens_to K key (snd (save_blob K memory_store b r v))"
  using assms decode_bytes [OF assms(1,2)] by (auto simp: save_blob_def memory_store_def opens_to_def)

lemma opens_step:
  assumes laws: "keycrate_laws K" and ag: "vault_agrees K memory_store v"
    and op: "op \<noteq> VDestroy" and inv: "opens_to K key v"
  shows "opens_to K key (vault_step K memory_store v op)"
proof -
  from inv obtain bytes b where st: "vt_store v = Some bytes" and b: "blob_decode K bytes = Inr b"
    and dec: "decrypt_ncryptsec K (bl_ncryptsec b) (bl_wrap b) = Inr key"
    by (auto simp: opens_to_def)
  from agrees_stored [OF ag st] b have v4: "bl_v b = 4" and read: "read_blob K memory_store v = Inr b"
    by (auto simp: blob_agrees_def)
  note save = opens_save [OF laws _ inv]
  show ?thesis
  proof (cases op)
    case (VSetup k d1 d2)
    with st inv show ?thesis by (simp add: vault_setup_def memory_store_def)
  next
    case (VUnlock d)
    show ?thesis
    proof (cases "vt_key v")
      case None
      show ?thesis
      proof (cases rule: memory.unlock_cases [OF laws None, of d, case_names failed opened])
        case failed
        with VUnlock inv show ?thesis by (simp add: opens_to_def memory_store_def)
      next
        case (opened bytes' b' key' ss)
        with st b dec have "b' = b" "key' = key" by (auto simp: memory_store_def)
        with opened VUnlock dec decode_bytes [OF laws, of "b\<lparr>bl_v := 4, bl_secrets := ss\<rparr>"] show ?thesis
          by (simp add: opens_to_def memory_store_def)
      qed
    qed (use VUnlock inv in \<open>simp add: vault_unlock_def is_unlocked_def\<close>)
  next
    case VLock
    with inv show ?thesis by (auto simp: vault_lock_def opens_to_def)
  next
    case (VMint l d)
    with read inv dec v4 show ?thesis by (auto simp: mint_secret_def intro!: save split: sum.split)
  next
    case (VBurn s)
    with read inv dec v4 show ?thesis by (auto simp: burn_secret_def Let_def intro!: save)
  next
    case (VRotate d)
    with read inv dec show ?thesis
      by (auto simp: rotate_secret_def blob_version_def intro!: save split: sum.split)
  qed (use op in simp)
qed

lemma opens_run:
  assumes "keycrate_laws K" "vault_agrees K memory_store v" "VDestroy \<notin> set ops" "opens_to K key v"
  shows "opens_to K key (vault_run K v ops)"
  using assms(2-4)
proof (induction ops arbitrary: v)
  case (Cons op ops)
  have "vault_agrees K memory_store (vault_step K memory_store v op)"
    by (rule memory.agrees_step [OF assms(1) Cons.prems(1)]) (rule memory_destroy)
  moreover have "opens_to K key (vault_step K memory_store v op)"
    by (rule opens_step [OF assms(1) Cons.prems(1)]) (use Cons.prems in auto)
  ultimately show ?case using Cons.IH Cons.prems(2) by (simp add: vault_run_def)
qed (simp add: vault_run_def)

lemma agrees_opens:
  "vault_agrees K memory_store v \<Longrightarrow> vt_key v = Some key \<Longrightarrow> opens_to K key v"
  by (cases "vt_store v")
    (auto simp: opens_to_def blob_agrees_def elim: agrees_stored dest: agrees_empty)

text \<open>
  A key is never replaced behind the person's back: once the vault holds a key, no later history
  of setups, unlocks, locks, mints, burns and rotations that does not destroy it makes it hold
  another, and whenever it is locked, an unlock that succeeds brings that key back.
\<close>

theorem key_is_never_replaced:
  assumes laws: "keycrate_laws K"
    and before: "v = vault_run K (vault_new None) ops" and key: "vt_key v = Some key"
    and after: "v' = vault_run K v ops'" and kept: "VDestroy \<notin> set ops'"
  shows "vt_key v' \<in> {None, Some key} \<and>
    (fst (vault_unlock K memory_store draw v') = Inr () \<longrightarrow>
      vt_key (snd (vault_unlock K memory_store draw v')) = Some key)"
proof -
  have ag: "vault_agrees K memory_store v" unfolding before by (rule run_agrees [OF laws empty_agrees])
  have inv: "opens_to K key v'"
    unfolding after by (rule opens_run [OF laws ag kept agrees_opens [OF ag key]])
  then have now: "vt_key v' \<in> {None, Some key}" by (simp add: opens_to_def)
  have "opens_to K key (vault_step K memory_store v' (VUnlock draw))"
    by (rule opens_step [OF laws _ _ inv]) (auto simp: after intro: run_agrees [OF laws ag])
  then have "vt_key (snd (vault_unlock K memory_store draw v')) \<in> {None, Some key}"
    by (simp add: opens_to_def)
  moreover have "fst (vault_unlock K memory_store draw v') = Inr () \<Longrightarrow>
      vt_key (snd (vault_unlock K memory_store draw v')) \<noteq> None"
    by (auto simp: vault_unlock_def is_unlocked_def split: sum.splits option.splits if_splits prod.splits)
  ultimately show ?thesis using now by auto
qed

text \<open>
  Burning is exact: it says yes just when the secret was outstanding, and then that secret, every
  copy of it and its label are gone from memory and from the store, while the others keep their
  order; and a rotation leaves the fresh secret as the only one outstanding.
\<close>

theorem burn_is_exact:
  assumes laws: "keycrate_laws K" and run: "v = vault_run K (vault_new None) ops"
    and stored: "vt_store v \<noteq> None"
  shows "fst (burn_secret K memory_store s v) = Inr (s \<in> set (vt_secrets v)) \<and>
    vt_secrets (snd (burn_secret K memory_store s v)) = filter (\<lambda>x. x \<noteq> s) (vt_secrets v) \<and>
    (\<exists>b. read_blob K memory_store (snd (burn_secret K memory_store s v)) = Inr b \<and>
      bl_secrets b = filter (\<lambda>x. x \<noteq> s) (vt_secrets v)) \<and>
    (\<exists>r v'. rotate_secret K memory_store (Some draw) v = (Inr r, v') \<and> vt_secrets v' = [r])"
proof -
  have ag: "vault_agrees K memory_store v" unfolding run by (rule run_agrees [OF laws empty_agrees])
  from stored obtain bytes where st: "vt_store v = Some bytes" by blast
  obtain b where b: "blob_agrees K v b" "read_blob K memory_store v = Inr b"
    by (rule agrees_stored [OF ag st])
  have same: "length (filter (\<lambda>x. x \<noteq> s) (vt_secrets v)) = length (vt_secrets v) \<longleftrightarrow> s \<notin> set (vt_secrets v)"
    by (metis (mono_tags) filter_id_conv length_filter_less less_irrefl)
  have none: "s \<notin> set (vt_secrets v) \<Longrightarrow> filter (\<lambda>x. x \<noteq> s) (vt_secrets v) = vt_secrets v"
    by (auto simp: filter_id_conv)
  have yes: "fst (burn_secret K memory_store s v) = Inr (s \<in> set (vt_secrets v))"
    using b same by (simp add: burn_secret_def save_blob_def memory_store_def blob_agrees_def Let_def)
  have burnt: "vt_secrets (snd (burn_secret K memory_store s v)) = filter (\<lambda>x. x \<noteq> s) (vt_secrets v)"
    using b same none by (auto simp: burn_secret_def save_blob_def memory_store_def blob_agrees_def Let_def)
  let ?u = "snd (burn_secret K memory_store s v)"
  have "vt_store ?u \<noteq> None"
    using b st by (auto simp: burn_secret_def save_blob_def memory_store_def Let_def)
  then obtain bytes' where st': "vt_store ?u = Some bytes'" by blast
  obtain b' where "blob_agrees K ?u b'" "read_blob K memory_store ?u = Inr b'"
    by (rule agrees_stored [OF memory.agrees_burn [OF laws ag] st'])
  then have copy: "\<exists>b. read_blob K memory_store ?u = Inr b \<and> bl_secrets b = filter (\<lambda>x. x \<noteq> s) (vt_secrets v)"
    using burnt by (auto simp: blob_agrees_def)
  have "\<exists>r v'. rotate_secret K memory_store (Some draw) v = (Inr r, v') \<and> vt_secrets v' = [r]"
    using b by (simp add: rotate_secret_def generate_wrap_def save_blob_def memory_store_def)
  with yes burnt copy show ?thesis by blast
qed

section \<open>An instance of the crates\<close>

text \<open>
  A concrete store format, on which the theorems are applied: every string is written character
  by character behind a mark, lists behind a count in unary, and a wrapped key is the passphrase
  followed by the key, which opens with that passphrase only.
\<close>

fun put_str :: "string \<Rightarrow> string" where
  "put_str [] = ''.''"
| "put_str (c # cs) = CHR ''c'' # c # put_str cs"

fun get_str :: "string \<Rightarrow> string \<times> string" where
  "get_str (m # c # cs) = (if m = CHR ''c'' then (case get_str cs of (s, r) \<Rightarrow> (c # s, r)) else ([], c # cs))"
| "get_str _ = ([], [])"

fun put_strs :: "string list \<Rightarrow> string" where
  "put_strs ss = put_str (map (\<lambda>_. CHR ''c'') ss) @ concat (map put_str ss)"

fun get_n :: "'a list \<Rightarrow> string \<Rightarrow> string list \<times> string" where
  "get_n [] r = ([], r)"
| "get_n (_ # n) r = (case get_str r of (s, r') \<Rightarrow> (case get_n n r' of (ss, r'') \<Rightarrow> (s # ss, r'')))"

fun get_strs :: "string \<Rightarrow> string list \<times> string" where
  "get_strs r = (case get_str r of (n, r') \<Rightarrow> get_n n r')"

lemma get_put_str: "get_str (put_str s @ r) = (s, r)"
  by (induction s) (cases r; simp)+

lemma get_n_put: "length n = length ss \<Longrightarrow> get_n n (concat (map put_str ss) @ r) = (ss, r)"
  by (induction n ss rule: list_induct2) (simp_all add: get_put_str)

lemma get_put_strs: "get_strs (put_strs ss @ r) = (ss, r)"
  using get_n_put [of "map (\<lambda>_. CHR ''c'') ss" ss r] by (simp add: get_put_str)

definition demo_bytes :: "blob \<Rightarrow> string" where
  "demo_bytes b = char_of (unat (bl_v b)) #
     put_strs [bl_wrap b, bl_ncryptsec b, bl_pubkey b] @ put_strs (bl_secrets b) @
     put_strs (map fst (bl_labels b)) @ put_strs (map snd (bl_labels b))"

fun demo_parse :: "string \<Rightarrow> string + blob" where
  "demo_parse [] = Inl ''no blob''"
| "demo_parse (v # r) =
     (case get_strs r of (fs, r1) \<Rightarrow> case get_strs r1 of (ss, r2) \<Rightarrow> case get_strs r2 of (ks, r3) \<Rightarrow>
      case get_strs r3 of (vs, _) \<Rightarrow>
      (case fs of
         [w, n, p] \<Rightarrow> Inr \<lparr>bl_v = of_nat (of_char v), bl_wrap = w, bl_ncryptsec = n, bl_pubkey = p,
           bl_secrets = ss, bl_labels = zip ks vs\<rparr>
       | _ \<Rightarrow> Inl ''not a blob''))"

definition demo_keycrate :: keycrate where
  "demo_keycrate =
     \<lparr>sk_parse = (\<lambda>s. if length s = 4 then Some s else None), sk_mnemonic = (\<lambda>s. Inr (take 4 s)),
      sk_pubkey = (\<lambda>k. ''pub'' @ k), nc_parse = (\<lambda>s. Inr s),
      nc_open = (\<lambda>enc p. if starts_with p enc then Inr (drop (length p) enc) else Inl ''wrong''),
      nc_wrap = (\<lambda>k p _. if trim (p @ k) = p @ k then Inr (p @ k) else Inl ''blank''),
      nc_bech32 = (\<lambda>s. Inr s), alphabetic = (\<lambda>c. list_ex (\<lambda>x. unreserved x \<and> \<not> is_digit x) c),
      blob_parse = demo_parse, blob_bytes = demo_bytes,
      raw_json = (\<lambda>_. Inl ''none''), pubkey_parse = (\<lambda>s. Inr s)\<rparr>"

lemma demo_round_trip: "demo_parse (demo_bytes b) = Inr b"
proof -
  have *: "get_strs (put_strs ss) = (ss, [])" for ss using get_put_strs [of ss "[]"] by simp
  have "unat (bl_v b) < 256" using unsigned_less [of "bl_v b"] by simp
  then show ?thesis
    by (simp add: demo_bytes_def get_put_strs * zip_map_fst_snd del: put_strs.simps get_strs.simps)
qed

lemma demo_keycrate_laws: "keycrate_laws demo_keycrate"
  by (auto simp: keycrate_laws_def demo_round_trip demo_keycrate_def blob_new_def to_ncryptsec_def
      decrypt_ncryptsec_def starts_with_def split: if_splits)

definition demo_ops :: "vault_op list" where
  "demo_ops = [VSetup ''key0'' (Some ''ab'') (Some ''cd''), VLock, VUnlock None, VMint (Some ''phone'') (Some ''ef'')]"

definition demo_vault :: "string option vault" where
  "demo_vault = vault_run demo_keycrate (vault_new None) demo_ops"

lemma demo_vault_key: "vt_key demo_vault = Some ''key0''" by code_simp

lemma demo_vault_secrets: "vt_secrets demo_vault = [''6364'', ''6566'']" by code_simp

lemma demo_vault_stored: "vt_store demo_vault \<noteq> None" by code_simp


lemma key_is_never_replaced_witness:
  "vt_key (vault_run demo_keycrate demo_vault [VSetup ''key1'' None None, VRotate (Some ''gh''), VLock])
     \<in> {None, Some ''key0''}"
  using key_is_never_replaced [OF demo_keycrate_laws demo_vault_def demo_vault_key refl,
    of "[VSetup ''key1'' None None, VRotate (Some ''gh''), VLock]"] by simp

lemma burn_is_exact_witness:
  "fst (burn_secret demo_keycrate memory_store ''6364'' demo_vault) = Inr True"
  using burn_is_exact [OF demo_keycrate_laws demo_vault_def demo_vault_stored, of "''6364''"]
  by (simp add: demo_vault_secrets)

end
