(* ===== verification/Pool.thy ===== *)
theory Pool
  imports Wire
begin

text \<open>
  The relay pool, \<open>src/nostr/pool.rs\<close>: the roads (one thread per relay), which of them an
  outbound event takes, and one road's loop beat by beat. A road's channel is the queue of what
  was sent down it and not yet drained; sending fails once its thread is gone.
\<close>

section \<open>The roads\<close>

datatype relay_state = Connected | Disconnected

datatype fan = Own | App pubkey | OnlyApp pubkey

record timing =
  beats_per_ping :: u32
  max_unanswered :: u32

definition default_timing :: timing where
  "default_timing = \<lparr>beats_per_ping = 30, max_unanswered = 2\<rparr>"

record road =
  rd_url :: string
  rd_own :: bool
  rd_app :: "pubkey option"
  rd_stop :: bool
  rd_gone :: bool
  rd_queue :: "(event \<times> fan) list"

record pool =
  po_roads :: "road list"
  po_own_urls :: "string list"
  po_app_urls :: "(pubkey \<times> string list) list"
  po_dropped :: "road list"

text \<open>
  \<open>po_dropped\<close> keeps the roads that were told to stop: their threads run to their next
  beat and the pool has forgotten them.
\<close>

definition spawn_road :: "pool \<Rightarrow> string \<Rightarrow> bool \<Rightarrow> pubkey option \<Rightarrow> pool" where
  "spawn_road p url own app = p\<lparr>po_roads := po_roads p @
     [\<lparr>rd_url = url, rd_own = own, rd_app = app, rd_stop = False, rd_gone = False, rd_queue = []\<rparr>]\<rparr>"

fun spawn_own :: "pool \<Rightarrow> string list \<Rightarrow> pool" where
  "spawn_own p [] = p"
| "spawn_own p (url # urls) =
     (if url \<in> set (po_own_urls p) then spawn_own p urls
      else spawn_own (spawn_road (p\<lparr>po_own_urls := po_own_urls p @ [url]\<rparr>) url True None) urls)"

definition pool_spawn :: "string list \<Rightarrow> pool" where
  "pool_spawn relays =
     spawn_own \<lparr>po_roads = [], po_own_urls = [], po_app_urls = [], po_dropped = []\<rparr> relays"

definition urls_of :: "pool \<Rightarrow> pubkey \<Rightarrow> string list" where
  "urls_of p app = (case hm_get (po_app_urls p) app of Some us \<Rightarrow> us | None \<Rightarrow> [])"

fun subscribe_relays :: "pool \<Rightarrow> pubkey \<Rightarrow> string list \<Rightarrow> pool" where
  "subscribe_relays p app [] = p"
| "subscribe_relays p app (url # urls) =
     (if url \<in> set (po_own_urls p) \<or> url \<in> set (urls_of p app) then subscribe_relays p app urls
      else subscribe_relays
        (spawn_road (p\<lparr>po_app_urls := hm_insert app (urls_of p app @ [url]) (po_app_urls p)\<rparr>)
           url False (Some app)) app urls)"

definition drop_app :: "pool \<Rightarrow> pubkey \<Rightarrow> pool" where
  "drop_app p app =
     p\<lparr>po_app_urls := hm_remove app (po_app_urls p),
       po_roads := filter (\<lambda>r. rd_app r \<noteq> Some app) (po_roads p),
       po_dropped := po_dropped p @
         map (\<lambda>r. r\<lparr>rd_stop := True\<rparr>) (filter (\<lambda>r. rd_app r = Some app) (po_roads p))\<rparr>"

section \<open>Fanning out\<close>

fun fan_takes :: "fan \<Rightarrow> road \<Rightarrow> bool" where
  "fan_takes Own r = rd_own r"
| "fan_takes (App who) r = (rd_own r \<or> rd_app r = Some who)"
| "fan_takes (OnlyApp who) r = (rd_app r = Some who)"

text \<open>The sends happen in order, and the first dead channel ends them.\<close>

fun send_roads :: "event \<Rightarrow> fan \<Rightarrow> road list \<Rightarrow> bool \<times> road list" where
  "send_roads ev f [] = (True, [])"
| "send_roads ev f (r # rs) =
     (if fan_takes f r then
        (if rd_gone r then (False, r # rs)
         else (let (sent, rs') = send_roads ev f rs
               in (sent, r\<lparr>rd_queue := rd_queue r @ [(ev, f)]\<rparr> # rs')))
      else (let (sent, rs') = send_roads ev f rs in (sent, r # rs')))"

definition pool_send :: "pool \<Rightarrow> event \<Rightarrow> fan \<Rightarrow> (string + unit) \<times> pool" where
  "pool_send p ev f =
     (if po_roads p = [] then (Inl ''the relay threads are gone'', p)
      else (let (sent, rs) = send_roads ev f (po_roads p)
            in (if sent then Inr () else Inl ''the relay threads are gone'', p\<lparr>po_roads := rs\<rparr>)))"

definition publish :: "pool \<Rightarrow> event \<Rightarrow> (string + unit) \<times> pool" where
  "publish p ev = pool_send p ev Own"

definition publish_for :: "pool \<Rightarrow> event \<Rightarrow> pubkey \<Rightarrow> (string + unit) \<times> pool" where
  "publish_for p ev app = pool_send p ev (App app)"

definition publish_only_to :: "pool \<Rightarrow> event \<Rightarrow> pubkey \<Rightarrow> (string + unit) \<times> pool" where
  "publish_only_to p ev app = pool_send p ev (if urls_of p app \<noteq> [] then OnlyApp app else Own)"

definition pool_shutdown :: "pool \<Rightarrow> road list" where
  "pool_shutdown p = map (\<lambda>r. r\<lparr>rd_stop := True, rd_gone := True\<rparr>) (po_roads p)"

section \<open>One road's loop\<close>

datatype road_read =
    RText string
  | RPing string
  | RPong
  | ROther
  | RQuiet
  | RReset
  | RFailed string

datatype road_frame = PingFrame | PongFrame string

record probe =
  beats_since_ping :: u32
  unanswered :: u32

definition probe_start :: probe where
  "probe_start = \<lparr>beats_since_ping = 0, unanswered = 0\<rparr>"

text \<open>Events out of a frame of our own subscription, and out of nothing else.\<close>

definition subscription_id :: string where "subscription_id = ''kuma-bunker''"

definition events_from_relay_message :: "crate \<Rightarrow> string \<Rightarrow> string \<Rightarrow> event list" where
  "events_from_relay_message C txt expected =
     (case json_parse C txt of
        Inl _ \<Rightarrow> []
      | Inr v \<Rightarrow>
          (let a = (case as_array v of Some xs \<Rightarrow> xs | None \<Rightarrow> [])
           in if Option.bind (nth_opt a 0) as_str \<noteq> Some ''EVENT'' then []
              else if Option.bind (nth_opt a 1) as_str \<noteq> Some expected then []
              else (case nth_opt a 2 of
                      Some e \<Rightarrow> (case event_of_json C e of Inr ev \<Rightarrow> [ev] | Inl _ \<Rightarrow> [])
                    | None \<Rightarrow> [])))"

text \<open>
  The drain at the top of a beat: the whole queue is taken, then sent one by one; the first
  failing write ends the connection. The argument says after how many writes the socket fails,
  when it does; the answer holds what was written.
\<close>

definition drain_queue :: "road \<Rightarrow> nat option \<Rightarrow> event list \<times> bool \<times> road" where
  "drain_queue r fails =
     (let evs = map fst (rd_queue r); r' = r\<lparr>rd_queue := []\<rparr>
      in case fails of
           Some k \<Rightarrow> if k < length evs then (take k evs, False, r') else (evs, True, r')
         | None \<Rightarrow> (evs, True, r'))"

text \<open>
  What the read brought: the frames sent back, the events handed to the worker, and the probe's
  books, or the reason the connection is dead.
\<close>

fun road_read_step ::
  "crate \<Rightarrow> timing \<Rightarrow> probe \<Rightarrow> road_read \<Rightarrow> road_frame list \<times> event list \<times> (string + probe)" where
  "road_read_step C t p (RText txt) =
     ([], events_from_relay_message C txt subscription_id, Inr (p\<lparr>unanswered := 0\<rparr>))"
| "road_read_step C t p (RPing payload) = ([PongFrame payload], [], Inr (p\<lparr>unanswered := 0\<rparr>))"
| "road_read_step C t p RPong = ([], [], Inr (p\<lparr>unanswered := 0\<rparr>))"
| "road_read_step C t p ROther = ([], [], Inr (p\<lparr>unanswered := 0\<rparr>))"
| "road_read_step C t p RQuiet =
     (let beats = beats_since_ping p + 1
      in if beats_per_ping t \<le> beats then
           (let un = unanswered p + 1
            in if max_unanswered t < un then ([], [], 
                 Inl (''the relay went quiet: '' @ show_nat (unat un) @ '' pings with no answer''))
               else ([PingFrame], [], Inr \<lparr>beats_since_ping = 0, unanswered = un\<rparr>))
         else ([], [], Inr (p\<lparr>beats_since_ping := beats\<rparr>)))"
| "road_read_step C t p RReset = ([], [], Inl ''the relay reset the connection'')"
| "road_read_step C t p (RFailed e) = ([], [], Inl e)"

text \<open>The reconnect delay in seconds: it starts at one, doubles at every failure, and stops at sixty.\<close>

definition backoff_start :: nat where "backoff_start = 1"
definition backoff_max :: nat where "backoff_max = 60"

definition next_backoff :: "nat \<Rightarrow> nat" where
  "next_backoff b = min (b * 2) backoff_max"

text \<open>
  One connection, beat by beat: the stop flag, the drain, the read. A beat is how many writes
  succeed before the socket fails (when it does) and what the read brings; between beats other
  threads may queue more, which is the beat's third part.
\<close>

type_synonym beat = "nat option \<times> road_read \<times> (event \<times> fan) list"

record serving =
  sg_road :: road
  sg_probe :: probe
  sg_written :: "event list"
  sg_inbound :: "event list"
  sg_end :: "(string + unit) option"

definition connection :: "road \<Rightarrow> serving" where
  "connection r = \<lparr>sg_road = r, sg_probe = probe_start, sg_written = [], sg_inbound = [], sg_end = None\<rparr>"

definition road_beat :: "crate \<Rightarrow> timing \<Rightarrow> serving \<Rightarrow> beat \<Rightarrow> serving" where
  "road_beat C t s bt =
     (case bt of (fails, rd, arrivals) \<Rightarrow>
        if sg_end s \<noteq> None then s
        else if rd_stop (sg_road s) then s\<lparr>sg_end := Some (Inr ())\<rparr>
        else let (wrote, alive, r) = drain_queue (sg_road s) fails;
                 s1 = s\<lparr>sg_road := r, sg_written := sg_written s @ wrote\<rparr>
             in if \<not> alive then s1\<lparr>sg_end := Some (Inl ''the write failed'')\<rparr>
                else let (frames, evs, result) = road_read_step C t (sg_probe s) rd;
                         s2 = s1\<lparr>sg_inbound := sg_inbound s1 @ evs,
                                 sg_road := r\<lparr>rd_queue := rd_queue r @ arrivals\<rparr>\<rparr>
                     in (case result of
                           Inl e \<Rightarrow> s2\<lparr>sg_end := Some (Inl e)\<rparr>
                         | Inr p \<Rightarrow> s2\<lparr>sg_probe := p\<rparr>))"

definition connect_and_serve :: "crate \<Rightarrow> timing \<Rightarrow> road \<Rightarrow> beat list \<Rightarrow> serving" where
  "connect_and_serve C t r beats = foldl (road_beat C t) (connection r) beats"

text \<open>
  A relay's whole life, by how each connection ended: the delays slept between them. A clean end
  or a stop ends the life.
\<close>

fun one_relay :: "nat \<Rightarrow> (bool \<times> bool) list \<Rightarrow> nat list" where
  "one_relay backoff [] = []"
| "one_relay backoff ((ended_ok, stopped) # rest) =
     (if ended_ok \<or> stopped then [] else backoff # one_relay (next_backoff backoff) rest)"

section \<open>Properties\<close>

text \<open>What a road holds, whatever else it is.\<close>

lemma send_roads_length: "length (snd (send_roads ev f rs)) = length rs"
  by (induction rs) (auto split: prod.splits simp: Let_def)

definition road_got :: "event \<Rightarrow> fan \<Rightarrow> road \<Rightarrow> road \<Rightarrow> bool" where
  "road_got ev f r r' \<longleftrightarrow>
     r' = r \<or> r' = r\<lparr>rd_queue := rd_queue r @ [(ev, f)]\<rparr> \<and> fan_takes f r"

lemma send_roads_got: "list_all2 (road_got ev f) rs (snd (send_roads ev f rs))"
proof (induction rs)
  case (Cons r rs)
  have refl: "list_all2 (road_got ev f) rs rs" by (simp add: list_all2_same road_got_def)
  obtain sent rs' where "send_roads ev f rs = (sent, rs')" by fastforce
  with Cons refl show ?case by (auto simp: Let_def road_got_def [abs_def] list_all2_refl)
qed simp

lemma send_roads_all:
  "\<not> (\<exists>r \<in> set rs. fan_takes f r \<and> rd_gone r) \<Longrightarrow>
     send_roads ev f rs = (True, map (\<lambda>r. if fan_takes f r
       then r\<lparr>rd_queue := rd_queue r @ [(ev, f)]\<rparr> else r) rs)"
  by (induction rs) auto

text \<open>
  An answer stays on its app's roads and reaches all of them: while every thread lives,
  publishing for an app queues the answer once on every road of the declared set and on every
  road of that app, and touches no road of another app.
\<close>

theorem answer_stays_on_its_roads:
  assumes "po_roads p \<noteq> []" "\<And>r. r \<in> set (po_roads p) \<Longrightarrow> \<not> rd_gone r"
  shows "publish_for p ev app = (Inr (), p\<lparr>po_roads := map (\<lambda>r.
      if rd_own r \<or> rd_app r = Some app then r\<lparr>rd_queue := rd_queue r @ [(ev, App app)]\<rparr> else r)
      (po_roads p)\<rparr>)"
  using assms send_roads_all [of "po_roads p" "App app" ev]
  by (auto simp: publish_for_def pool_send_def)

definition demo_pool :: pool where
  "demo_pool = subscribe_relays (pool_spawn [''wss://own'']) ''other'' [''wss://theirs'']"

lemma answer_stays_on_its_roads_witness:
  "rd_queue (po_roads (snd (publish_for demo_pool (demo_event ''a'' ''b'' 0 24133 [] []) ''app'')) ! 1) = []"
proof -
  have roads: "po_roads demo_pool =
    [\<lparr>rd_url = ''wss://own'', rd_own = True, rd_app = None, rd_stop = False, rd_gone = False, rd_queue = []\<rparr>,
     \<lparr>rd_url = ''wss://theirs'', rd_own = False, rd_app = Some ''other'', rd_stop = False, rd_gone = False,
      rd_queue = []\<rparr>]" by code_simp
  show ?thesis
    by (subst answer_stays_on_its_roads) (auto simp: roads)
qed

text \<open>
  A revoked app's roads go and nobody else's: after the drop no road and no address of that app
  is left, every one of its roads was told to stop, and every other road and address is as it was.
\<close>

theorem drop_app_drops_exactly_its_roads:
  "po_roads (drop_app p app) = filter (\<lambda>r. rd_app r \<noteq> Some app) (po_roads p) \<and>
   (\<forall>q. urls_of (drop_app p app) q = (if q = app then [] else urls_of p q)) \<and>
   length (filter (\<lambda>r. rd_stop r) (po_dropped (drop_app p app))) =
     length (filter (\<lambda>r. rd_stop r) (po_dropped p)) + length (filter (\<lambda>r. rd_app r = Some app) (po_roads p))"
  by (auto simp: drop_app_def urls_of_def hm.get_remove filter_map o_def filter_True)

section \<open>A wire that went quiet\<close>

definition quiet_beats :: "nat \<Rightarrow> beat list" where
  "quiet_beats n = replicate n (None, RQuiet, [])"

lemma quiet_run:
  assumes "unat (beats_since_ping p) < 30" "unat (unanswered p) \<le> 2"
  shows "road_read_step C default_timing p RQuiet =
    (if unat (beats_since_ping p) < 29 then ([], [], Inr (p\<lparr>beats_since_ping := beats_since_ping p + 1\<rparr>))
     else if unat (unanswered p) < 2 then
       ([PingFrame], [], Inr \<lparr>beats_since_ping = 0, unanswered = unanswered p + 1\<rparr>)
     else ([], [], Inl (''the relay went quiet: '' @ show_nat 3 @ '' pings with no answer'')))"
proof -
  have b: "unat (beats_since_ping p + 1) = unat (beats_since_ping p) + 1"
    using assms(1) by (simp add: unat_word_ariths)
  have u: "unat (unanswered p + 1) = unat (unanswered p) + 1"
    using assms(2) by (simp add: unat_word_ariths)
  show ?thesis
    using assms b u by (auto simp: default_timing_def Let_def word_le_nat_alt word_less_nat_alt)
qed

text \<open>How many more quiet beats a connection lasts.\<close>

definition fuse :: "probe \<Rightarrow> nat" where
  "fuse p = (2 - unat (unanswered p)) * 30 + (30 - unat (beats_since_ping p))"

definition probe_ok :: "probe \<Rightarrow> bool" where
  "probe_ok p \<longleftrightarrow> unat (beats_since_ping p) < 30 \<and> unat (unanswered p) \<le> 2"

lemma quiet_fuse:
  assumes "probe_ok p"
  shows "if fuse p = 1 then \<exists>e. road_read_step C default_timing p RQuiet = ([], [], Inl e)
    else \<exists>fs p'. road_read_step C default_timing p RQuiet = (fs, [], Inr p') \<and> probe_ok p' \<and>
      fuse p = Suc (fuse p')"
proof -
  have b: "unat (beats_since_ping p + 1) = unat (beats_since_ping p) + 1"
    and u: "unat (unanswered p + 1) = unat (unanswered p) + 1"
    using assms by (simp_all add: probe_ok_def unat_word_ariths)
  note step = quiet_run [of p C]
  consider "unat (beats_since_ping p) < 29"
    | (ping) "unat (beats_since_ping p) = 29" "unat (unanswered p) < 2"
    | (dead) "unat (beats_since_ping p) = 29" "unat (unanswered p) = 2"
    using assms by (fastforce simp: probe_ok_def)
  then show ?thesis
  proof cases
    case 1
    with assms step b show ?thesis by (auto simp: probe_ok_def fuse_def)
  next
    case ping
    with assms step u show ?thesis
      by (auto simp: probe_ok_def fuse_def)
  next
    case dead
    with assms step show ?thesis by (auto simp: probe_ok_def fuse_def)
  qed
qed

lemma serving_ended: "sg_end s \<noteq> None \<Longrightarrow> foldl (road_beat C t) s bs = s"
  by (induction bs) (auto simp: road_beat_def split: prod.split)

lemma quiet_beat:
  assumes "sg_end s = None" "\<not> rd_stop (sg_road s)"
  shows "road_beat C t s (None, RQuiet, []) =
    (let (wrote, alive, r) = drain_queue (sg_road s) None;
         s1 = s\<lparr>sg_road := r, sg_written := sg_written s @ wrote\<rparr>;
         (frames, evs, result) = road_read_step C t (sg_probe s) RQuiet;
         s2 = s1\<lparr>sg_inbound := sg_inbound s1 @ evs, sg_road := r\<lparr>rd_queue := rd_queue r @ []\<rparr>\<rparr>
     in (case result of Inl e \<Rightarrow> s2\<lparr>sg_end := Some (Inl e)\<rparr> | Inr p \<Rightarrow> s2\<lparr>sg_probe := p\<rparr>))"
  using assms by (simp add: road_beat_def drain_queue_def Let_def)

lemma quiet_road_ends:
  assumes "sg_end s = None" "\<not> rd_stop (sg_road s)" "probe_ok (sg_probe s)"
  shows "(\<exists>e. sg_end (foldl (road_beat C default_timing) s (quiet_beats n)) = Some (Inl e)) \<longleftrightarrow>
     fuse (sg_probe s) \<le> n"
  using assms
proof (induction n arbitrary: s)
  case 0
  then show ?case by (auto simp: quiet_beats_def fuse_def probe_ok_def)
next
  case (Suc n)
  let ?s' = "road_beat C default_timing s (None, RQuiet, [])"
  have qs: "quiet_beats (Suc n) = (None, RQuiet, []) # quiet_beats n" by (simp add: quiet_beats_def)
  show ?case
  proof (cases "fuse (sg_probe s) = 1")
    case True
    with quiet_fuse [OF Suc.prems(3), of C] obtain e where
      "road_read_step C default_timing (sg_probe s) RQuiet = ([], [], Inl e)" by auto
    then have "sg_end ?s' = Some (Inl e)"
      using quiet_beat [OF Suc.prems(1,2)] by (simp add: drain_queue_def Let_def)
    with True show ?thesis by (simp add: qs serving_ended)
  next
    case False
    with quiet_fuse [OF Suc.prems(3), of C] obtain fs p' where
      p': "road_read_step C default_timing (sg_probe s) RQuiet = (fs, [], Inr p')" "probe_ok p'"
        "fuse (sg_probe s) = Suc (fuse p')" by auto
    then have "sg_end ?s' = None" "\<not> rd_stop (sg_road ?s')" "sg_probe ?s' = p'"
      using quiet_beat [OF Suc.prems(1,2)] Suc.prems(1,2) by (simp_all add: drain_queue_def Let_def)
    with Suc.IH [of ?s'] p' show ?thesis by (simp add: qs)
  qed
qed

text \<open>
  A connection that died in silence is noticed: on a road not told to stop, a
  connection over which nothing comes ends with an error at the ninetieth quiet beat (the third
  unanswered ping), and not before.
\<close>

theorem quiet_road_is_called_dead:
  assumes "\<not> rd_stop r"
  shows "(\<exists>e. sg_end (connect_and_serve C default_timing r (quiet_beats n)) = Some (Inl e)) \<longleftrightarrow> 90 \<le> n"
  using quiet_road_ends [of "connection r" C n] assms
  by (simp add: connect_and_serve_def connection_def probe_start_def probe_ok_def fuse_def)

definition demo_road :: road where
  "demo_road = \<lparr>rd_url = ''wss://r'', rd_own = True, rd_app = None, rd_stop = False, rd_gone = False,
     rd_queue = []\<rparr>"

lemma quiet_road_is_called_dead_witness:
  "\<exists>e. sg_end (connect_and_serve demo_crate default_timing demo_road (quiet_beats 90)) = Some (Inl e)"
  using quiet_road_is_called_dead [of demo_road demo_crate 90] by (simp add: demo_road_def)

text \<open>
  A beat takes its whole queue before it writes: when the socket fails after some writes, the
  rest of the queue is neither written nor kept, so those answers reach this relay never, not
  even after the reconnect.
\<close>

theorem failed_write_loses_the_queue:
  assumes "k < length (rd_queue r)" "\<not> rd_stop r"
  shows "sg_written (connect_and_serve C t r ((Some k, rd, arrivals) # beats)) = take k (map fst (rd_queue r)) \<and>
    rd_queue (sg_road (connect_and_serve C t r ((Some k, rd, arrivals) # beats))) = []"
proof -
  let ?s = "road_beat C t (connection r) (Some k, rd, arrivals)"
  have "sg_end ?s \<noteq> None" "sg_written ?s = take k (map fst (rd_queue r))" "rd_queue (sg_road ?s) = []"
    using assms by (simp_all add: road_beat_def connection_def drain_queue_def Let_def)
  then show ?thesis by (simp add: connect_and_serve_def serving_ended)
qed

definition demo_answer :: event where
  "demo_answer = demo_event ''a'' ''pubs'' 5 24133 [''app''] ''pong''"

lemma failed_write_loses_the_queue_witness:
  "sg_written (connect_and_serve demo_crate default_timing (demo_road\<lparr>rd_queue := [(demo_answer, Own)]\<rparr>)
     [(Some 0, RQuiet, [])]) = []"
  using failed_write_loses_the_queue [of 0 "demo_road\<lparr>rd_queue := [(demo_answer, Own)]\<rparr>" demo_crate
      default_timing RQuiet "[]" "[]"]
  by (simp add: demo_road_def)

text \<open>The reconnect delays: powers of two up to a minute, in order, one per failed connection.\<close>

lemma one_relay_delays:
  "one_relay backoff_start (replicate n (False, False)) = map (\<lambda>i. min (2 ^ i) 60) [0..<n]"
proof -
  have "one_relay (min (2 ^ m) 60) (replicate n (False, False)) =
      map (\<lambda>i. min (2 ^ i) 60) [m..<m + n]" for m
  proof (induction n arbitrary: m)
    case (Suc n)
    have "next_backoff (min (2 ^ m) 60) = min (2 ^ Suc m) 60"
      by (simp add: next_backoff_def backoff_max_def)
    with Suc [of "Suc m"] show ?case
      by (simp add: upt_conv_Cons del: power_Suc upt_Suc)
  qed simp
  from this [of 0] show ?thesis by (simp add: backoff_start_def)
qed

end
