(* ===== verification/Daemon.thy ===== *)
theory Daemon
  imports Vault Pool
begin

text \<open>
  The daemon, \<open>src/nostr/protocol.rs\<close> and the worker of \<open>src/nostrd.rs\<close>: the socket's
  verbs over the vault, the bunker, the pool and the policy engine, and the three beats a
  relay-delivered event takes. One verb is one critical section of the daemon's lock; the worker
  takes the lock once per beat, so its state between two beats is part of the state here and a
  verb may come between any two of them. The engine is shared between the daemon and the worker
  (a clone is a window on the same state), so it is one field.
\<close>

section \<open>State\<close>

text \<open>The crates and the store the daemon runs on.\<close>

record 's host =
  ho_crate :: crate
  ho_keys :: keycrate
  ho_store :: "'s store"

text \<open>What one step reads from outside: two clocks, two draws, a generated key, a handshake id.\<close>

record tick =
  tk_now :: u64
  tk_mt :: nat
  tk_draw1 :: "string option"
  tk_draw2 :: "string option"
  tk_key :: seckey
  tk_id :: string

text \<open>
  \<open>d_status\<close> is what the roads reported and \<open>status\<close> has not drained; the window and the
  last activity are in nanoseconds of the monotonic clock; \<open>d_stopped\<close> keeps the roads of
  the pools that were shut down.
\<close>

record 's daemon =
  d_vault :: "'s vault"
  d_relays :: "string list"
  d_bunker :: "bunker option"
  d_pool :: "pool option"
  d_engine :: engine
  d_status :: "(string \<times> relay_state) list"
  d_relay_states :: "(string \<times> relay_state) list"
  d_inactivity :: "nat option"
  d_last_activity :: nat
  d_stopped :: "road list"

definition daemon_new :: "'s vault \<Rightarrow> string list \<Rightarrow> engine \<Rightarrow> nat \<Rightarrow> 's daemon" where
  "daemon_new v relays e mt =
     \<lparr>d_vault = v, d_relays = relays, d_bunker = None, d_pool = None, d_engine = e, d_status = [],
      d_relay_states = [], d_inactivity = None, d_last_activity = mt, d_stopped = []\<rparr>"

section \<open>The inactivity switch\<close>

text \<open>The argument: off when absent or zero, refused under an hour.\<close>

definition inactivity_window :: "u64 option \<Rightarrow> string + nat option" where
  "inactivity_window arg =
     (case arg of
        None \<Rightarrow> Inr None
      | Some secs \<Rightarrow>
          if secs = 0 then Inr None
          else if secs < 3600 then
            Inl (''the inactivity window is '' @ show_u64 secs @ ''s; the floor is one hour (3600)'')
          else Inr (Some (unat secs * nanos_per_sec)))"

definition with_inactivity :: "nat option \<Rightarrow> nat \<Rightarrow> 's daemon \<Rightarrow> 's daemon" where
  "with_inactivity window mt d = d\<lparr>d_inactivity := window, d_last_activity := mt\<rparr>"

definition touch :: "nat \<Rightarrow> 's daemon \<Rightarrow> 's daemon" where
  "touch mt d = d\<lparr>d_last_activity := mt\<rparr>"

definition inactivity_expired :: "nat \<Rightarrow> 's daemon \<Rightarrow> bool" where
  "inactivity_expired mt d \<longleftrightarrow> is_unlocked (d_vault d) \<and>
     (case d_inactivity d of Some window \<Rightarrow> window < mt - d_last_activity d | None \<Rightarrow> False)"

definition inactivity_fact :: "nat \<Rightarrow> 's daemon \<Rightarrow> (nat \<times> nat) option" where
  "inactivity_fact mt d =
     (case d_inactivity d of
        None \<Rightarrow> None
      | Some window \<Rightarrow>
          Some (window div nanos_per_sec, (window - (mt - d_last_activity d)) div nanos_per_sec))"

section \<open>Arming and disarming\<close>

definition teardown_bunker :: "'s daemon \<Rightarrow> 's daemon" where
  "teardown_bunker d =
     (let d1 = d\<lparr>d_bunker := None\<rparr>
      in case d_pool d1 of
           Some p \<Rightarrow> d1\<lparr>d_pool := None, d_stopped := d_stopped d1 @ pool_shutdown p\<rparr>
         | None \<Rightarrow> d1)"

definition lock_switch :: "'s daemon \<Rightarrow> 's daemon" where
  "lock_switch d = (let d1 = teardown_bunker d in d1\<lparr>d_vault := vault_lock (d_vault d1)\<rparr>)"

text \<open>
  The loop over the persisted pairings: the tombstoned are marked on the daemon's bunker, which
  is the one just torn down, and the others are collected for the seed.
\<close>

fun seed_apps :: "crate \<Rightarrow> paired list \<Rightarrow> bunker option \<Rightarrow> pubkey list \<times> bunker option" where
  "seed_apps C [] held = ([], held)"
| "seed_apps C (p # ps) held =
     (case pk_parse C (p_pubkey p) of
        Inl _ \<Rightarrow> seed_apps C ps held
      | Inr pk \<Rightarrow>
          if p_revoked_at p \<noteq> None then seed_apps C ps (map_option (\<lambda>b. mark_revoked b pk) held)
          else (case seed_apps C ps held of (seeded, held') \<Rightarrow> (pk # seeded, held')))"

definition arm_bunker :: "'s host \<Rightarrow> seckey \<Rightarrow> 's daemon \<Rightarrow> string \<times> 's daemon" where
  "arm_bunker H key d =
     (let d1 = teardown_bunker d;
          d2 = d1\<lparr>d_pool := Some (pool_spawn (d_relays d1))\<rparr>;
          b = bunker_new key (vault_outstanding (d_vault d2));
          (seeded, held) = seed_apps (ho_crate H) (e_apps (d_engine d2)) (d_bunker d2);
          d3 = d2\<lparr>d_bunker := held\<rparr>;
          b' = with_relays (seed b seeded) (d_relays d3)
      in (pk_bech32 (ho_crate H) (pub_of (ho_crate H) key), d3\<lparr>d_bunker := Some b'\<rparr>))"

definition watchdog_beat :: "nat \<Rightarrow> 's daemon \<Rightarrow> 's daemon" where
  "watchdog_beat mt d = (if inactivity_expired mt d then lock_switch d else d)"

section \<open>Requests and responses\<close>

datatype setup_mode = Generate | Import string "string option"

datatype request =
    RqPing | RqStatus | RqSetup setup_mode | RqUnlock | RqLock | RqTouch | RqDestroy bool
  | RqPrompts | RqLog | RqApprove string "u64 option" | RqDeny string | RqApps | RqRevoke string
  | RqLevel string level | RqRotate | RqMint "string option" | RqConnect string
  | RqUnrevoke string | RqDelete string | RqLabel string string

record vault_fact =
  vf_exists :: bool
  vf_unlocked :: bool
  vf_pubkey :: "string option"
  vf_relays :: "string list"
  vf_connected :: "string list"
  vf_uri :: "string option"
  vf_inactivity :: "(nat \<times> nat) option"

datatype response =
    OkPing | OkStatus vault_fact | OkSetup string | OkUnlock string | OkLock | OkTouch
  | OkDestroyDryRun string | OkDestroy | OkPrompts "prompt_view list" | OkLog "log_entry list"
  | OkApprove | OkDeny | OkApps "paired list" | OkRevoke bool | OkLevel | OkRotate string
  | OkMint string | OkConnect "string option" "string list" | OkUnrevoke bool | OkDelete bool
  | OkLabel bool
  | ErrText string
  | ErrHandshake handshake_error

section \<open>The verbs of the vault\<close>

definition daemon_pubkey :: "'s host \<Rightarrow> 's daemon \<Rightarrow> string option" where
  "daemon_pubkey H d =
     (case d_bunker d of
        Some b \<Rightarrow> Some (pk_bech32 (ho_crate H) (bunker_pubkey (ho_crate H) b))
      | None \<Rightarrow>
          (case stored_pubkey (ho_keys H) (ho_store H) (d_vault d) of
             Inr (Some pk) \<Rightarrow> Some (pk_bech32 (ho_crate H) pk)
           | _ \<Rightarrow> None))"

definition drain_status :: "'s daemon \<Rightarrow> 's daemon" where
  "drain_status d =
     d\<lparr>d_status := [],
       d_relay_states := foldl (\<lambda>m (url, st). hm_insert url st m) (d_relay_states d) (d_status d)\<rparr>"

definition handle_status :: "'s host \<Rightarrow> tick \<Rightarrow> 's daemon \<Rightarrow> response \<times> 's daemon" where
  "handle_status H t d =
     (case vault_stored (ho_store H) (d_vault d) of
        Inl e \<Rightarrow> (ErrText (''cannot read the vault: '' @ e), d)
      | Inr ex \<Rightarrow>
          (let d1 = drain_status d;
               pubkey = daemon_pubkey H d1;
               uri = (case (pubkey, uri_secret (d_vault d1), d_bunker d1) of
                        (Some npub, Some secret, Some _) \<Rightarrow>
                          map_option (\<lambda>pk. bunker_uri pk (d_relays d1) (Some secret))
                            (ok (pk_parse (ho_crate H) npub))
                      | _ \<Rightarrow> None)
           in (OkStatus \<lparr>vf_exists = ex, vf_unlocked = is_unlocked (d_vault d1), vf_pubkey = pubkey,
                 vf_relays = d_relays d1,
                 vf_connected = map fst (filter (\<lambda>(_, st). st = Connected) (d_relay_states d1)),
                 vf_uri = uri, vf_inactivity = inactivity_fact (tk_mt t) d1\<rparr>, d1)))"

definition setup_key :: "'s host \<Rightarrow> tick \<Rightarrow> setup_mode \<Rightarrow> string + seckey" where
  "setup_key H t mode =
     (case mode of
        Generate \<Rightarrow> Inr (tk_key t)
      | Import secret pass \<Rightarrow>
          if starts_with ''ncryptsec1'' (trim secret) then
            (case pass of
               Some p \<Rightarrow> decrypt_ncryptsec (ho_keys H) secret p
             | None \<Rightarrow> Inl ''an ncryptsec needs the passphrase it was wrapped with'')
          else import_key (ho_keys H) secret)"

definition handle_setup :: "'s host \<Rightarrow> tick \<Rightarrow> setup_mode \<Rightarrow> 's daemon \<Rightarrow> response \<times> 's daemon" where
  "handle_setup H t mode d =
     (case setup_key H t mode of
        Inl e \<Rightarrow> (ErrText (''import failed: '' @ e), d)
      | Inr key \<Rightarrow>
          (case vault_setup (ho_keys H) (ho_store H) key (tk_draw1 t) (tk_draw2 t) (d_vault d) of
             (Inl e, v) \<Rightarrow> (ErrText e, d\<lparr>d_vault := v\<rparr>)
           | (Inr _, v) \<Rightarrow>
               (case arm_bunker H key (d\<lparr>d_vault := v\<rparr>) of (npub, d') \<Rightarrow> (OkSetup npub, d'))))"

text \<open>The startup's unlock, and the verb, which is the same with a response for a result.\<close>

definition startup_unlock :: "'s host \<Rightarrow> tick \<Rightarrow> 's daemon \<Rightarrow> (string + string) \<times> 's daemon" where
  "startup_unlock H t d =
     (case vault_unlock (ho_keys H) (ho_store H) (tk_draw1 t) (d_vault d) of
        (Inl e, v) \<Rightarrow> (Inl e, d\<lparr>d_vault := v\<rparr>)
      | (Inr _, v) \<Rightarrow>
          (let d1 = d\<lparr>d_vault := v\<rparr>
           in case vt_key v of
                Some key \<Rightarrow>
                  (case arm_bunker H key (touch (tk_mt t) d1) of (npub, d') \<Rightarrow> (Inr npub, d'))
              | None \<Rightarrow> (Inl ''unlocked the vault and found no key'', d1)))"

definition handle_unlock :: "'s host \<Rightarrow> tick \<Rightarrow> 's daemon \<Rightarrow> response \<times> 's daemon" where
  "handle_unlock H t d =
     (case startup_unlock H t d of
        (Inr npub, d') \<Rightarrow> (OkUnlock npub, d') | (Inl e, d') \<Rightarrow> (ErrText e, d'))"

definition handle_destroy :: "'s host \<Rightarrow> bool \<Rightarrow> 's daemon \<Rightarrow> response \<times> 's daemon" where
  "handle_destroy H confirm d =
     (if \<not> confirm then
        (OkDestroyDryRun ''delete the vault from the keyring; the key is unrecoverable afterwards'', d)
      else (let d1 = teardown_bunker d
            in case vault_destroy (ho_store H) (d_vault d1) of
                 (Inr _, v) \<Rightarrow> (OkDestroy, d1\<lparr>d_vault := v\<rparr>)
               | (Inl e, v) \<Rightarrow> (ErrText e, d1\<lparr>d_vault := v\<rparr>)))"

definition rotate :: "'s host \<Rightarrow> tick \<Rightarrow> 's daemon \<Rightarrow> (string + string) \<times> 's daemon" where
  "rotate H t d =
     (case vt_key (d_vault d) of
        None \<Rightarrow> (Inl ''the bunker is locked; unlock before rotating'', d)
      | Some key \<Rightarrow>
          (case rotate_secret (ho_keys H) (ho_store H) (tk_draw1 t) (d_vault d) of
             (Inl e, v) \<Rightarrow> (Inl e, d\<lparr>d_vault := v\<rparr>)
           | (Inr secret, v) \<Rightarrow>
               (let d1 = snd (arm_bunker H key (d\<lparr>d_vault := v\<rparr>))
                in case stored_pubkey (ho_keys H) (ho_store H) (d_vault d1) of
                     Inl e \<Rightarrow> (Inl e, d1)
                   | Inr None \<Rightarrow> (Inl ''rotated and found no identity'', d1)
                   | Inr (Some pk) \<Rightarrow> (Inr (bunker_uri pk (d_relays d1) (Some secret)), d1))))"

definition handle_mint :: "'s host \<Rightarrow> tick \<Rightarrow> string option \<Rightarrow> 's daemon \<Rightarrow> response \<times> 's daemon" where
  "handle_mint H t label d =
     (case d_bunker d of
        None \<Rightarrow> (ErrText ''the bunker is locked; unlock it and the pairing URI comes with it'', d)
      | Some b \<Rightarrow>
          (case mint_secret (ho_keys H) (ho_store H) label (tk_draw1 t) (d_vault d) of
             (Inl e, v) \<Rightarrow> (ErrText e, d\<lparr>d_vault := v\<rparr>)
           | (Inr secret, v) \<Rightarrow>
               (let b' = with_secrets b (vault_outstanding v)
                in (OkMint (bunker_uri (bunker_pubkey (ho_crate H) b') (d_relays d) (Some secret)),
                    d\<lparr>d_vault := v, d_bunker := Some b'\<rparr>))))"

section \<open>The verbs of the apps\<close>

definition handle_approve :: "tick \<Rightarrow> string \<Rightarrow> u64 option \<Rightarrow> 's daemon \<Rightarrow> response \<times> 's daemon" where
  "handle_approve t i hours d =
     (if (case hours of Some h \<Rightarrow> 1 < h | None \<Rightarrow> False)
      then (ErrText ''a remember is an hour at most; longer wants Trust'', d)
      else (case approve (d_engine d) i (map_option (\<lambda>h. h * 3600) hours) (tk_now t) of
              Inl e \<Rightarrow> (ErrText e, d) | Inr e \<Rightarrow> (OkApprove, d\<lparr>d_engine := e\<rparr>)))"

definition handle_deny :: "tick \<Rightarrow> string \<Rightarrow> 's daemon \<Rightarrow> response \<times> 's daemon" where
  "handle_deny t i d =
     (case deny (d_engine d) i (tk_now t) of
        Inl e \<Rightarrow> (ErrText e, d) | Inr e \<Rightarrow> (OkDeny, d\<lparr>d_engine := e\<rparr>))"

definition handle_revoke :: "'s host \<Rightarrow> tick \<Rightarrow> string \<Rightarrow> 's daemon \<Rightarrow> response \<times> 's daemon" where
  "handle_revoke H t app d =
     (let (removed, e) = revoke (d_engine d) app (tk_now t);
          d1 = d\<lparr>d_engine := e\<rparr>
      in (OkRevoke removed,
          if removed then
            (case (d_bunker d1, pk_parse (ho_crate H) app) of
               (Some b, Inr pk) \<Rightarrow>
                 d1\<lparr>d_bunker := Some (evict (ho_crate H) (mark_revoked b pk) app),
                    d_pool := map_option (\<lambda>p. drop_app p pk) (d_pool d1)\<rparr>
             | _ \<Rightarrow> d1)
          else d1))"

definition handle_unrevoke :: "'s host \<Rightarrow> tick \<Rightarrow> string \<Rightarrow> 's daemon \<Rightarrow> response \<times> 's daemon" where
  "handle_unrevoke H t app d =
     (let (cleared, e) = unrevoke (d_engine d) app (tk_now t);
          d1 = d\<lparr>d_engine := e\<rparr>
      in (OkUnrevoke cleared,
          if cleared then
            (case (d_bunker d1, pk_parse (ho_crate H) app) of
               (Some b, Inr pk) \<Rightarrow> d1\<lparr>d_bunker := Some (mark_unrevoked b pk)\<rparr>
             | _ \<Rightarrow> d1)
          else d1))"

definition handle_delete :: "'s host \<Rightarrow> tick \<Rightarrow> string \<Rightarrow> 's daemon \<Rightarrow> response \<times> 's daemon" where
  "handle_delete H t app d =
     (let (removed, e) = delete_app (d_engine d) app (tk_now t);
          d1 = d\<lparr>d_engine := e\<rparr>
      in (OkDelete removed,
          if removed then
            (case (d_bunker d1, pk_parse (ho_crate H) app) of
               (Some b, Inr pk) \<Rightarrow>
                 d1\<lparr>d_bunker := Some (evict (ho_crate H) b app),
                    d_pool := map_option (\<lambda>p. drop_app p pk) (d_pool d1)\<rparr>
             | _ \<Rightarrow> d1)
          else d1))"

definition handle_level :: "string \<Rightarrow> level \<Rightarrow> 's daemon \<Rightarrow> response \<times> 's daemon" where
  "handle_level app l d =
     (case set_level (d_engine d) app l of
        Inl e \<Rightarrow> (ErrText e, d) | Inr e \<Rightarrow> (OkLevel, d\<lparr>d_engine := e\<rparr>))"

definition handle_label :: "tick \<Rightarrow> string \<Rightarrow> string \<Rightarrow> 's daemon \<Rightarrow> response \<times> 's daemon" where
  "handle_label t app name d =
     (let (named, e) = rename (d_engine d) app name (tk_now t)
      in (OkLabel named, d\<lparr>d_engine := e\<rparr>))"

definition handle_connect :: "'s host \<Rightarrow> tick \<Rightarrow> string \<Rightarrow> 's daemon \<Rightarrow> response \<times> 's daemon" where
  "handle_connect H t uri d =
     (case d_bunker d of
        None \<Rightarrow> (ErrText ''the bunker is locked; unlock it and the pairing can land'', d)
      | Some b \<Rightarrow>
          (case start_handshake (ho_crate H) b (handshake_id (tk_id t)) uri of
             (Inl e, b1) \<Rightarrow> (ErrHandshake e, d\<lparr>d_bunker := Some b1\<rparr>)
           | (Inr (handshake, parts), b1) \<Rightarrow>
               (let client = nc_client_pubkey parts;
                    d1 = d\<lparr>d_bunker := Some b1,
                      d_pool := map_option (\<lambda>p. subscribe_relays p client (nc_relays parts)) (d_pool d),
                      d_engine := pair_with_metadata (d_engine d) client (nc_name parts) None
                        (nc_perms parts) (nc_url parts) (tk_now t)\<rparr>
                in case d_pool d1 of
                     None \<Rightarrow> (ErrText ''the handshake was not published: the bunker is not running'', d1)
                   | Some p \<Rightarrow>
                       (case publish_only_to p handshake client of
                          (Inl e, p') \<Rightarrow>
                            (ErrText (''the handshake was not published: '' @ e), d1\<lparr>d_pool := Some p'\<rparr>)
                        | (Inr _, p') \<Rightarrow>
                            (OkConnect (nc_name parts) (nc_relays parts), d1\<lparr>d_pool := Some p'\<rparr>)))))"

definition handle :: "'s host \<Rightarrow> tick \<Rightarrow> request \<Rightarrow> 's daemon \<Rightarrow> response \<times> 's daemon" where
  "handle H t request d =
     (case request of
        RqPing \<Rightarrow> (OkPing, d)
      | RqStatus \<Rightarrow> handle_status H t d
      | RqSetup mode \<Rightarrow> handle_setup H t mode d
      | RqUnlock \<Rightarrow> handle_unlock H t d
      | RqLock \<Rightarrow> (OkLock, lock_switch d)
      | RqTouch \<Rightarrow> (OkTouch, touch (tk_mt t) d)
      | RqDestroy confirm \<Rightarrow> handle_destroy H confirm d
      | RqPrompts \<Rightarrow> (OkPrompts (prompt_views (ho_crate H) (d_engine d)), d)
      | RqLog \<Rightarrow> (OkLog (e_log (d_engine d)), d)
      | RqApprove i hours \<Rightarrow> handle_approve t i hours d
      | RqDeny i \<Rightarrow> handle_deny t i d
      | RqApps \<Rightarrow> (OkApps (e_apps (d_engine d)), d)
      | RqRevoke app \<Rightarrow> handle_revoke H t app d
      | RqLevel app l \<Rightarrow> handle_level app l d
      | RqRotate \<Rightarrow> (case rotate H t d of (Inr uri, d') \<Rightarrow> (OkRotate uri, d') | (Inl e, d') \<Rightarrow> (ErrText e, d'))
      | RqMint label \<Rightarrow> handle_mint H t label d
      | RqConnect uri \<Rightarrow> handle_connect H t uri d
      | RqUnrevoke app \<Rightarrow> handle_unrevoke H t app d
      | RqDelete app \<Rightarrow> handle_delete H t app d
      | RqLabel app name \<Rightarrow> handle_label t app name d)"

section \<open>The worker\<close>

definition plan_bunker_event ::
  "'s host \<Rightarrow> tick \<Rightarrow> event \<Rightarrow> 's daemon \<Rightarrow> plan option \<times> 's daemon" where
  "plan_bunker_event H t ev d =
     (case d_bunker d of
        None \<Rightarrow> (None, d)
      | Some b \<Rightarrow>
          (case plan (ho_crate H) b ev (tk_now t) (tk_mt t) of
             (p, b') \<Rightarrow> (Some p, d\<lparr>d_bunker := Some b'\<rparr>)))"

definition burn :: "'s host \<Rightarrow> string \<Rightarrow> 's daemon \<Rightarrow> (string + unit) \<times> 's daemon" where
  "burn H secret d =
     (case burn_secret (ho_keys H) (ho_store H) secret (d_vault d) of
        (r, v) \<Rightarrow> (map_sum id (\<lambda>_. ()) r, d\<lparr>d_vault := v\<rparr>))"

definition execute_bunker_event ::
  "'s host \<Rightarrow> tick \<Rightarrow> event \<Rightarrow> string \<Rightarrow> nmethod \<Rightarrow> string list \<Rightarrow> decision \<Rightarrow> 's daemon \<Rightarrow> event option" where
  "execute_bunker_event H t request i m params dec d =
     Option.bind (d_bunker d) (\<lambda>b. execute (ho_crate H) b request i m params dec (tk_now t))"

text \<open>An answer takes the roads its first p-tag names, or the declared ones when it has none.\<close>

definition daemon_publish :: "event \<Rightarrow> 's daemon \<Rightarrow> (string + unit) \<times> 's daemon" where
  "daemon_publish ev d =
     (case d_pool d of
        None \<Rightarrow> (Inl ''the bunker is not running'', d)
      | Some p \<Rightarrow>
          (case (case ev_ptags ev of app # _ \<Rightarrow> publish_for p ev app | [] \<Rightarrow> publish p ev) of
             (r, p') \<Rightarrow> (r, d\<lparr>d_pool := Some p'\<rparr>)))"

text \<open>
  Where the worker is between two critical sections. \<open>Gating\<close> and \<open>Asking\<close> are inside the
  engine's \<open>decide\<close>, \<open>Deciding\<close> is its wait on waiter \<open>n\<close>; \<open>Dead\<close> is a worker whose
  \<open>decide\<close> panicked with the engine's lock held.
\<close>

datatype worker =
    Idle
  | Planned plan
  | Burning string event
  | Publishing event
  | Gating event string nmethod "string list"
  | Asking event string nmethod "string list"
  | Deciding event string nmethod "string list" nat
  | Decided event string nmethod "string list" decision
  | Dead

record 's world =
  wd_daemon :: "'s daemon"
  wd_inbox :: "event list"
  wd_worker :: worker

definition on_engine :: "(engine \<Rightarrow> engine) \<Rightarrow> 's world \<Rightarrow> 's world" where
  "on_engine f w = w\<lparr>wd_daemon := (wd_daemon w)\<lparr>d_engine := f (d_engine (wd_daemon w))\<rparr>\<rparr>"

definition becomes :: "worker \<Rightarrow> 's world \<Rightarrow> 's world" where
  "becomes k w = w\<lparr>wd_worker := k\<rparr>"

definition paired_name :: "client_meta option \<Rightarrow> outstanding option \<Rightarrow> string option" where
  "paired_name meta burned =
     (case Option.bind burned os_label of
        Some l \<Rightarrow> Some l | None \<Rightarrow> Option.bind meta cm_name)"

definition work_plan :: "tick \<Rightarrow> plan \<Rightarrow> 's world \<Rightarrow> 's world" where
  "work_plan t p w =
     (case p of
        Ignore \<Rightarrow> becomes Idle w
      | Paired ans app meta burned perms \<Rightarrow>
          becomes (case burned of Some o' \<Rightarrow> Burning (os_secret o') ans | None \<Rightarrow> Publishing ans)
            (on_engine (\<lambda>e. pair_with_metadata e app (paired_name meta burned)
               (Option.bind meta cm_img) perms (Option.bind meta cm_url) (tk_now t)) w)
      | Answer ans \<Rightarrow> becomes (Publishing ans) w
      | RelaysServed ans app \<Rightarrow> becomes (Publishing ans)
          (on_engine (\<lambda>e. noted e app ''switch_relays'' ''the bunker's relay list'' ''served'' (tk_now t)) w)
      | Shed app \<Rightarrow> becomes Idle
          (on_engine (\<lambda>e. noted e app ''rate_limit'' ''over its rate'' ''shed'' (tk_now t)) w)
      | Ended ans app \<Rightarrow> becomes (Publishing ans) (on_engine (\<lambda>e. snd (logout e app (tk_now t))) w)
      | PlanAsk request i m params \<Rightarrow>
          becomes (Gating request i m params)
            (on_engine (\<lambda>e. decide_pair e (ev_pubkey request) (tk_now t)) w))"

definition work_gate ::
  "'s host \<Rightarrow> tick \<Rightarrow> event \<Rightarrow> string \<Rightarrow> nmethod \<Rightarrow> string list \<Rightarrow> 's world \<Rightarrow> 's world" where
  "work_gate H t request i m params w =
     (case decide_gate (ho_crate H) (d_engine (wd_daemon w)) (ev_pubkey request) m params (tk_now t) of
        (out, e) \<Rightarrow>
          becomes (case out of GateAllow \<Rightarrow> Decided request i m params Allow
                   | GateAsk \<Rightarrow> Asking request i m params | GatePanic \<Rightarrow> Dead)
            (on_engine (\<lambda>_. e) w))"

definition work_ask ::
  "'s host \<Rightarrow> tick \<Rightarrow> event \<Rightarrow> string \<Rightarrow> nmethod \<Rightarrow> string list \<Rightarrow> 's world \<Rightarrow> 's world" where
  "work_ask H t request i m params w =
     (case decide_ask (ho_crate H) (d_engine (wd_daemon w)) (ev_pubkey request) m params (tk_now t) of
        (n, e) \<Rightarrow> becomes (Deciding request i m params n) (on_engine (\<lambda>_. e) w))"

text \<open>One critical section of the worker; it waits when its channel or its answer is empty.\<close>

definition worker_step :: "'s host \<Rightarrow> tick \<Rightarrow> 's world \<Rightarrow> 's world" where
  "worker_step H t w =
     (case wd_worker w of
        Idle \<Rightarrow>
          (case wd_inbox w of
             [] \<Rightarrow> w
           | ev # evs \<Rightarrow>
               (case plan_bunker_event H t ev (wd_daemon w) of
                  (p, d) \<Rightarrow> w\<lparr>wd_daemon := d, wd_inbox := evs,
                    wd_worker := (case p of Some q \<Rightarrow> Planned q | None \<Rightarrow> Idle)\<rparr>))
      | Planned p \<Rightarrow> work_plan t p w
      | Burning secret ans \<Rightarrow>
          becomes (Publishing ans) (w\<lparr>wd_daemon := snd (burn H secret (wd_daemon w))\<rparr>)
      | Publishing ans \<Rightarrow> becomes Idle (w\<lparr>wd_daemon := snd (daemon_publish ans (wd_daemon w))\<rparr>)
      | Gating request i m params \<Rightarrow> work_gate H t request i m params w
      | Asking request i m params \<Rightarrow> work_ask H t request i m params w
      | Deciding request i m params n \<Rightarrow>
          (case decide_result (d_engine (wd_daemon w)) n of
             None \<Rightarrow> w
           | Some dec \<Rightarrow> becomes (Decided request i m params dec)
               (on_engine (\<lambda>e. decide_expire e n (tk_now t)) w))
      | Decided request i m params dec \<Rightarrow>
          becomes (case execute_bunker_event H t request i m params dec (wd_daemon w) of
                     Some ans \<Rightarrow> Publishing ans | None \<Rightarrow> Idle) w
      | Dead \<Rightarrow> w)"

text \<open>
  Everything that happens to the daemon: a verb, a road handing on an event or reporting its
  state, a step of the worker, a beat of the watchdog, and the end of a waiter's window.
\<close>

datatype world_op =
    Verb request | Deliver event | Said string relay_state | Work | Watch | Fire nat

fun world_step :: "'s host \<Rightarrow> 's world \<Rightarrow> world_op \<times> tick \<Rightarrow> 's world" where
  "world_step H w (Verb request, t) = w\<lparr>wd_daemon := snd (handle H t request (wd_daemon w))\<rparr>"
| "world_step H w (Deliver ev, t) = w\<lparr>wd_inbox := wd_inbox w @ [ev]\<rparr>"
| "world_step H w (Said url st, t) =
     w\<lparr>wd_daemon := (wd_daemon w)\<lparr>d_status := d_status (wd_daemon w) @ [(url, st)]\<rparr>\<rparr>"
| "world_step H w (Work, t) = worker_step H t w"
| "world_step H w (Watch, t) = w\<lparr>wd_daemon := watchdog_beat (tk_mt t) (wd_daemon w)\<rparr>"
| "world_step H w (Fire n, t) = on_engine (\<lambda>e. decide_fire e n) w"

definition world_new :: "'s daemon \<Rightarrow> 's world" where
  "world_new d = \<lparr>wd_daemon = d, wd_inbox = [], wd_worker = Idle\<rparr>"

section \<open>The daemon over its components\<close>

text \<open>
  What a step does to the engine and to the vault, as operations of those components. Every
  invariant and history theorem of \<open>Policy\<close> and \<open>Vault\<close> then speaks of the daemon.
\<close>

fun plan_policy :: "plan \<Rightarrow> policy_op list" where
  "plan_policy (Paired ans app meta burned perms) =
     [OpPair app (paired_name meta burned) (Option.bind meta cm_img) perms (Option.bind meta cm_url)]"
| "plan_policy (RelaysServed ans app) = [OpNoted app ''switch_relays'' ''the bunker's relay list'' ''served'']"
| "plan_policy (Shed app) = [OpNoted app ''rate_limit'' ''over its rate'' ''shed'']"
| "plan_policy (Ended ans app) = [OpLogout app]"
| "plan_policy (PlanAsk request i m params) = [OpPair (ev_pubkey request) None None None None]"
| "plan_policy _ = []"

definition verb_policy :: "'s host \<Rightarrow> tick \<Rightarrow> request \<Rightarrow> 's daemon \<Rightarrow> policy_op list" where
  "verb_policy H t request d =
     (case request of
        RqApprove i hours \<Rightarrow>
          (if (case hours of Some h \<Rightarrow> 1 < h | None \<Rightarrow> False) then []
           else [OpApprove i (map_option (\<lambda>h. h * 3600) hours)])
      | RqDeny i \<Rightarrow> [OpDeny i]
      | RqRevoke app \<Rightarrow> [OpRevoke app]
      | RqLevel app l \<Rightarrow> [OpLevel app l]
      | RqUnrevoke app \<Rightarrow> [OpUnrevoke app]
      | RqDelete app \<Rightarrow> [OpDelete app]
      | RqLabel app name \<Rightarrow> [OpRename app name]
      | RqConnect uri \<Rightarrow>
          (case d_bunker d of
             None \<Rightarrow> []
           | Some b \<Rightarrow>
               (case fst (start_handshake (ho_crate H) b (handshake_id (tk_id t)) uri) of
                  Inl _ \<Rightarrow> []
                | Inr (_, parts) \<Rightarrow>
                    [OpPair (nc_client_pubkey parts) (nc_name parts) None (nc_perms parts) (nc_url parts)]))
      | _ \<Rightarrow> [])"

definition worker_policy :: "'s world \<Rightarrow> policy_op list" where
  "worker_policy w =
     (case wd_worker w of
        Planned p \<Rightarrow> plan_policy p
      | Gating request i m params \<Rightarrow> [OpGate (ev_pubkey request) m params]
      | Asking request i m params \<Rightarrow> [OpAsk (ev_pubkey request) m params]
      | Deciding request i m params n \<Rightarrow>
          (if decide_result (d_engine (wd_daemon w)) n = None then [] else [OpExpire n])
      | _ \<Rightarrow> [])"

fun policy_ops :: "'s host \<Rightarrow> 's world \<Rightarrow> world_op \<times> tick \<Rightarrow> policy_op list" where
  "policy_ops H w (Verb request, t) = verb_policy H t request (wd_daemon w)"
| "policy_ops H w (Work, t) = worker_policy w"
| "policy_ops H w (Fire n, t) = [OpFire n]"
| "policy_ops H w _ = []"

definition at_tick :: "tick \<Rightarrow> policy_op list \<Rightarrow> (policy_op \<times> u64) list" where
  "at_tick t ops = map (\<lambda>op. (op, tk_now t)) ops"

lemma at_tick_simps [simp]: "at_tick t [] = []" "at_tick t (x # xs) = (x, tk_now t) # at_tick t xs"
  by (simp_all add: at_tick_def)

lemma teardown_fields [simp]:
  "d_vault (teardown_bunker d) = d_vault d" "d_engine (teardown_bunker d) = d_engine d"
  "d_relays (teardown_bunker d) = d_relays d" "d_bunker (teardown_bunker d) = None"
  "d_pool (teardown_bunker d) = None" "d_last_activity (teardown_bunker d) = d_last_activity d"
  "d_inactivity (teardown_bunker d) = d_inactivity d"
  by (auto simp: teardown_bunker_def Let_def split: option.split)

lemma touch_fields [simp]:
  "d_vault (touch mt d) = d_vault d" "d_engine (touch mt d) = d_engine d"
  "d_relays (touch mt d) = d_relays d" "d_bunker (touch mt d) = d_bunker d" "d_pool (touch mt d) = d_pool d"
  "d_last_activity (touch mt d) = mt" "d_inactivity (touch mt d) = d_inactivity d"
  by (simp_all add: touch_def)

lemma lock_fields [simp]:
  "d_vault (lock_switch d) = vault_lock (d_vault d)" "d_engine (lock_switch d) = d_engine d"
  "d_bunker (lock_switch d) = None" "d_pool (lock_switch d) = None"
  "d_last_activity (lock_switch d) = d_last_activity d" "d_inactivity (lock_switch d) = d_inactivity d"
  by (simp_all add: lock_switch_def Let_def)

text \<open>An armed bunker is a fresh one: the tombstones of the loop went to no bunker.\<close>

lemma seed_apps_none: "snd (seed_apps C ps None) = None"
  by (induction ps) (auto split: sum.split prod.split)

lemma seed_apps_seeded:
  "fst (seed_apps C ps held) = concat (map (\<lambda>p. case pk_parse C (p_pubkey p) of
     Inr pk \<Rightarrow> if p_revoked_at p = None then [pk] else [] | Inl _ \<Rightarrow> []) ps)"
  by (induction ps arbitrary: held) (auto simp: case_prod_unfold split: sum.split)

definition armed_bunker :: "'s host \<Rightarrow> seckey \<Rightarrow> 's daemon \<Rightarrow> bunker" where
  "armed_bunker H key d =
     with_relays (seed (bunker_new key (vault_outstanding (d_vault d)))
       (fst (seed_apps (ho_crate H) (e_apps (d_engine d)) None))) (d_relays d)"

lemma arm_fields [simp]:
  "d_vault (snd (arm_bunker H key d)) = d_vault d" "d_engine (snd (arm_bunker H key d)) = d_engine d"
  "d_bunker (snd (arm_bunker H key d)) = Some (armed_bunker H key d)"
  "d_pool (snd (arm_bunker H key d)) = Some (pool_spawn (d_relays d))"
  "d_relays (snd (arm_bunker H key d)) = d_relays d"
  "d_last_activity (snd (arm_bunker H key d)) = d_last_activity d"
  "d_inactivity (snd (arm_bunker H key d)) = d_inactivity d"
  by (simp_all add: arm_bunker_def Let_def armed_bunker_def split: prod.split)

lemma armed_fields [simp]:
  "b_keys (armed_bunker H key d) = key" "b_revoked (armed_bunker H key d) = {}"
  "b_replay (armed_bunker H key d) = replay_empty" "b_rate (armed_bunker H key d) = []"
  "b_secrets (armed_bunker H key d) = vault_outstanding (d_vault d)"
  "b_sessions (armed_bunker H key d) = set (fst (seed_apps (ho_crate H) (e_apps (d_engine d)) None))"
  "b_relays (armed_bunker H key d) = d_relays d"
  by (simp_all add: armed_bunker_def with_relays_def seed_def bunker_new_def)

lemma ok_or_simps [simp]: "ok_or e (Inr e') = e'" "ok_or e (Inl x) = e"
  by (simp_all add: ok_or_def)

lemma engine_keepers:
  "d_engine (snd (handle_status H t d)) = d_engine d"
  "d_engine (snd (handle_setup H t mode d)) = d_engine d"
  "d_engine (snd (handle_unlock H t d)) = d_engine d"
  "d_engine (snd (handle_destroy H confirm d)) = d_engine d"
  "d_engine (snd (handle_mint H t label d)) = d_engine d"
  "d_engine (snd (rotate H t d)) = d_engine d"
  by (auto simp: handle_status_def drain_status_def handle_setup_def handle_unlock_def startup_unlock_def
      handle_destroy_def handle_mint_def rotate_def Let_def case_prod_unfold
      split: sum.split option.split)

lemma engine_connect:
  "d_engine (snd (handle_connect H t uri d)) =
     run_ops (policy_step (ho_crate H)) (d_engine d) (at_tick t (verb_policy H t (RqConnect uri) d))"
  by (auto simp: handle_connect_def verb_policy_def Let_def case_prod_unfold
      split: sum.split option.split)

lemma engine_verbs:
  "d_engine (snd (handle_approve t i hours d)) =
     run_ops (policy_step C) (d_engine d) (at_tick t (verb_policy H t (RqApprove i hours) d))"
  "d_engine (snd (handle_deny t i d)) = ok_or (d_engine d) (deny (d_engine d) i (tk_now t))"
  "d_engine (snd (handle_revoke H t app d)) = snd (revoke (d_engine d) app (tk_now t))"
  "d_engine (snd (handle_unrevoke H t app d)) = snd (unrevoke (d_engine d) app (tk_now t))"
  "d_engine (snd (handle_delete H t app d)) = snd (delete_app (d_engine d) app (tk_now t))"
  "d_engine (snd (handle_label t app name d)) = snd (rename (d_engine d) app name (tk_now t))"
  "d_engine (snd (handle_level app l d)) = ok_or (d_engine d) (set_level (d_engine d) app l)"
  by (auto simp: handle_approve_def handle_deny_def handle_revoke_def handle_unrevoke_def
      handle_delete_def handle_label_def handle_level_def verb_policy_def Let_def case_prod_unfold
      split: sum.split option.split)

lemma engine_handle:
  "d_engine (snd (handle H t request d)) =
     run_ops (policy_step (ho_crate H)) (d_engine d) (at_tick t (verb_policy H t request d))"
proof (cases request)
  case (RqConnect uri)
  then show ?thesis using engine_connect by (simp add: handle_def)
next
  case RqRotate
  then show ?thesis
    by (auto simp: handle_def verb_policy_def engine_keepers case_prod_unfold split: sum.split)
next
  case (RqApprove i hours)
  then show ?thesis using engine_verbs(1) by (simp add: handle_def)
qed (simp_all add: handle_def engine_keepers engine_verbs verb_policy_def)

lemma on_engine_fields [simp]:
  "d_engine (wd_daemon (on_engine f w)) = f (d_engine (wd_daemon w))"
  "d_vault (wd_daemon (on_engine f w)) = d_vault (wd_daemon w)"
  "d_bunker (wd_daemon (on_engine f w)) = d_bunker (wd_daemon w)"
  "d_pool (wd_daemon (on_engine f w)) = d_pool (wd_daemon w)"
  "d_last_activity (wd_daemon (on_engine f w)) = d_last_activity (wd_daemon w)"
  "d_inactivity (wd_daemon (on_engine f w)) = d_inactivity (wd_daemon w)"
  "wd_inbox (on_engine f w) = wd_inbox w" "wd_worker (on_engine f w) = wd_worker w"
  by (simp_all add: on_engine_def)

lemma becomes_fields [simp]:
  "wd_daemon (becomes k w) = wd_daemon w" "wd_inbox (becomes k w) = wd_inbox w"
  "wd_worker (becomes k w) = k"
  by (simp_all add: becomes_def)

lemma engine_plan: "d_engine (wd_daemon (work_plan t p w)) =
    run_ops (policy_step C) (d_engine (wd_daemon w)) (at_tick t (plan_policy p))"
  by (cases p) (simp_all add: work_plan_def decide_pair_def pair_app_def)

lemma engine_beats [simp]:
  "d_engine (snd (plan_bunker_event H t ev d)) = d_engine d"
  "d_engine (snd (burn H s d)) = d_engine d"
  "d_engine (snd (daemon_publish ev d)) = d_engine d"
  by (auto simp: plan_bunker_event_def burn_def daemon_publish_def case_prod_unfold split: option.split)

lemma engine_worker:
  "d_engine (wd_daemon (worker_step H t w)) =
     run_ops (policy_step (ho_crate H)) (d_engine (wd_daemon w)) (at_tick t (worker_policy w))"
proof (cases "wd_worker w")
  case Idle
  then show ?thesis
    by (auto simp: worker_step_def worker_policy_def case_prod_unfold engine_beats(1)
        split: list.split)
next
  case (Planned p)
  then show ?thesis using engine_plan by (simp add: worker_step_def worker_policy_def)
qed (simp_all add: worker_step_def worker_policy_def work_gate_def work_ask_def case_prod_unfold
    split: option.split)

lemma engine_world:
  "d_engine (wd_daemon (world_step H w (op, t))) =
     run_ops (policy_step (ho_crate H)) (d_engine (wd_daemon w)) (at_tick t (policy_ops H w (op, t)))"
  by (cases op) (simp_all add: engine_handle engine_worker watchdog_beat_def)

definition verb_vault :: "'s host \<Rightarrow> tick \<Rightarrow> request \<Rightarrow> 's daemon \<Rightarrow> vault_op list" where
  "verb_vault H t request d =
     (case request of
        RqSetup mode \<Rightarrow>
          (case setup_key H t mode of Inl _ \<Rightarrow> [] | Inr key \<Rightarrow> [VSetup key (tk_draw1 t) (tk_draw2 t)])
      | RqUnlock \<Rightarrow> [VUnlock (tk_draw1 t)]
      | RqLock \<Rightarrow> [VLock]
      | RqDestroy confirm \<Rightarrow> (if confirm then [VDestroy] else [])
      | RqRotate \<Rightarrow> (if is_unlocked (d_vault d) then [VRotate (tk_draw1 t)] else [])
      | RqMint label \<Rightarrow> (if d_bunker d = None then [] else [VMint label (tk_draw1 t)])
      | _ \<Rightarrow> [])"

fun vault_ops :: "'s host \<Rightarrow> 's world \<Rightarrow> world_op \<times> tick \<Rightarrow> vault_op list" where
  "vault_ops H w (Verb request, t) = verb_vault H t request (wd_daemon w)"
| "vault_ops H w (Work, t) = (case wd_worker w of Burning secret ans \<Rightarrow> [VBurn secret] | _ \<Rightarrow> [])"
| "vault_ops H w (Watch, t) = (if inactivity_expired (tk_mt t) (wd_daemon w) then [VLock] else [])"
| "vault_ops H w _ = []"

lemma vault_keepers:
  "d_vault (snd (handle_status H t d)) = d_vault d"
  "d_vault (snd (handle_connect H t uri d)) = d_vault d"
  "d_vault (snd (handle_approve t i hours d)) = d_vault d"
  "d_vault (snd (handle_deny t i d)) = d_vault d"
  "d_vault (snd (handle_revoke H t app d)) = d_vault d"
  "d_vault (snd (handle_unrevoke H t app d)) = d_vault d"
  "d_vault (snd (handle_delete H t app d)) = d_vault d"
  "d_vault (snd (handle_label t app name d)) = d_vault d"
  "d_vault (snd (handle_level app l d)) = d_vault d"
  by (auto simp: handle_status_def drain_status_def handle_connect_def handle_approve_def handle_deny_def
      handle_revoke_def handle_unrevoke_def handle_delete_def handle_label_def handle_level_def Let_def
      case_prod_unfold split: sum.split option.split)

lemma vault_changers:
  "d_vault (snd (handle_setup H t mode d)) =
     foldl (vault_step (ho_keys H) (ho_store H)) (d_vault d) (verb_vault H t (RqSetup mode) d)"
  "d_vault (snd (handle_unlock H t d)) = snd (vault_unlock (ho_keys H) (ho_store H) (tk_draw1 t) (d_vault d))"
  "d_vault (snd (handle_destroy H confirm d)) =
     foldl (vault_step (ho_keys H) (ho_store H)) (d_vault d) (verb_vault H t (RqDestroy confirm) d)"
  "d_vault (snd (handle_mint H t label d)) =
     foldl (vault_step (ho_keys H) (ho_store H)) (d_vault d) (verb_vault H t (RqMint label) d)"
  "d_vault (snd (rotate H t d)) =
     foldl (vault_step (ho_keys H) (ho_store H)) (d_vault d) (verb_vault H t RqRotate d)"
  by (auto simp: handle_setup_def handle_unlock_def startup_unlock_def handle_destroy_def handle_mint_def
      rotate_def verb_vault_def is_unlocked_def Let_def case_prod_unfold split: sum.split option.split)

lemma vault_handle:
  "d_vault (snd (handle H t request d)) =
     foldl (vault_step (ho_keys H) (ho_store H)) (d_vault d) (verb_vault H t request d)"
proof (cases request)
  case (RqSetup mode)
  then show ?thesis using vault_changers(1) by (simp add: handle_def)
next
  case (RqDestroy confirm)
  then show ?thesis using vault_changers(3) by (simp add: handle_def)
next
  case (RqMint label)
  then show ?thesis using vault_changers(4) by (simp add: handle_def)
next
  case RqRotate
  then show ?thesis using vault_changers(5) [of H t d]
    by (auto simp: handle_def case_prod_unfold split: sum.split)
qed (simp_all add: handle_def vault_keepers vault_changers(2) verb_vault_def)

lemma vault_plan: "d_vault (wd_daemon (work_plan t p w)) = d_vault (wd_daemon w)"
  by (cases p) (simp_all add: work_plan_def)

lemma vault_worker:
  "d_vault (wd_daemon (worker_step H t w)) =
     foldl (vault_step (ho_keys H) (ho_store H)) (d_vault (wd_daemon w)) (vault_ops H w (Work, t))"
  by (cases "wd_worker w")
    (auto simp: worker_step_def vault_plan work_gate_def work_ask_def plan_bunker_event_def burn_def
      daemon_publish_def case_prod_unfold split: list.split option.split)

lemma vault_world:
  "d_vault (wd_daemon (world_step H w (op, t))) =
     foldl (vault_step (ho_keys H) (ho_store H)) (d_vault (wd_daemon w)) (vault_ops H w (op, t))"
  by (cases op) (simp_all add: vault_handle vault_worker watchdog_beat_def)

section \<open>Armed exactly while open\<close>

definition armed_open :: "'s daemon \<Rightarrow> bool" where
  "armed_open d \<longleftrightarrow> (d_pool d = None \<longleftrightarrow> d_bunker d = None) \<and>
     map_option b_keys (d_bunker d) = vt_key (d_vault d)"

lemma save_blob_key [simp]: "vt_key (snd (save_blob K S b r v)) = vt_key v"
  by (auto simp: save_blob_def split: prod.split sum.split)

lemma vault_key_kept [simp]:
  "vt_key (snd (mint_secret K S l draw v)) = vt_key v"
  "vt_key (snd (burn_secret K S s v)) = vt_key v"
  "vt_key (snd (rotate_secret K S draw v)) = vt_key v"
  by (auto simp: mint_secret_def burn_secret_def rotate_secret_def Let_def split: sum.split)

lemma setup_key_after:
  "vault_setup K S key d1 d2 v = (r, v') \<Longrightarrow>
     vt_key v' = (case r of Inl _ \<Rightarrow> vt_key v | Inr _ \<Rightarrow> Some key)"
  by (auto simp: vault_setup_def store_and_unlock_def split: sum.splits option.splits prod.splits)

lemma save_blob_snd: "save_blob K S b r v = (x, v') \<Longrightarrow> vt_key v' = vt_key v"
  using save_blob_key [of K S b r v] by simp

lemma unlock_key_after:
  "vault_unlock K S draw v = (r, v') \<Longrightarrow>
     (case r of Inl _ \<Rightarrow> vt_key v' = vt_key v | Inr _ \<Rightarrow> vt_key v' \<noteq> None)"
  by (auto simp: vault_unlock_def is_unlocked_def dest: save_blob_snd
      split: sum.splits option.splits prod.splits if_splits)

lemma destroy_key [simp]: "vt_key (snd (vault_destroy S v)) = None"
  by (simp add: vault_destroy_def vault_lock_def split: prod.split)

lemma handshake_keys [simp]: "b_keys (snd (start_handshake C b i uri)) = b_keys b"
  by (auto simp: start_handshake_def Let_def split: sum.split)

lemma armed_setup: "armed_open d \<Longrightarrow> armed_open (snd (handle_setup H t mode d))"
proof (cases "setup_key H t mode")
  case (Inr key)
  assume "armed_open d"
  obtain r v where v: "vault_setup (ho_keys H) (ho_store H) key (tk_draw1 t) (tk_draw2 t) (d_vault d) = (r, v)"
    by fastforce
  with Inr setup_key_after [OF v] \<open>armed_open d\<close> show ?thesis
    by (cases r) (auto simp: handle_setup_def armed_open_def case_prod_unfold)
qed (simp add: handle_setup_def)

lemma armed_unlock: "armed_open d \<Longrightarrow> armed_open (snd (handle_unlock H t d))"
proof -
  assume "armed_open d"
  obtain r v where v: "vault_unlock (ho_keys H) (ho_store H) (tk_draw1 t) (d_vault d) = (r, v)" by fastforce
  with unlock_key_after [OF v] \<open>armed_open d\<close> show ?thesis
    by (cases r; cases "vt_key v") (auto simp: handle_unlock_def startup_unlock_def armed_open_def case_prod_unfold Let_def)
qed

lemma armed_rotate: "armed_open d \<Longrightarrow> armed_open (snd (rotate H t d))"
  by (auto simp: rotate_def armed_open_def case_prod_unfold Let_def split: sum.split option.split)

lemma armed_verbs:
  assumes "armed_open d"
  shows "armed_open (snd (handle_destroy H confirm d))" "armed_open (snd (handle_mint H t label d))"
    "armed_open (snd (handle_revoke H t app d))" "armed_open (snd (handle_unrevoke H t app d))"
    "armed_open (snd (handle_delete H t app d))" "armed_open (snd (handle_connect H t uri d))"
  using assms
  by (auto simp: armed_open_def handle_destroy_def handle_mint_def handle_revoke_def handle_unrevoke_def
      handle_delete_def handle_connect_def case_prod_unfold Let_def with_secrets_def mark_revoked_def
      mark_unrevoked_def evict_def split: sum.split option.split)

lemma armed_cong:
  "armed_open d \<Longrightarrow> d_pool d' = None \<longleftrightarrow> d_pool d = None \<Longrightarrow> d_bunker d' = d_bunker d \<Longrightarrow>
     vt_key (d_vault d') = vt_key (d_vault d) \<Longrightarrow> armed_open d'"
  by (simp add: armed_open_def)

lemma armed_others:
  assumes "armed_open d"
  shows "armed_open (snd (handle_status H t d))" "armed_open (snd (handle_approve t i hours d))"
    "armed_open (snd (handle_deny t i d))" "armed_open (snd (handle_label t app name d))"
    "armed_open (snd (handle_level app l d))" "armed_open (touch mt d)" "armed_open (lock_switch d)"
  using assms
  by (auto simp: armed_open_def handle_status_def drain_status_def handle_approve_def handle_deny_def
      handle_label_def handle_level_def vault_lock_def case_prod_unfold Let_def split: sum.split option.split)

lemma armed_handle: "armed_open d \<Longrightarrow> armed_open (snd (handle H t request d))"
  using armed_rotate [of d H t]
  by (cases request) (auto simp: handle_def armed_setup armed_unlock armed_verbs armed_others
      case_prod_unfold split: sum.split)

lemma armed_worker: "armed_open (wd_daemon w) \<Longrightarrow> armed_open (wd_daemon (worker_step H t w))"
proof (cases "wd_worker w")
  case Idle
  assume "armed_open (wd_daemon w)"
  with Idle plan_served(2) show ?thesis
    by (fastforce simp: worker_step_def plan_bunker_event_def armed_open_def split: list.split option.split prod.split)
next
  case (Planned p)
  assume "armed_open (wd_daemon w)"
  with Planned show ?thesis
    by (cases p) (auto simp: worker_step_def work_plan_def armed_open_def)
qed (auto simp: worker_step_def work_gate_def work_ask_def burn_def daemon_publish_def armed_open_def
    case_prod_unfold split: option.split)

lemma armed_world: "armed_open (wd_daemon w) \<Longrightarrow> armed_open (wd_daemon (world_step H w e))"
  by (cases "(H, w, e)" rule: world_step.cases)
    (auto simp: armed_handle armed_worker watchdog_beat_def armed_others, simp_all add: armed_open_def)

definition daemon_start :: "'s \<Rightarrow> string list \<Rightarrow> engine \<Rightarrow> nat option \<Rightarrow> nat \<Rightarrow> 's world" where
  "daemon_start s relays e window mt =
     world_new (with_inactivity window mt (daemon_new (vault_new s) relays e mt))"

lemma start_fields [simp]:
  "d_vault (wd_daemon (daemon_start s relays e window mt)) = vault_new s"
  "d_engine (wd_daemon (daemon_start s relays e window mt)) = e"
  "d_bunker (wd_daemon (daemon_start s relays e window mt)) = None"
  "d_pool (wd_daemon (daemon_start s relays e window mt)) = None"
  "wd_worker (daemon_start s relays e window mt) = Idle"
  "wd_inbox (daemon_start s relays e window mt) = []"
  by (simp_all add: daemon_start_def world_new_def with_inactivity_def daemon_new_def)

interpretation daemon: op_system "world_step H" "\<lambda>w. armed_open (wd_daemon w)"
    "daemon_start s relays e window mt"
proof unfold_locales
  show "armed_open (wd_daemon (daemon_start s relays e window mt))"
    by (simp add: armed_open_def vault_new_def)
qed (rule armed_world)

end
