(* ===== verification/DaemonRuns.thy ===== *)
theory DaemonRuns
  imports Daemon
begin

text \<open>
  Histories of the daemon: what its steps do to its components over any sequence of verbs,
  deliveries, worker steps, beats and timeouts, and the properties of the whole.
\<close>

section \<open>Histories of the daemon\<close>

fun policy_trace :: "'s host \<Rightarrow> 's world \<Rightarrow> (world_op \<times> tick) list \<Rightarrow> (policy_op \<times> u64) list" where
  "policy_trace H w [] = []"
| "policy_trace H w (e # es) = at_tick (snd e) (policy_ops H w e) @ policy_trace H (world_step H w e) es"

fun vault_trace :: "'s host \<Rightarrow> 's world \<Rightarrow> (world_op \<times> tick) list \<Rightarrow> vault_op list" where
  "vault_trace H w [] = []"
| "vault_trace H w (e # es) = vault_ops H w e @ vault_trace H (world_step H w e) es"

lemma engine_history:
  "d_engine (wd_daemon (run_ops (world_step H) w es)) =
     run_ops (policy_step (ho_crate H)) (d_engine (wd_daemon w)) (policy_trace H w es)"
proof (induction es arbitrary: w)
  case (Cons e es)
  obtain op t where "e = (op, t)" by fastforce
  with Cons show ?case by (simp add: run_ops_append engine_world)
qed simp

lemma vault_history:
  "d_vault (wd_daemon (run_ops (world_step H) w es)) =
     foldl (vault_step (ho_keys H) (ho_store H)) (d_vault (wd_daemon w)) (vault_trace H w es)"
proof (induction es arbitrary: w)
  case (Cons e es)
  obtain op t where "e = (op, t)" by fastforce
  with Cons show ?case by (simp add: vault_world)
qed simp

text \<open>
  C11. The daemon is its components: whatever the socket, the roads, the worker and the watchdog do,
  in any order, the policy engine and the vault each go through a history of their own
  operations, so that every theorem about those histories holds of the running daemon.
\<close>

theorem daemon_refines_its_components:
  "d_engine (wd_daemon (run_ops (world_step H) w es)) =
     run_ops (policy_step (ho_crate H)) (d_engine (wd_daemon w)) (policy_trace H w es) \<and>
   d_vault (wd_daemon (run_ops (world_step H) w es)) =
     foldl (vault_step (ho_keys H) (ho_store H)) (d_vault (wd_daemon w)) (vault_trace H w es)"
  by (simp add: engine_history vault_history)

text \<open>
  C5. Armed exactly while open: in every state the daemon reaches there is a bunker and a relay pool
  just when the vault is unlocked, and the bunker signs with the vault's own key. There is no
  moment at which the key is gone and a bunker still answers.
\<close>

theorem armed_exactly_while_open:
  "let d = wd_daemon (run_ops (world_step H) (daemon_start s relays e window mt) es)
   in (d_bunker d = None \<longleftrightarrow> \<not> is_unlocked (d_vault d)) \<and> (d_pool d = None \<longleftrightarrow> d_bunker d = None) \<and>
     map_option b_keys (d_bunker d) = vt_key (d_vault d)"
  using daemon.good_run [of H s relays e window mt es]
  by (auto simp: armed_open_def is_unlocked_def Let_def)

section \<open>What opens and what closes the gate\<close>

definition opens_gate :: "world_op \<Rightarrow> bool" where
  "opens_gate op \<longleftrightarrow> (case op of Verb RqUnlock \<Rightarrow> True | Verb (RqSetup mode) \<Rightarrow> True | _ \<Rightarrow> False)"

lemma locked_vault_step:
  "vt_key v = None \<Longrightarrow> (\<forall>key d1 d2 d. op \<noteq> VSetup key d1 d2 \<and> op \<noteq> VUnlock d) \<Longrightarrow>
     vt_key (vault_step K S v op) = None"
  by (cases op) (simp_all add: vault_lock_def)

lemma locked_vault_ops:
  "vt_key v = None \<Longrightarrow> \<not> opens_gate op \<Longrightarrow>
     vt_key (foldl (vault_step K S) v (vault_ops H w (op, t))) = None"
  by (cases op; auto simp: verb_vault_def vault_lock_def opens_gate_def
      split: request.splits worker.split sum.split option.split)

lemma locked_run:
  assumes "vt_key (d_vault (wd_daemon w)) = None" "\<forall>e \<in> set es. \<not> opens_gate (fst e)"
  shows "vt_key (d_vault (wd_daemon (run_ops (world_step H) w es))) = None"
  using assms
proof (induction es arbitrary: w)
  case (Cons e es)
  obtain op t where e: "e = (op, t)" by fastforce
  with Cons.prems have "vt_key (d_vault (wd_daemon (world_step H w e))) = None"
    by (simp add: vault_world locked_vault_ops)
  with Cons show ?case by simp
qed simp

text \<open>
  Locked means locked: from any state of the daemon in which the vault is locked, no sequence of
  deliveries, worker steps, beats and verbs other than setup and unlock brings back a bunker, a
  key or a relay pool, so nothing is signed and nothing is published.
\<close>

theorem only_unlock_and_setup_open:
  assumes "armed_open (wd_daemon w)" "\<not> is_unlocked (d_vault (wd_daemon w))"
    and "\<forall>e \<in> set es. \<not> opens_gate (fst e)"
  shows "let d = wd_daemon (run_ops (world_step H) w es)
    in \<not> is_unlocked (d_vault d) \<and> d_bunker d = None \<and> d_pool d = None"
  using locked_run [of w es H] daemon.good_from [OF assms(1), of H es] assms(2,3)
  by (auto simp: armed_open_def is_unlocked_def Let_def)

section \<open>Every yes has its reason\<close>

text \<open>Whether the gate lets a request of a known app through without asking.\<close>

definition gate_lets :: "crate \<Rightarrow> engine \<Rightarrow> pubkey \<Rightarrow> nmethod \<Rightarrow> string list \<Rightarrow> u64 \<Rightarrow> bool" where
  "gate_lets C e app m ps now \<longleftrightarrow>
     (case find_app e app of
        None \<Rightarrow> False
      | Some p \<Rightarrow> p_level p = Trust \<or> trusted_here e app m now \<or>
          p_level p = Basic \<and> \<not> is_sensitive C m ps)"

text \<open>Whether a verb approves a card that shows this very request.\<close>

definition approves :: "engine \<Rightarrow> world_op \<Rightarrow> pubkey \<Rightarrow> nmethod \<Rightarrow> string list \<Rightarrow> bool" where
  "approves e op app m ps \<longleftrightarrow>
     (case op of
        Verb (RqApprove i hours) \<Rightarrow> (case hours of Some h \<Rightarrow> h \<le> 1 | None \<Rightarrow> True) \<and>
          (\<exists>pr. (i, pr) \<in> set (e_prompts e) \<and> pr_app pr = app \<and> pr_method pr = m \<and> pr_params pr = ps)
      | _ \<Rightarrow> False)"

lemma gate_lets_gate: "fst (decide_gate C e app m ps now) = GateAllow \<Longrightarrow> gate_lets C e app m ps now"
  by (auto simp: decide_gate_def gate_lets_def Let_def trusted_here_def split: option.splits if_splits)

text \<open>A step is at most one operation of the engine, and an approval is the approve verb's.\<close>

lemma policy_ops_one: "policy_ops H w e = [] \<or> (\<exists>o'. policy_ops H w e = [o'])"
proof -
  have "plan_policy p = [] \<or> (\<exists>o'. plan_policy p = [o'])" for p by (cases p) auto
  then show ?thesis
    by (cases "(H, w, e)" rule: policy_ops.cases)
      (auto simp: verb_policy_def worker_policy_def split: request.splits worker.splits option.splits sum.splits)
qed

lemma policy_ops_approve:
  "policy_ops H w (op, t) = [OpApprove i r] \<Longrightarrow>
     \<exists>hours. op = Verb (RqApprove i hours) \<and> (case hours of Some h \<Rightarrow> h \<le> 1 | None \<Rightarrow> True)"
proof -
  have "plan_policy p \<noteq> [OpApprove i r]" for p by (cases p) auto
  then show "policy_ops H w (op, t) = [OpApprove i r] \<Longrightarrow> ?thesis"
    by (cases op) (auto simp: verb_policy_def worker_policy_def
        split: request.splits worker.splits option.splits sum.splits if_splits)
qed

text \<open>The worker's wait is on a waiter that asked what the worker asked.\<close>

definition wait_matches :: "'s world \<Rightarrow> bool" where
  "wait_matches w \<longleftrightarrow>
     (case wd_worker w of
        Deciding request i m params n \<Rightarrow>
          n < length (e_waits (d_engine (wd_daemon w))) \<and>
          w_app (e_waits (d_engine (wd_daemon w)) ! n) = ev_pubkey request \<and>
          w_method (e_waits (d_engine (wd_daemon w)) ! n) = m \<and>
          w_params (e_waits (d_engine (wd_daemon w)) ! n) = params
      | _ \<Rightarrow> True)"

lemma waits_grow_fields:
  assumes "waits_grow ws ws'" "n < length ws"
  shows "n < length ws'" "w_app (ws' ! n) = w_app (ws ! n)" "w_method (ws' ! n) = w_method (ws ! n)"
    "w_params (ws' ! n) = w_params (ws ! n)" "w_prompt (ws' ! n) = w_prompt (ws ! n)"
proof -
  have "ws' ! n = (ws ! n)\<lparr>w_state := w_state (ws' ! n)\<rparr>" using assms by (simp add: waits_grow_def)
  then obtain s where "ws' ! n = (ws ! n)\<lparr>w_state := s\<rparr>" by blast
  then show "w_app (ws' ! n) = w_app (ws ! n)" "w_method (ws' ! n) = w_method (ws ! n)"
    "w_params (ws' ! n) = w_params (ws ! n)" "w_prompt (ws' ! n) = w_prompt (ws ! n)" by simp_all
  show "n < length ws'" using assms by (simp add: waits_grow_def)
qed

lemma waits_world:
  "waits_grow (e_waits (d_engine (wd_daemon w))) (e_waits (d_engine (wd_daemon (world_step H w e))))"
proof -
  obtain op t where e: "e = (op, t)" by fastforce
  show ?thesis unfolding e engine_world by (rule waits_grow_run)
qed

lemma work_plan_worker [simp]:
  "wd_worker (work_plan t p w) \<noteq> Deciding r i m ps n" "wd_worker (work_plan t p w) \<noteq> Decided r i m ps d"
  by (cases p; simp add: work_plan_def split: option.split)+

lemma worker_asks:
  assumes "wd_worker (worker_step H t w) = Deciding request i m params n"
  shows "wd_worker w = wd_worker (worker_step H t w) \<or>
    wd_worker w = Asking request i m params \<and>
      (n, d_engine (wd_daemon (worker_step H t w))) =
        decide_ask (ho_crate H) (d_engine (wd_daemon w)) (ev_pubkey request) m params (tk_now t)"
  using assms
  by (cases "wd_worker w")
    (auto simp: worker_step_def work_gate_def work_ask_def case_prod_unfold prod_eq_iff
      split: list.splits option.splits gate_outcome.splits)

lemma asked_waiter:
  "(n, e') = decide_ask C e app m ps now \<Longrightarrow> n < length (e_waits e') \<and> w_app (e_waits e' ! n) = app \<and>
     w_method (e_waits e' ! n) = m \<and> w_params (e_waits e' ! n) = ps"
  by (auto simp: decide_ask_def Let_def split: option.splits prod.splits)

lemma wait_matches_step:
  assumes "wait_matches w"
  shows "wait_matches (world_step H w e)"
proof (cases "\<exists>request i m params n. wd_worker (world_step H w e) = Deciding request i m params n")
  case False
  then show ?thesis by (auto simp: wait_matches_def split: worker.split)
next
  case True
  then obtain request i m params n where
    now: "wd_worker (world_step H w e) = Deciding request i m params n" by blast
  obtain op t where e: "e = (op, t)" by fastforce
  show ?thesis
  proof (cases "wd_worker w = wd_worker (world_step H w e)")
    case True
    with assms now waits_grow_fields [OF waits_world, of n w H e] show ?thesis
      by (simp add: wait_matches_def)
  next
    case False
    with now e have "op = Work" by (cases op) simp_all
    with worker_asks [of H t w request i m params n] now False e asked_waiter show ?thesis
      by (fastforce simp: wait_matches_def)
  qed
qed

lemma wait_matches_run: "wait_matches w \<Longrightarrow> wait_matches (run_ops (world_step H) w es)"
  by (induction es arbitrary: w) (auto intro: wait_matches_step)

text \<open>Where a worker's decision came from: the gate at this very step, or the waiter's answer.\<close>

lemma worker_decides:
  assumes "wd_worker (worker_step H t w) = Decided request i m params dec"
  shows "wd_worker w = Gating request i m params \<and> dec = Allow \<and>
      gate_lets (ho_crate H) (d_engine (wd_daemon w)) (ev_pubkey request) m params (tk_now t) \<or>
    (\<exists>n. wd_worker w = Deciding request i m params n \<and>
      decide_result (d_engine (wd_daemon w)) n = Some dec)"
  using assms gate_lets_gate
  by (cases "wd_worker w")
    (fastforce simp: worker_step_def work_gate_def work_ask_def case_prod_unfold
      split: list.splits option.splits gate_outcome.splits)+

lemma asks_inv_world: "asks_inv (d_engine (wd_daemon w)) \<Longrightarrow> asks_inv (d_engine (wd_daemon (world_step H w e)))"
proof -
  assume inv: "asks_inv (d_engine (wd_daemon w))"
  obtain op t where e: "e = (op, t)" by fastforce
  from policy_ops_one [of H w e] inv show ?thesis
    unfolding e engine_world by (auto simp: asks_inv_step)
qed

lemma asks_inv_history:
  "asks_inv (d_engine (wd_daemon w)) \<Longrightarrow> asks_inv (d_engine (wd_daemon (run_ops (world_step H) w es)))"
  by (induction es arbitrary: w) (auto intro: asks_inv_world)

lemma world_answers:
  assumes inv: "asks_inv (d_engine (wd_daemon w))"
    and after: "decide_result (d_engine (wd_daemon (world_step H w (op, t)))) n = Some Allow"
  shows "decide_result (d_engine (wd_daemon w)) n = Some Allow \<or>
    n < length (e_waits (d_engine (wd_daemon w))) \<and>
    (let x = e_waits (d_engine (wd_daemon w)) ! n
     in approves (d_engine (wd_daemon w)) op (w_app x) (w_method x) (w_params x))"
proof -
  let ?e = "d_engine (wd_daemon w)"
  have step: "d_engine (wd_daemon (world_step H w (op, t))) =
      run_ops (policy_step (ho_crate H)) ?e (at_tick t (policy_ops H w (op, t)))" by (rule engine_world)
  show ?thesis
  proof (cases "policy_ops H w (op, t) = []")
    case True
    with step after show ?thesis by simp
  next
    case False
    with policy_ops_one obtain o' where o: "policy_ops H w (op, t) = [o']" by blast
    with step after have n: "n < length (e_waits (policy_step (ho_crate H) ?e (o', tk_now t)))"
      "w_state (e_waits (policy_step (ho_crate H) ?e (o', tk_now t)) ! n) = Answered Allow"
      by (auto simp: decide_result_def split: if_splits wait.splits)
    from answered_yes_step [OF inv n] show ?thesis
    proof (elim conjE disjE exE)
      assume "n < length (e_waits ?e)" "w_state (e_waits ?e ! n) = Answered Allow"
      then show ?thesis by (simp add: decide_result_def)
    next
      fix r assume r: "n < length (e_waits ?e)" "o' = OpApprove (w_prompt (e_waits ?e ! n)) r"
        "card_of ?e n (w_prompt (e_waits ?e ! n)) (e_waits ?e ! n)"
      with policy_ops_approve o obtain hours where
        "op = Verb (RqApprove (w_prompt (e_waits ?e ! n)) hours)"
        "case hours of Some h \<Rightarrow> h \<le> 1 | None \<Rightarrow> True" by metis
      with r show ?thesis by (auto simp: approves_def card_of_def Let_def)
    qed
  qed
qed

lemma approved_history:
  assumes inv: "asks_inv (d_engine (wd_daemon w0))" and fresh: "e_waits (d_engine (wd_daemon w0)) = []"
    and yes: "decide_result (d_engine (wd_daemon (run_ops (world_step H) w0 es))) n = Some Allow"
  shows "\<exists>k < length es. let x = e_waits (d_engine (wd_daemon (run_ops (world_step H) w0 es))) ! n
    in approves (d_engine (wd_daemon (run_ops (world_step H) w0 (take k es)))) (fst (es ! k))
         (w_app x) (w_method x) (w_params x)"
  using yes
proof (induction es rule: rev_induct)
  case Nil
  with fresh show ?case by (simp add: decide_result_def)
next
  case (snoc e es)
  let ?w = "run_ops (world_step H) w0 es"
  obtain op t where e: "e = (op, t)" by fastforce
  have last: "run_ops (world_step H) w0 (es @ [e]) = world_step H ?w e" by (simp add: run_ops_append)
  from world_answers [where w = ?w and H = H and op = op and t = t and n = n]
    asks_inv_history [OF inv, of H es] snoc.prems [unfolded last, unfolded e]
  have cases: "decide_result (d_engine (wd_daemon ?w)) n = Some Allow \<or>
    n < length (e_waits (d_engine (wd_daemon ?w))) \<and>
    (let x = e_waits (d_engine (wd_daemon ?w)) ! n
     in approves (d_engine (wd_daemon ?w)) op (w_app x) (w_method x) (w_params x))"
    by blast
  then have n: "n < length (e_waits (d_engine (wd_daemon ?w)))"
    by (auto simp: decide_result_def split: if_splits)
  note same = waits_grow_fields [OF waits_world n, of H e]
  from cases show ?case
  proof (elim disjE conjE)
    assume "decide_result (d_engine (wd_daemon ?w)) n = Some Allow"
    from snoc.IH [OF this] show ?thesis
      unfolding last by (auto simp: Let_def same nth_append less_Suc_eq)
  next
    assume "let x = e_waits (d_engine (wd_daemon ?w)) ! n
      in approves (d_engine (wd_daemon ?w)) op (w_app x) (w_method x) (w_params x)"
    then show ?thesis
      unfolding last by (intro exI [of _ "length es"]) (simp add: Let_def same [unfolded e] e)
  qed
qed

text \<open>
  C1. Every yes has its reason: whenever the worker is about to run a request with Allow, in any
  history of the daemon and with any interleaving, either the gate let that very app, method and
  parameters through without asking (Trust, an answer remembered and not run out, or Basic and
  not sensitive), or a person's approve verb, with a remember of an hour at most, answered a card
  that was on the queue and showed that very app, method and parameters.
\<close>

theorem every_yes_has_its_reason:
  assumes "wd_worker (run_ops (world_step H) (daemon_start s relays (engine_new p d a l) window mt) es) =
    Decided request i m params Allow"
  shows "\<exists>k < length es.
    (let w = run_ops (world_step H) (daemon_start s relays (engine_new p d a l) window mt) (take k es)
     in wd_worker w = Gating request i m params \<and> fst (es ! k) = Work \<and>
          gate_lets (ho_crate H) (d_engine (wd_daemon w)) (ev_pubkey request) m params (tk_now (snd (es ! k)))
        \<or> approves (d_engine (wd_daemon w)) (fst (es ! k)) (ev_pubkey request) m params)"
  using assms
proof (induction es rule: rev_induct)
  case Nil
  then show ?case by simp
next
  case (snoc e es)
  let ?start = "daemon_start s relays (engine_new p d a l) window mt"
  let ?w = "run_ops (world_step H) ?start es"
  obtain op t where e: "e = (op, t)" by fastforce
  have last: "run_ops (world_step H) ?start (es @ [e]) = world_step H ?w e" by (simp add: run_ops_append)
  show ?case
  proof (cases "wd_worker ?w = Decided request i m params Allow")
    case True
    from snoc.IH [OF this] show ?thesis by (auto simp: nth_append less_Suc_eq Let_def)
  next
    case False
    with snoc.prems e have "op = Work" "wd_worker (worker_step H t ?w) = Decided request i m params Allow"
      unfolding last by (cases op; simp)+
    from worker_decides [OF this(2)] show ?thesis
    proof (elim disjE conjE exE)
      assume "wd_worker ?w = Gating request i m params"
        "gate_lets (ho_crate H) (d_engine (wd_daemon ?w)) (ev_pubkey request) m params (tk_now t)"
      with \<open>op = Work\<close> show ?thesis by (intro exI [of _ "length es"]) (simp add: e Let_def)
    next
      fix n assume n: "wd_worker ?w = Deciding request i m params n"
        "decide_result (d_engine (wd_daemon ?w)) n = Some Allow"
      have "wait_matches ?w" by (rule wait_matches_run) (simp add: wait_matches_def)
      with n(1) have x: "w_app (e_waits (d_engine (wd_daemon ?w)) ! n) = ev_pubkey request"
        "w_method (e_waits (d_engine (wd_daemon ?w)) ! n) = m"
        "w_params (e_waits (d_engine (wd_daemon ?w)) ! n) = params" by (simp_all add: wait_matches_def)
      have "\<exists>k < length es. let x = e_waits (d_engine (wd_daemon ?w)) ! n
        in approves (d_engine (wd_daemon (run_ops (world_step H) ?start (take k es)))) (fst (es ! k))
         (w_app x) (w_method x) (w_params x)"
        by (rule approved_history) (use n(2) in \<open>simp_all add: asks_inv_new\<close>, simp add: engine_new_def)
      then show ?thesis by (auto simp: x Let_def nth_append less_Suc_eq)
    qed
  qed
qed

section \<open>A daemon to run\<close>

text \<open>
  A concrete host for the witnesses and the counterexamples: any plaintext but \<open>sign\<close> is a
  connect that carries it as the secret.
\<close>

definition run_host :: "string option host" where
  "run_host =
     \<lparr>ho_crate = demo_crate\<lparr>message_parse := (\<lambda>s.
        Some (if s = ''sign'' then Request ''1'' SignEvent [''kind1'']
              else Request ''1'' Connect [''bunker'', s]))\<rparr>,
      ho_keys = demo_keycrate, ho_store = memory_store\<rparr>"

definition tick_at :: "u64 \<Rightarrow> tick" where
  "tick_at now = \<lparr>tk_now = now, tk_mt = 0, tk_draw1 = Some ''ab'',
     tk_draw2 = Some ''cd'', tk_key = ''key0'', tk_id = ''id''\<rparr>"

definition sent :: "string \<Rightarrow> pubkey \<Rightarrow> u64 \<Rightarrow> string \<Rightarrow> event" where
  "sent i app now txt = demo_event i app now 24133 [''pubkey0''] txt"

text \<open>The vault is set up, an app connects with the secret \<open>6364\<close>, and the worker answers it.\<close>

definition run_paired :: "(world_op \<times> tick) list" where
  "run_paired =
     [(Verb (RqSetup Generate), tick_at 1000), (Deliver (sent ''e1'' ''app'' 1000 ''6364''), tick_at 1000),
      (Work, tick_at 1000), (Work, tick_at 1000), (Work, tick_at 1000), (Work, tick_at 1000)]"

text \<open>The app asks for a signature, the ask is queued, and the person approves its card.\<close>

definition run_approved :: "(world_op \<times> tick) list" where
  "run_approved = run_paired @
     [(Deliver (sent ''e2'' ''app'' 1001 ''sign''), tick_at 1001), (Work, tick_at 1001), (Work, tick_at 1001),
      (Work, tick_at 1001), (Work, tick_at 1001), (Verb (RqApprove ''1001-0001'' None), tick_at 1002),
      (Work, tick_at 1002)]"

definition run_start :: "string option world" where
  "run_start = daemon_start None [''wss://relay''] (engine_new False True None None) None 0"

lemma run_approved_decided:
  "wd_worker (run_ops (world_step run_host) run_start run_approved) =
     Decided (sent ''e2'' ''app'' 1001 ''sign'') ''1'' SignEvent [''kind1''] Allow"
  by code_simp

lemma every_yes_has_its_reason_witness:
  "\<exists>k < length run_approved. (let w = run_ops (world_step run_host) run_start (take k run_approved)
     in wd_worker w = Gating (sent ''e2'' ''app'' 1001 ''sign'') ''1'' SignEvent [''kind1''] \<and>
          fst (run_approved ! k) = Work \<and>
          gate_lets (ho_crate run_host) (d_engine (wd_daemon w)) (ev_pubkey (sent ''e2'' ''app'' 1001 ''sign''))
            SignEvent [''kind1''] (tk_now (snd (run_approved ! k)))
        \<or> approves (d_engine (wd_daemon w)) (fst (run_approved ! k))
            (ev_pubkey (sent ''e2'' ''app'' 1001 ''sign'')) SignEvent [''kind1''])"
  using every_yes_has_its_reason [OF run_approved_decided [unfolded run_start_def]]
  unfolding run_start_def .

lemma run_start_armed: "armed_open (wd_daemon run_start)"
  unfolding run_start_def by (simp add: armed_open_def vault_new_def)

lemma only_unlock_and_setup_open_witness:
  "let d = wd_daemon (run_ops (world_step run_host) run_start
      [(Verb RqTouch, tick_at 5), (Deliver (sent ''e1'' ''app'' 5 ''6364''), tick_at 5), (Work, tick_at 5)])
    in \<not> is_unlocked (d_vault d) \<and> d_bunker d = None \<and> d_pool d = None"
  by (rule only_unlock_and_setup_open [OF run_start_armed])
    (simp_all add: run_start_def is_unlocked_def vault_new_def opens_gate_def)

section \<open>One key\<close>

lemma vault_ops_no_destroy:
  "op \<noteq> Verb (RqDestroy True) \<Longrightarrow> VDestroy \<notin> set (vault_ops H w (op, t))"
  by (cases op) (auto simp: verb_vault_def split: request.splits worker.splits sum.splits if_splits)

lemma vault_trace_no_destroy:
  "\<forall>e \<in> set es. fst e \<noteq> Verb (RqDestroy True) \<Longrightarrow> VDestroy \<notin> set (vault_trace H w es)"
proof (induction es arbitrary: w)
  case (Cons e es)
  then show ?case using vault_ops_no_destroy [of "fst e" H w "snd e"] by simp
qed simp

text \<open>
  One key: over the in-memory store, once the daemon holds a key, no later history without a
  confirmed destroy makes it hold or sign with another: not a second setup, not a restart of the
  gate, not a rotation.
\<close>

theorem daemon_keeps_its_key:
  fixes H :: "string option host"
  assumes "ho_store H = memory_store" "keycrate_laws (ho_keys H)"
    and before: "w = run_ops (world_step H) (daemon_start None relays e window mt) es"
    and key: "vt_key (d_vault (wd_daemon w)) = Some key"
    and kept: "\<forall>e \<in> set es'. fst e \<noteq> Verb (RqDestroy True)"
  shows "let d = wd_daemon (run_ops (world_step H) w es')
    in vt_key (d_vault d) \<in> {None, Some key} \<and> map_option b_keys (d_bunker d) \<in> {None, Some key}"
proof -
  have ag: "vault_agrees (ho_keys H) memory_store (d_vault (wd_daemon w))"
    using run_agrees [OF assms(2) empty_agrees, of "vault_trace H (daemon_start None relays e window mt) es"]
    by (simp add: before vault_history assms(1) vault_run_def)
  have "opens_to (ho_keys H) key (vault_run (ho_keys H) (d_vault (wd_daemon w)) (vault_trace H w es'))"
    by (rule opens_run [OF assms(2) ag vault_trace_no_destroy [OF kept] agrees_opens [OF ag key]])
  then have "vt_key (d_vault (wd_daemon (run_ops (world_step H) w es'))) \<in> {None, Some key}"
    by (simp add: opens_to_def vault_history assms(1) vault_run_def)
  moreover have "armed_open (wd_daemon (run_ops (world_step H) w es'))"
    unfolding before by (rule daemon.good_from [OF daemon.good_run])
  ultimately show ?thesis by (auto simp: armed_open_def Let_def)
qed

lemma run_paired_key:
  "vt_key (d_vault (wd_daemon (run_ops (world_step run_host) run_start run_paired))) = Some ''key0''"
  by code_simp

lemma daemon_keeps_its_key_witness:
  "let d = wd_daemon (run_ops (world_step run_host) (run_ops (world_step run_host) run_start run_paired)
      [(Verb RqLock, tick_at 5), (Verb (RqSetup Generate), (tick_at 6)\<lparr>tk_key := ''key1''\<rparr>)])
    in vt_key (d_vault d) \<in> {None, Some ''key0''} \<and> map_option b_keys (d_bunker d) \<in> {None, Some ''key0''}"
  unfolding run_start_def
  by (rule daemon_keeps_its_key [OF _ _ refl run_paired_key [unfolded run_start_def]])
    (simp_all add: run_host_def demo_keycrate_laws)

section \<open>Revocation, and what re-arming forgets\<close>

text \<open>What the daemon holds against an app: no session, a tombstone if armed, no roads of its own.\<close>

definition shut_out :: "pubkey \<Rightarrow> 's daemon \<Rightarrow> bool" where
  "shut_out pk d \<longleftrightarrow>
     (\<forall>b. d_bunker d = Some b \<longrightarrow> pk \<in> b_revoked b \<and> pk \<notin> b_sessions b)"

lemma handle_revoke_shuts_out:
  assumes "find_app (d_engine d) app \<noteq> None" "pk_parse (ho_crate H) app = Inr pk"
  shows "shut_out pk (snd (handle_revoke H t app d)) \<and>
    (\<forall>p. d_pool d = Some p \<and> d_bunker d \<noteq> None \<longrightarrow>
       (\<exists>p'. d_pool (snd (handle_revoke H t app d)) = Some p' \<and> (\<forall>r \<in> set (po_roads p'). rd_app r \<noteq> Some pk)))"
  using assms
  by (cases "d_bunker d")
    (auto simp: shut_out_def handle_revoke_def revoke_def mark_revoked_def evict_def drop_app_def Let_def
      case_prod_unfold split: option.splits)

text \<open>The steps after which an app that was shut out may be let in again.\<close>

definition lets_in :: "world_op \<Rightarrow> bool" where
  "lets_in op \<longleftrightarrow>
     (case op of Verb request \<Rightarrow>
        (case request of RqUnlock \<Rightarrow> True | RqSetup _ \<Rightarrow> True | RqRotate \<Rightarrow> True | RqConnect _ \<Rightarrow> True
           | RqUnrevoke _ \<Rightarrow> True | _ \<Rightarrow> False)
      | _ \<Rightarrow> False)"

lemma shut_out_same: "shut_out pk d \<Longrightarrow> d_bunker d' = d_bunker d \<Longrightarrow> shut_out pk d'"
  by (simp add: shut_out_def)

lemma shut_out_gone: "d_bunker d' = None \<Longrightarrow> shut_out pk d'"
  by (simp add: shut_out_def)

lemma bunker_keepers:
  "d_bunker (snd (handle_status H t d)) = d_bunker d"
  "d_bunker (snd (handle_approve t i hours d)) = d_bunker d"
  "d_bunker (snd (handle_deny t i d)) = d_bunker d"
  "d_bunker (snd (handle_label t app name d)) = d_bunker d"
  "d_bunker (snd (handle_level app l d)) = d_bunker d"
  by (auto simp: handle_status_def drain_status_def handle_approve_def handle_deny_def handle_label_def
      handle_level_def Let_def case_prod_unfold split: sum.split option.split)

lemma shut_out_mint: "shut_out pk d \<Longrightarrow> shut_out pk (snd (handle_mint H t label d))"
  by (auto simp: shut_out_def handle_mint_def with_secrets_def Let_def case_prod_unfold
      split: option.split sum.split)

lemma shut_out_revoke: "shut_out pk d \<Longrightarrow> shut_out pk (snd (handle_revoke H t app d))"
  by (auto simp: shut_out_def handle_revoke_def mark_revoked_def evict_def Let_def case_prod_unfold
      split: option.split sum.split)

lemma shut_out_delete: "shut_out pk d \<Longrightarrow> shut_out pk (snd (handle_delete H t app d))"
  by (auto simp: shut_out_def handle_delete_def evict_def Let_def case_prod_unfold
      split: option.split sum.split)

lemma shut_out_handle: "shut_out pk d \<Longrightarrow> \<not> lets_in (Verb request) \<Longrightarrow> shut_out pk (snd (handle H t request d))"
  by (cases request)
    (auto simp: handle_def lets_in_def handle_destroy_def Let_def case_prod_unfold
      intro: shut_out_same bunker_keepers shut_out_gone shut_out_mint shut_out_revoke shut_out_delete
      split: sum.split)

lemma shut_out_plan:
  assumes "shut_out pk d"
  shows "shut_out pk (snd (plan_bunker_event H t ev d))"
proof (cases "d_bunker d")
  case (Some b)
  obtain p b' where p: "plan (ho_crate H) b ev (tk_now t) (tk_mt t) = (p, b')" by fastforce
  from assms Some have b: "pk \<in> b_revoked b" "pk \<notin> b_sessions b" by (auto simp: shut_out_def)
  then have "pk \<notin> b_sessions b'"
    using plan_served(3) [OF p, of pk] plan_served(5) [OF p] by (cases "pk = ev_pubkey ev") auto
  with b Some p plan_served(1) [OF p] show ?thesis by (simp add: plan_bunker_event_def shut_out_def)
qed (use assms in \<open>simp add: plan_bunker_event_def\<close>)

lemma work_plan_bunker [simp]: "d_bunker (wd_daemon (work_plan t p w)) = d_bunker (wd_daemon w)"
  by (cases p) (simp_all add: work_plan_def)

lemma shut_out_world:
  assumes "shut_out pk (wd_daemon w)" "\<not> lets_in op"
  shows "shut_out pk (wd_daemon (world_step H w (op, t)))"
proof (cases op)
  case Work
  show ?thesis
  proof (cases "wd_worker w")
    case Idle
    with Work assms(1) show ?thesis
      using shut_out_plan [OF assms(1), of H t]
      by (auto simp: worker_step_def case_prod_unfold split: list.split)
  qed (use Work assms(1) in \<open>auto intro: shut_out_same simp: worker_step_def work_gate_def work_ask_def
      burn_def daemon_publish_def case_prod_unfold split: option.split\<close>)
qed (use assms shut_out_handle in \<open>auto intro: shut_out_same simp: watchdog_beat_def shut_out_gone\<close>)

lemma shut_out_run:
  "shut_out pk (wd_daemon w) \<Longrightarrow> \<forall>e \<in> set es. \<not> lets_in (fst e) \<Longrightarrow>
     shut_out pk (wd_daemon (run_ops (world_step H) w es))"
proof (induction es arbitrary: w)
  case (Cons e es)
  then show ?case using shut_out_world [of pk w "fst e" H "snd e"] by simp
qed simp

text \<open>
  C6. Revoking is one act and it lasts until something re-arms: after a revoke that found the app,
  its roads are gone, and through every later history without an unlock, a setup, a rotation, an
  un-revoke or a pasted pairing URI the app has no session and stays tombstoned, and the worker
  never plans to pair it, ask for it, serve it relays or end it.
\<close>

theorem revoke_holds_until_rearmed:
  assumes "find_app (d_engine (wd_daemon w)) app \<noteq> None" "pk_parse (ho_crate H) app = Inr pk"
    and "w' = world_step H w (Verb (RqRevoke app), t)"
    and "\<forall>e \<in> set es. \<not> lets_in (fst e)"
  shows "(d_bunker (wd_daemon w) \<noteq> None \<longrightarrow>
      (\<forall>p r. d_pool (wd_daemon w') = Some p \<and> r \<in> set (po_roads p) \<longrightarrow> rd_app r \<noteq> Some pk)) \<and>
    (let w2 = run_ops (world_step H) w' es
     in (\<forall>b. d_bunker (wd_daemon w2) = Some b \<longrightarrow> pk \<in> b_revoked b \<and> pk \<notin> b_sessions b) \<and>
        (\<forall>t' p. wd_worker w2 = Idle \<and> wd_worker (worker_step H t' w2) = Planned p \<longrightarrow>
           served_app p \<noteq> Some pk))"
proof -
  note act = handle_revoke_shuts_out [OF assms(1,2), of t]
  have d': "wd_daemon w' = snd (handle_revoke H t app (wd_daemon w))" by (simp add: assms(3) handle_def)
  have out: "shut_out pk (wd_daemon (run_ops (world_step H) w' es))"
    by (rule shut_out_run [OF _ assms(4)]) (use act d' in simp)
  have roads: "d_bunker (wd_daemon w) \<noteq> None \<longrightarrow>
      (\<forall>p r. d_pool (wd_daemon w') = Some p \<and> r \<in> set (po_roads p) \<longrightarrow> rd_app r \<noteq> Some pk)"
  proof (intro impI allI, elim conjE)
    fix p r assume r: "d_bunker (wd_daemon w) \<noteq> None" "d_pool (wd_daemon w') = Some p" "r \<in> set (po_roads p)"
    then have "d_pool (wd_daemon w) \<noteq> None"
      by (auto simp: d' handle_revoke_def Let_def case_prod_unfold split: option.splits sum.splits if_splits)
    with act r show "rd_app r \<noteq> Some pk" unfolding d' by fastforce
  qed
  have "served_app p \<noteq> Some pk"
    if e: "wd_worker w2 = Idle" "wd_worker (worker_step H t' w2) = Planned p" "shut_out pk (wd_daemon w2)"
    for t' p and w2 :: "'a world"
  proof -
    from e obtain ev b where "d_bunker (wd_daemon w2) = Some b" "fst (plan (ho_crate H) b ev (tk_now t') (tk_mt t')) = p"
      by (auto simp: worker_step_def plan_bunker_event_def case_prod_unfold split: list.splits option.splits)
    with plan_served(4) [of "ho_crate H" b ev "tk_now t'" "tk_mt t'" p _ pk] e(3) show ?thesis
      by (force simp: shut_out_def prod_eq_iff)
  qed
  with out roads show ?thesis by (auto simp: Let_def shut_out_def)
qed

lemma run_paired_app: "find_app (d_engine (wd_daemon (run_ops (world_step run_host) run_start run_paired))) ''app'' \<noteq> None"
  by code_simp

lemma map_option_all: "\<forall>b. x = Some b \<longrightarrow> P b \<Longrightarrow> map_option P x \<in> {None, Some True}"
  by (cases x) auto

lemma revoke_holds_until_rearmed_witness:
  "let w2 = run_ops (world_step run_host) (world_step run_host (run_ops (world_step run_host) run_start run_paired)
       (Verb (RqRevoke ''app''), tick_at 1001)) [(Deliver (sent ''e3'' ''app'' 1001 ''6364''), tick_at 1001)]
   in map_option (\<lambda>b. ''app'' \<in> b_revoked b \<and> ''app'' \<notin> b_sessions b) (d_bunker (wd_daemon w2)) \<in> {None, Some True}"
proof -
  have "pk_parse (ho_crate run_host) ''app'' = Inr ''app''" by (simp add: run_host_def demo_crate_def)
  from revoke_holds_until_rearmed [OF run_paired_app this refl, where t = "tick_at 1001"
      and es = "[(Deliver (sent ''e3'' ''app'' 1001 ''6364''), tick_at 1001)]"]
  have "let w2 = run_ops (world_step run_host) (world_step run_host (run_ops (world_step run_host) run_start run_paired)
       (Verb (RqRevoke ''app''), tick_at 1001)) [(Deliver (sent ''e3'' ''app'' 1001 ''6364''), tick_at 1001)]
   in \<forall>b. d_bunker (wd_daemon w2) = Some b \<longrightarrow> ''app'' \<in> b_revoked b \<and> ''app'' \<notin> b_sessions b"
    unfolding Let_def by (simp add: lets_in_def del: world_step.simps run_ops.simps)
  then show ?thesis unfolding Let_def by (rule map_option_all)
qed

text \<open>
  What arming leaves is the persisted state and nothing else: the new bunker's sessions are the
  pairings on record that are not revoked, its secrets are the vault's, its roads the declared
  ones; and it has no tombstone at all, no memory of the requests it answered and no rate books.
\<close>

theorem arming_starts_over:
  "\<exists>b. d_bunker (snd (arm_bunker H key d)) = Some b \<and> b_keys b = key \<and>
     b_secrets b = vault_outstanding (d_vault d) \<and> b_relays b = d_relays d \<and>
     b_sessions b = {pk. \<exists>p \<in> set (e_apps (d_engine d)).
       p_revoked_at p = None \<and> pk_parse (ho_crate H) (p_pubkey p) = Inr pk} \<and>
     b_revoked b = {} \<and> b_replay b = replay_empty \<and> b_rate b = [] \<and>
     d_pool (snd (arm_bunker H key d)) = Some (pool_spawn (d_relays d))"
  by (auto simp: seed_apps_seeded split: sum.splits if_splits)

definition run_revoked :: "(world_op \<times> tick) list" where
  "run_revoked = run_paired @
     [(Verb (RqRevoke ''app''), tick_at 1002), (Verb RqLock, tick_at 1003), (Verb RqUnlock, tick_at 1004),
      (Deliver (sent ''e4'' ''app'' 1005 ''6162''), tick_at 1005), (Work, tick_at 1005), (Work, tick_at 1005),
      (Work, tick_at 1005), (Work, tick_at 1005)]"


text \<open>
  Nor does the memory of what was answered: an unlock, even of an open gate, forgets every
  request seen, and the same signed request is planned a second time.
\<close>

theorem answered_request_is_planned_again_after_unlock:
  "let w1 = run_ops (world_step run_host) run_start
        (run_paired @ [(Deliver (sent ''e2'' ''app'' 1001 ''sign''), tick_at 1001), (Work, tick_at 1001)]);
      w2 = run_ops (world_step run_host) run_start
        (run_approved @ [(Work, tick_at 1003), (Work, tick_at 1003), (Verb RqUnlock, tick_at 1004),
          (Deliver (sent ''e2'' ''app'' 1001 ''sign''), tick_at 1005), (Work, tick_at 1005)])
   in wd_worker w1 = Planned (PlanAsk (sent ''e2'' ''app'' 1001 ''sign'') ''1'' SignEvent [''kind1'']) \<and>
     wd_worker w2 = wd_worker w1"
  by code_simp

section \<open>The inactivity switch\<close>

definition presence :: "world_op \<Rightarrow> bool" where
  "presence op \<longleftrightarrow> op = Verb RqTouch \<or> op = Verb RqUnlock"

lemma activity_keepers:
  "d_last_activity (snd (handle_status H t d)) = d_last_activity d"
  "d_last_activity (snd (handle_setup H t mode d)) = d_last_activity d"
  "d_last_activity (snd (handle_destroy H confirm d)) = d_last_activity d"
  "d_last_activity (snd (handle_mint H t label d)) = d_last_activity d"
  "d_last_activity (snd (rotate H t d)) = d_last_activity d"
  "d_last_activity (snd (handle_connect H t uri d)) = d_last_activity d"
  "d_last_activity (snd (handle_approve t i hours d)) = d_last_activity d"
  "d_last_activity (snd (handle_deny t i d)) = d_last_activity d"
  "d_last_activity (snd (handle_revoke H t app d)) = d_last_activity d"
  "d_last_activity (snd (handle_unrevoke H t app d)) = d_last_activity d"
  "d_last_activity (snd (handle_delete H t app d)) = d_last_activity d"
  "d_last_activity (snd (handle_label t app name d)) = d_last_activity d"
  "d_last_activity (snd (handle_level app l d)) = d_last_activity d"
  by (auto simp: handle_status_def drain_status_def handle_setup_def handle_destroy_def handle_mint_def
      rotate_def handle_connect_def handle_approve_def handle_deny_def handle_revoke_def
      handle_unrevoke_def handle_delete_def handle_label_def handle_level_def Let_def case_prod_unfold
      split: sum.split option.split)

lemma window_keepers:
  "d_inactivity (snd (handle_status H t d)) = d_inactivity d"
  "d_inactivity (snd (handle_setup H t mode d)) = d_inactivity d"
  "d_inactivity (snd (handle_unlock H t d)) = d_inactivity d"
  "d_inactivity (snd (handle_destroy H confirm d)) = d_inactivity d"
  "d_inactivity (snd (handle_mint H t label d)) = d_inactivity d"
  "d_inactivity (snd (rotate H t d)) = d_inactivity d"
  "d_inactivity (snd (handle_connect H t uri d)) = d_inactivity d"
  "d_inactivity (snd (handle_approve t i hours d)) = d_inactivity d"
  "d_inactivity (snd (handle_deny t i d)) = d_inactivity d"
  "d_inactivity (snd (handle_revoke H t app d)) = d_inactivity d"
  "d_inactivity (snd (handle_unrevoke H t app d)) = d_inactivity d"
  "d_inactivity (snd (handle_delete H t app d)) = d_inactivity d"
  "d_inactivity (snd (handle_label t app name d)) = d_inactivity d"
  "d_inactivity (snd (handle_level app l d)) = d_inactivity d"
  by (auto simp: handle_status_def drain_status_def handle_setup_def handle_unlock_def startup_unlock_def
      handle_destroy_def handle_mint_def rotate_def handle_connect_def handle_approve_def handle_deny_def
      handle_revoke_def handle_unrevoke_def handle_delete_def handle_label_def handle_level_def Let_def
      case_prod_unfold split: sum.split option.split)

lemma handle_switch:
  "d_inactivity (snd (handle H t request d)) = d_inactivity d"
  "\<not> presence (Verb request) \<Longrightarrow> d_last_activity (snd (handle H t request d)) = d_last_activity d"
  using window_keepers(6) [of H t d] activity_keepers(5) [of H t d]
  by (cases request; auto simp: handle_def presence_def activity_keepers window_keepers case_prod_unfold
      split: sum.split)+

lemma work_plan_switch [simp]:
  "d_inactivity (wd_daemon (work_plan t p w)) = d_inactivity (wd_daemon w)"
  "d_last_activity (wd_daemon (work_plan t p w)) = d_last_activity (wd_daemon w)"
  by (cases p; simp add: work_plan_def)+

lemma worker_switch:
  "d_inactivity (wd_daemon (worker_step H t w)) = d_inactivity (wd_daemon w)"
  "d_last_activity (wd_daemon (worker_step H t w)) = d_last_activity (wd_daemon w)"
  by (cases "wd_worker w"; auto simp: worker_step_def work_gate_def work_ask_def plan_bunker_event_def
      burn_def daemon_publish_def case_prod_unfold split: list.split option.split)+

lemma world_switch:
  "d_inactivity (wd_daemon (world_step H w (op, t))) = d_inactivity (wd_daemon w)"
  "\<not> presence op \<Longrightarrow> d_last_activity (wd_daemon (world_step H w (op, t))) = d_last_activity (wd_daemon w)"
  by (cases op; auto simp: handle_switch worker_switch watchdog_beat_def)+

lemma run_switch:
  "\<forall>e \<in> set es. \<not> presence (fst e) \<Longrightarrow>
     d_inactivity (wd_daemon (run_ops (world_step H) w es)) = d_inactivity (wd_daemon w) \<and>
     d_last_activity (wd_daemon (run_ops (world_step H) w es)) = d_last_activity (wd_daemon w)"
proof (induction es arbitrary: w)
  case (Cons e es)
  obtain op t where "e = (op, t)" by fastforce
  with Cons world_switch(2) [of op H w t] show ?case by (simp add: world_switch(1))
qed simp

text \<open>
  C13. The dead man's switch cannot be kept open by traffic: whatever the apps send, the worker does
  and the other verbs are, the first beat later than the window after the last unlock or
  keep-alive leaves the gate closed, with no bunker and no pool.
\<close>

theorem inactivity_closes_the_gate:
  assumes "armed_open (wd_daemon w)" "d_inactivity (wd_daemon w) = Some window"
    and "\<forall>e \<in> set es. \<not> presence (fst e)"
    and "window < tk_mt t - d_last_activity (wd_daemon w)"
  shows "let d = wd_daemon (world_step H (run_ops (world_step H) w es) (Watch, t))
    in \<not> is_unlocked (d_vault d) \<and> d_bunker d = None \<and> d_pool d = None"
proof -
  let ?d = "wd_daemon (run_ops (world_step H) w es)"
  have armed: "armed_open ?d" by (rule daemon.good_from [OF assms(1)])
  have sw: "d_inactivity ?d = Some window" "d_last_activity ?d = d_last_activity (wd_daemon w)"
    using run_switch [OF assms(3), of H w] assms(2) by auto
  show ?thesis
  proof (cases "is_unlocked (d_vault ?d)")
    case True
    with sw assms(4) show ?thesis
      by (simp add: watchdog_beat_def inactivity_expired_def is_unlocked_def vault_lock_def)
  next
    case False
    with armed show ?thesis
      by (auto simp: watchdog_beat_def inactivity_expired_def armed_open_def is_unlocked_def)
  qed
qed

lemma inactivity_closes_the_gate_witness:
  "let d = wd_daemon (world_step run_host (run_ops (world_step run_host)
      (daemon_start None [] (engine_new False True None None) (Some 9) 0)
      [(Verb (RqSetup Generate), tick_at 5), (Verb RqPing, tick_at 6)]) (Watch, (tick_at 7)\<lparr>tk_mt := 10\<rparr>))
   in \<not> is_unlocked (d_vault d) \<and> d_bunker d = None \<and> d_pool d = None"
  by (rule inactivity_closes_the_gate [where window = 9])
    (simp_all add: armed_open_def vault_new_def presence_def daemon_start_def world_new_def with_inactivity_def
      daemon_new_def)

text \<open>
  A setup is a fresh gate that does not touch the clock: on a daemon that has been running
  locked for longer than its window, the vault that was just set up is locked by the next beat.
\<close>

theorem setup_does_not_touch:
  "let w = run_ops (world_step run_host)
        (daemon_start None [] (engine_new False True None None) (Some 9) 0)
        [(Verb (RqSetup Generate), (tick_at 5)\<lparr>tk_mt := 10\<rparr>)];
      w' = world_step run_host w (Watch, (tick_at 5)\<lparr>tk_mt := 11\<rparr>)
   in is_unlocked (d_vault (wd_daemon w)) \<and> \<not> is_unlocked (d_vault (wd_daemon w'))"
  by code_simp

end
