(* ===== verification/DaemonAsks.thy ===== *)
theory DaemonAsks
  imports DaemonRuns
begin

text \<open>
  The worker over time: that it finishes every event, what an unanswered ask holds up, how long
  an answer is remembered, and the races and gaps between the worker's beats and the verbs.
\<close>

section \<open>The worker finishes\<close>

lemma worker_steps:
  "wd_worker w = Planned p \<Longrightarrow> worker_step H t w = work_plan t p w"
  "wd_worker w = Burning s ans \<Longrightarrow>
     worker_step H t w = becomes (Publishing ans) (w\<lparr>wd_daemon := snd (burn H s (wd_daemon w))\<rparr>)"
  "wd_worker w = Publishing ans \<Longrightarrow>
     worker_step H t w = becomes Idle (w\<lparr>wd_daemon := snd (daemon_publish ans (wd_daemon w))\<rparr>)"
  "wd_worker w = Gating r i m ps \<Longrightarrow> worker_step H t w = work_gate H t r i m ps w"
  "wd_worker w = Asking r i m ps \<Longrightarrow> worker_step H t w = work_ask H t r i m ps w"
  "wd_worker w = Decided r i m ps d \<Longrightarrow>
     worker_step H t w = becomes (case execute_bunker_event H t r i m ps d (wd_daemon w) of
       Some ans \<Rightarrow> Publishing ans | None \<Rightarrow> Idle) w"
  by (simp_all add: worker_step_def)

lemma publishing_done:
  "wd_worker w = Publishing ans \<Longrightarrow>
     wd_worker (worker_step H t w) = Idle \<and> wd_inbox (worker_step H t w) = wd_inbox w"
  by (simp add: worker_steps)

lemma decided_done:
  assumes "wd_worker w = Decided r i m ps d"
  shows "wd_inbox (worker_step H t w) = wd_inbox w \<and>
    (wd_worker (worker_step H t w) = Idle \<or> (\<exists>ans. wd_worker (worker_step H t w) = Publishing ans))"
  using assms by (simp add: worker_steps split: option.split)

lemma plan_done:
  assumes "wd_worker w = Planned p"
  shows "wd_inbox (worker_step H t w) = wd_inbox w \<and>
    (wd_worker (worker_step H t w) = Idle \<or> (\<exists>ans. wd_worker (worker_step H t w) = Publishing ans) \<or>
     (\<exists>s ans. wd_worker (worker_step H t w) = Burning s ans) \<or>
     (\<exists>r i m ps. wd_worker (worker_step H t w) = Gating r i m ps \<and> p = PlanAsk r i m ps \<and>
        find_app (d_engine (wd_daemon (worker_step H t w))) (ev_pubkey r) \<noteq> None))"
proof (cases p)
  case (PlanAsk r i m ps)
  obtain q where "find_app (decide_pair (d_engine (wd_daemon w)) (ev_pubkey r) (tk_now t)) (ev_pubkey r) = Some q"
    by (rule paired_then)
  with assms PlanAsk show ?thesis by (simp add: worker_steps work_plan_def)
qed (use assms in \<open>simp_all add: worker_steps work_plan_def split: option.split\<close>)

lemma gate_waits: "e_waits (snd (decide_gate C e app m ps now)) = e_waits e"
  by (simp add: decide_gate_def Let_def split: option.split)

lemma pair_waits [simp]: "e_waits (pair_with_metadata e app n img ps u now) = e_waits e"
  by (simp add: pair_with_metadata_def split: option.split)

text \<open>An event in the worker's hands is finished in at most so many steps.\<close>

fun steps_left :: "'s world \<Rightarrow> nat" where
  "steps_left w =
     (case wd_worker w of
        Idle \<Rightarrow> 0 | Planned _ \<Rightarrow> 7 | Burning _ _ \<Rightarrow> 2 | Publishing _ \<Rightarrow> 1 | Gating _ _ _ _ \<Rightarrow> 6
      | Asking _ _ _ _ \<Rightarrow> 5 | Decided _ _ _ _ _ \<Rightarrow> 2 | Dead \<Rightarrow> 0
      | Deciding _ _ _ _ n \<Rightarrow> (if decide_result (d_engine (wd_daemon w)) n = None then 4 else 3))"

text \<open>
  What moves the worker on: the end of the window when it waits on an answer, a step of its own
  otherwise.
\<close>

definition next_move :: "'s world \<Rightarrow> world_op" where
  "next_move w =
     (case wd_worker w of
        Deciding _ _ _ _ n \<Rightarrow> (if decide_result (d_engine (wd_daemon w)) n = None then Fire n else Work)
      | _ \<Rightarrow> Work)"

definition gate_ready :: "'s world \<Rightarrow> bool" where
  "gate_ready w \<longleftrightarrow>
     (case wd_worker w of
        Gating r i m ps \<Rightarrow> find_app (d_engine (wd_daemon w)) (ev_pubkey r) \<noteq> None
      | Deciding r i m ps n \<Rightarrow> n < length (e_waits (d_engine (wd_daemon w)))
      | Dead \<Rightarrow> False
      | _ \<Rightarrow> True)"

lemma decide_result_fire:
  "n < length (e_waits e) \<Longrightarrow> decide_result e n = None \<Longrightarrow>
     decide_result (decide_fire e n) n = Some (Deny ''the ask timed out unanswered'')"
  by (auto simp: decide_result_def decide_fire_def split: wait.splits)

lemma move_progress:
  assumes "gate_ready w" "wd_worker w \<noteq> Idle"
  shows "let w' = world_step H w (next_move w, t)
    in gate_ready w' \<and> wd_inbox w' = wd_inbox w \<and> steps_left w' < steps_left w"
proof (cases "wd_worker w")
  case (Planned p)
  with plan_done [OF Planned, of H t] show ?thesis
    by (auto simp: next_move_def gate_ready_def Let_def)
next
  case (Burning s ans)
  then show ?thesis by (simp add: next_move_def gate_ready_def Let_def worker_steps)
next
  case (Publishing ans)
  then show ?thesis by (simp add: next_move_def gate_ready_def Let_def worker_steps)
next
  case (Gating r i m ps)
  with assms(1) have "fst (decide_gate (ho_crate H) (d_engine (wd_daemon w)) (ev_pubkey r) m ps (tk_now t)) \<noteq> GatePanic"
    by (auto simp: gate_ready_def decide_gate_def Let_def split: if_splits)
  with Gating show ?thesis
    by (simp add: next_move_def gate_ready_def Let_def worker_steps work_gate_def case_prod_unfold
        split: gate_outcome.split)
next
  case (Asking r i m ps)
  obtain n e where ask: "decide_ask (ho_crate H) (d_engine (wd_daemon w)) (ev_pubkey r) m ps (tk_now t) = (n, e)"
    by fastforce
  with asked_waiter [OF ask [symmetric]] Asking show ?thesis
    by (simp add: next_move_def gate_ready_def Let_def worker_steps work_ask_def)
next
  case (Deciding r i m ps n)
  then have n: "n < length (e_waits (d_engine (wd_daemon w)))" using assms(1) by (simp add: gate_ready_def)
  show ?thesis
  proof (cases "decide_result (d_engine (wd_daemon w)) n")
    case None
    with Deciding n decide_result_fire [OF n None] show ?thesis
      by (simp add: next_move_def gate_ready_def Let_def) (simp add: decide_fire_def)
  next
    case (Some d)
    with Deciding show ?thesis
      by (simp add: next_move_def gate_ready_def Let_def worker_step_def)
  qed
next
  case (Decided r i m ps d)
  with decided_done [OF Decided, of H t] show ?thesis
    by (auto simp: next_move_def gate_ready_def Let_def)
qed (use assms in \<open>simp_all add: gate_ready_def\<close>)

text \<open>The moves one after the other, with the clocks they happen at.\<close>

fun moves :: "'s host \<Rightarrow> 's world \<Rightarrow> tick list \<Rightarrow> 's world" where
  "moves H w [] = w"
| "moves H w (t # ts) = (if wd_worker w = Idle then w else moves H (world_step H w (next_move w, t)) ts)"

lemma moves_finish:
  "gate_ready w \<Longrightarrow> steps_left w \<le> length ts \<Longrightarrow>
     wd_worker (moves H w ts) = Idle \<and> wd_inbox (moves H w ts) = wd_inbox w"
proof (induction ts arbitrary: w)
  case Nil
  then show ?case by (auto simp: gate_ready_def split: worker.splits if_splits)
next
  case (Cons t ts)
  show ?case
  proof (cases "wd_worker w = Idle")
    case False
    from move_progress [OF Cons.prems(1) False, of H t] Cons.prems(2)
    have "gate_ready (world_step H w (next_move w, t))"
      "steps_left (world_step H w (next_move w, t)) \<le> length ts"
      "wd_inbox (world_step H w (next_move w, t)) = wd_inbox w" by (simp_all add: Let_def)
    with Cons.IH [OF this(1,2)] False show ?thesis by simp
  qed simp
qed

text \<open>
  C14. The worker finishes every event: taking one off its channel, it is idle again after at most
  seven more moves, each a step of its own or, when it waits on a person, the end of the ask's
  window; the rest of the channel is untouched. No event makes it wait for ever or die, when no
  verb comes in between.
\<close>

theorem worker_finishes_every_event:
  assumes "wd_worker w = Idle" "wd_inbox w = ev # evs" "length ts = 7"
  shows "let w' = moves H (world_step H w (Work, t)) ts
    in wd_worker w' = Idle \<and> wd_inbox w' = evs"
proof -
  obtain p d where p: "plan_bunker_event H t ev (wd_daemon w) = (p, d)" by fastforce
  have "wd_inbox (worker_step H t w) = evs" "gate_ready (worker_step H t w)"
    "steps_left (worker_step H t w) \<le> 7"
    using assms p by (auto simp: worker_step_def gate_ready_def split: option.split)
  with moves_finish [of "worker_step H t w" ts H] assms(3) show ?thesis by (simp add: Let_def)
qed

lemma worker_finishes_every_event_witness:
  "let w' = moves run_host (world_step run_host (run_start\<lparr>wd_inbox := [sent ''e1'' ''app'' 5 ''6364'']\<rparr>)
      (Work, tick_at 5)) (replicate 7 (tick_at 6))
   in wd_worker w' = Idle \<and> wd_inbox w' = []"
  by (rule worker_finishes_every_event) (simp_all add: run_start_def)

section \<open>What an unanswered ask holds up\<close>

definition traffic :: "world_op \<Rightarrow> bool" where
  "traffic op \<longleftrightarrow> (case op of Deliver ev \<Rightarrow> True | Said url st \<Rightarrow> True | Work \<Rightarrow> True | _ \<Rightarrow> False)"

fun delivered :: "(world_op \<times> tick) list \<Rightarrow> event list" where
  "delivered [] = []"
| "delivered ((Deliver ev, t) # es) = ev # delivered es"
| "delivered (_ # es) = delivered es"

text \<open>
  One unanswered ask holds up every app: while the worker waits for a person, whatever arrives,
  from whichever app, stays in its channel. No request is planned, no connect is answered, no
  identical ask can join the card, and nothing is published.
\<close>

theorem unanswered_ask_holds_up_every_app:
  assumes "wd_worker w = Deciding request i m params n"
    and "decide_result (d_engine (wd_daemon w)) n = None"
    and "\<forall>e \<in> set es. traffic (fst e)"
  shows "let w' = run_ops (world_step H) w es
    in wd_worker w' = wd_worker w \<and> wd_inbox w' = wd_inbox w @ delivered es \<and>
       d_engine (wd_daemon w') = d_engine (wd_daemon w) \<and>
       d_bunker (wd_daemon w') = d_bunker (wd_daemon w) \<and> d_pool (wd_daemon w') = d_pool (wd_daemon w)"
  using assms
proof (induction es arbitrary: w)
  case (Cons e es)
  obtain op t where e: "e = (op, t)" by fastforce
  let ?v = "world_step H w e"
  have "op = Work \<or> (\<exists>ev. op = Deliver ev) \<or> (\<exists>url st. op = Said url st)"
    using Cons.prems(3) by (auto simp: e traffic_def split: world_op.splits)
  then have v: "wd_worker ?v = wd_worker w" "d_engine (wd_daemon ?v) = d_engine (wd_daemon w)"
    "d_bunker (wd_daemon ?v) = d_bunker (wd_daemon w)" "d_pool (wd_daemon ?v) = d_pool (wd_daemon w)"
    "wd_inbox w @ delivered (e # es) = wd_inbox ?v @ delivered es"
    using Cons.prems(1,2) by (auto simp: e worker_step_def)
  show ?case
    using Cons.IH [of ?v] Cons.prems v by (simp add: Let_def)
qed simp

definition run_asking :: "(world_op \<times> tick) list" where
  "run_asking = run_paired @
     [(Deliver (sent ''e2'' ''app'' 1001 ''sign''), tick_at 1001), (Work, tick_at 1001), (Work, tick_at 1001),
      (Work, tick_at 1001), (Work, tick_at 1001)]"

lemma run_asking_waits:
  "wd_worker (run_ops (world_step run_host) run_start run_asking) =
     Deciding (sent ''e2'' ''app'' 1001 ''sign'') ''1'' SignEvent [''kind1''] 0"
  "decide_result (d_engine (wd_daemon (run_ops (world_step run_host) run_start run_asking))) 0 = None"
  by code_simp+

lemma unanswered_ask_holds_up_every_app_witness:
  "wd_inbox (run_ops (world_step run_host) (run_ops (world_step run_host) run_start run_asking)
      [(Deliver (sent ''e3'' ''other'' 1002 ''6162''), tick_at 1002), (Work, tick_at 1003)]) =
    wd_inbox (run_ops (world_step run_host) run_start run_asking) @ [sent ''e3'' ''other'' 1002 ''6162'']"
  using unanswered_ask_holds_up_every_app [OF run_asking_waits, of
      "[(Deliver (sent ''e3'' ''other'' 1002 ''6162''), tick_at 1002), (Work, tick_at 1003)]" run_host]
  by (simp add: traffic_def Let_def)

section \<open>How long an answer is remembered\<close>

lemma update_set: "set (AList.update k v m) \<subseteq> insert (k, v) (set m)"
  by (induction m) auto

lemma remembered_step:
  assumes "x \<in> set (e_remembered (policy_step C e (o', now)))"
  shows "x \<in> set (e_remembered e) \<or> (\<exists>i secs. o' = OpApprove i (Some secs) \<and> snd x = now + secs)"
proof (cases o')
  case (OpApprove i r)
  show ?thesis
  proof (cases "position (\<lambda>(k, _). k = i) (e_prompts e)")
    case None
    with OpApprove assms show ?thesis by (simp add: approve_def answer_def)
  next
    case (Some ix)
    with OpApprove assms update_set show ?thesis
      by (fastforce simp: approve_def answer_def stand_def Let_def case_prod_unfold split: option.splits)
  qed
next
  case (OpDeny i)
  with assms show ?thesis
    by (cases "position (\<lambda>(k, _). k = i) (e_prompts e)")
      (auto simp: deny_def answer_def stand_def Let_def case_prod_unfold)
qed (use assms in \<open>auto simp: verb_defs decide_gate_def decide_ask_def decide_fire_def decide_expire_def
    noted_def hm_retain_def forget_answers_def Let_def case_prod_unfold split: option.splits if_splits\<close>)

lemma policy_ops_approve_secs:
  "policy_ops H w (op, t) = [OpApprove i (Some secs)] \<Longrightarrow>
     \<exists>h. op = Verb (RqApprove i (Some h)) \<and> h \<le> 1 \<and> secs = h * 3600"
proof -
  have "plan_policy p \<noteq> [OpApprove i (Some secs)]" for p by (cases p) auto
  then show "policy_ops H w (op, t) = [OpApprove i (Some secs)] \<Longrightarrow> ?thesis"
    by (cases op) (auto simp: verb_policy_def worker_policy_def
        split: request.splits worker.splits option.splits sum.splits if_splits)
qed

lemma word_le_one: "(h :: u64) \<le> 1 \<Longrightarrow> h = 0 \<or> h = 1"
  by unat_arith

text \<open>
  No remembered answer outlives its hour: in every history of the daemon, each standing yes was
  given by an approve verb of that history and runs out at that verb's own time or 3600 seconds
  after it. Nothing else adds one, and a longer remember is refused and changes nothing.
\<close>

theorem remembered_an_hour_at_most:
  assumes "(key, until) \<in> set (e_remembered (d_engine (wd_daemon
      (run_ops (world_step H) (daemon_start s relays (engine_new p d a l) window mt) es))))"
  shows "\<exists>i h t. (Verb (RqApprove i (Some h)), t) \<in> set es \<and> until \<in> {tk_now t, tk_now t + 3600}"
  using assms
proof (induction es rule: rev_induct)
  case Nil
  then show ?case by (simp add: engine_new_def)
next
  case (snoc e es)
  let ?w = "run_ops (world_step H) (daemon_start s relays (engine_new p d a l) window mt) es"
  obtain op t where e: "e = (op, t)" by fastforce
  have mem: "(key, until) \<in> set (e_remembered (run_ops (policy_step (ho_crate H)) (d_engine (wd_daemon ?w))
      (at_tick t (policy_ops H ?w (op, t)))))"
    using snoc.prems by (simp add: run_ops_append e engine_world)
  show ?case
  proof (cases "(key, until) \<in> set (e_remembered (d_engine (wd_daemon ?w)))")
    case True
    from snoc.IH [OF this] show ?thesis by auto
  next
    case False
    with mem policy_ops_one [of H ?w "(op, t)"] obtain o' where o: "policy_ops H ?w (op, t) = [o']"
      "(key, until) \<in> set (e_remembered (policy_step (ho_crate H) (d_engine (wd_daemon ?w)) (o', tk_now t)))"
      by auto
    from remembered_step [OF o(2)] False obtain i secs where
      i: "o' = OpApprove i (Some secs)" "until = tk_now t + secs" by auto
    from policy_ops_approve_secs [OF o(1) [unfolded i]] obtain h where
      h: "op = Verb (RqApprove i (Some h))" "h \<le> 1" "secs = h * 3600" by blast
    from word_le_one [OF h(2)] i(2) h(3) have "until \<in> {tk_now t, tk_now t + 3600}" by auto
    with h(1) show ?thesis by (auto simp: e)
  qed
qed

definition run_remembered :: "(world_op \<times> tick) list" where
  "run_remembered = run_asking @ [(Verb (RqApprove ''1001-0001'' (Some 1)), tick_at 1002)]"

lemma run_remembered_until:
  "(''app:SignEvent'', 4602) \<in> set (e_remembered (d_engine (wd_daemon
     (run_ops (world_step run_host) run_start run_remembered))))"
  by code_simp

lemma remembered_an_hour_at_most_witness:
  "\<exists>i h t. (Verb (RqApprove i (Some h)), t) \<in> set run_remembered \<and> 4602 \<in> {tk_now t, tk_now t + 3600}"
  by (rule remembered_an_hour_at_most [OF run_remembered_until [unfolded run_start_def]])

section \<open>Races between the beats and the verbs\<close>

definition run_mint_race :: "(world_op \<times> tick) list" where
  "run_mint_race =
     [(Verb (RqSetup Generate), tick_at 1000), (Deliver (sent ''e1'' ''app'' 1000 ''6364''), tick_at 1000),
      (Work, tick_at 1000), (Work, tick_at 1000), (Verb (RqMint None), tick_at 1000), (Work, tick_at 1000),
      (Work, tick_at 1000), (Deliver (sent ''e2'' ''thief'' 1001 ''6364''), tick_at 1001), (Work, tick_at 1001)]"

text \<open>
  A secret can pair twice: the plan burns it in the bunker, but until the worker's next beat the
  vault still holds it, and a mint that comes in between hands the vault's list to the bunker
  again. The burn then takes only the stored copy, and a second app pairs with the same secret.
\<close>

theorem minted_between_the_beats_secret_pairs_twice:
  "(case wd_worker (run_ops (world_step run_host) run_start (take 4 run_mint_race)) of
      Burning secret _ \<Rightarrow> Some secret | _ \<Rightarrow> None) = Some ''6364'' \<and>
   (case wd_worker (run_ops (world_step run_host) run_start run_mint_race) of
      Planned (Paired _ app _ burned _) \<Rightarrow> Some (app, map_option os_secret burned) | _ \<Rightarrow> None) =
     Some (''thief'', Some ''6364'')"
  by code_simp

definition run_pasted :: "(world_op \<times> tick) list" where
  "run_pasted = run_paired @
     [(Verb (RqRevoke ''app''), tick_at 1002),
      (Verb (RqConnect ''nostrconnect://app?relay=wss://r&secret=x''), tick_at 1003),
      (Deliver (sent ''e5'' ''app'' 1004 ''sign''), tick_at 1004), (Work, tick_at 1004)]"

text \<open>
  Pasting a pairing URI lets a revoked app back in: the handshake opens a session for the client
  of the URI without looking at the tombstone, so the app's requests are planned as asks while
  its record says revoked and its tombstone stands.
\<close>

theorem pasted_uri_readmits_a_revoked_app:
  "let w = run_ops (world_step run_host) run_start run_pasted
   in map_option (\<lambda>b. ''app'' \<in> b_revoked b) (d_bunker (wd_daemon w)) = Some True \<and>
     map_option p_revoked_at (find_app (d_engine (wd_daemon w)) ''app'') = Some (Some 1002) \<and>
     wd_worker w = Planned (PlanAsk (sent ''e5'' ''app'' 1004 ''sign'') ''1'' SignEvent [''kind1''])"
  by code_simp

definition run_own_roads :: "(world_op \<times> tick) list" where
  "run_own_roads =
     [(Verb (RqSetup Generate), tick_at 1000),
      (Verb (RqConnect ''nostrconnect://app?relay=wss://r&secret=x''), tick_at 1001)]"

definition road_urls :: "string option world \<Rightarrow> (string \<times> pubkey option) list option" where
  "road_urls w = map_option (\<lambda>p. map (\<lambda>r. (rd_url r, rd_app r)) (po_roads p)) (d_pool (wd_daemon w))"

text \<open>
  A re-arm loses the roads of an app paired by a pasted URI: its answers took its own relays
  before the unlock, and take the declared ones only after it.
\<close>

theorem unlock_loses_an_apps_roads:
  "let w = run_ops (world_step run_host) run_start run_own_roads;
      w' = world_step run_host w (Verb RqUnlock, tick_at 1002)
   in road_urls w = Some [(''wss://relay'', None), (''wss://r'', Some ''app'')] \<and>
     road_urls w' = Some [(''wss://relay'', None)] \<and>
     map_option (\<lambda>b. is_paired b ''app'') (d_bunker (wd_daemon w')) = Some True"
  by code_simp

end
