(* ===== verification/Text_Lines.thy ===== *)
theory Text_Lines
  imports Uris
begin

text \<open>
  Lines and trimmed text, as the text formats of the image side read them: \<open>str::lines\<close>,
  \<open>str::trim\<close> and what rendering line by line gives back.
\<close>

section \<open>Lines\<close>

definition nl :: char where "nl = char_of (10 :: nat)"
definition cr :: char where "cr = char_of (13 :: nat)"

definition strip_cr :: "string \<Rightarrow> string" where
  "strip_cr l = (if l \<noteq> [] \<and> last l = cr then butlast l else l)"

text \<open>Pieces ended by a line feed, each without it and without one carriage return before it.\<close>

definition str_lines :: "string \<Rightarrow> string list" where
  "str_lines s =
     (let ws = split_char nl s
      in map strip_cr (butlast ws) @ (if last ws = [] then [] else [last ws]))"

definition strip_suffix :: "string \<Rightarrow> string \<Rightarrow> string option" where
  "strip_suffix p s = map_option rev (strip_prefix (rev p) (rev s))"

definition unlines :: "string list \<Rightarrow> string" where
  "unlines ls = concat (map (\<lambda>l. l @ [nl]) ls)"

text \<open>A line that survives being written and read.\<close>

definition line_ok :: "string \<Rightarrow> bool" where
  "line_ok l \<longleftrightarrow> nl \<notin> set l \<and> (l = [] \<or> last l \<noteq> cr)"

lemma split_unlines:
  "\<forall>l \<in> set ls. nl \<notin> set l \<Longrightarrow> split_char nl (unlines ls) = ls @ [[]]"
proof (induction ls)
  case (Cons l ls)
  then show ?case using split_char_append [of nl l "unlines ls"] by (simp add: unlines_def)
qed (simp add: unlines_def)

lemma strip_cr_ok [simp]: "line_ok l \<Longrightarrow> strip_cr l = l"
  by (auto simp: strip_cr_def line_ok_def)

theorem str_lines_unlines: "\<forall>l \<in> set ls. line_ok l \<Longrightarrow> str_lines (unlines ls) = ls"
proof -
  assume ok: "\<forall>l \<in> set ls. line_ok l"
  then have "split_char nl (unlines ls) = ls @ [[]]" by (intro split_unlines) (auto simp: line_ok_def)
  moreover from ok have "map strip_cr ls = ls" by (intro map_idI) simp
  ultimately show ?thesis by (simp add: str_lines_def)
qed

lemma split_char_pieces: "w \<in> set (split_char d s) \<Longrightarrow> d \<notin> set w"
  by (induction s arbitrary: w) (auto split: list.splits if_splits)

lemma str_lines_no_nl: "l \<in> set (str_lines s) \<Longrightarrow> nl \<notin> set l"
proof -
  assume "l \<in> set (str_lines s)"
  then have "\<exists>w \<in> set (split_char nl s). l = strip_cr w \<or> l = w"
    using last_in_set [OF split_char_ne, of nl s]
    by (auto simp: str_lines_def Let_def dest: in_set_butlastD split: if_splits)
  then obtain w where w: "w \<in> set (split_char nl s)" "l = strip_cr w \<or> l = w" by blast
  from split_char_pieces [OF w(1)] w(2) show "nl \<notin> set l"
    by (auto simp: strip_cr_def dest: in_set_butlastD split: if_splits)
qed

section \<open>Trimming\<close>

definition spaces :: "string list" where "spaces = map (map char_of) white_spaces"

definition space_first :: "string list \<Rightarrow> string \<Rightarrow> bool" where
  "space_first ws s \<longleftrightarrow> (\<exists>w \<in> set ws. w \<noteq> [] \<and> starts_with w s)"

text \<open>A text that neither begins nor ends with white space.\<close>

definition trimmed :: "string \<Rightarrow> bool" where
  "trimmed s \<longleftrightarrow> \<not> space_first spaces s \<and> \<not> space_first (map rev spaces) (rev s)"

lemma drop_any_drops: "\<not> space_first ws (drop_any ws s) \<and> (\<exists>p. s = p @ drop_any ws s)"
proof (induction ws s rule: drop_any.induct)
  case (1 ws s)
  show ?case
  proof (cases "find (\<lambda>w. w \<noteq> [] \<and> starts_with w s) ws")
    case None
    then have "drop_any ws s = s" by (simp add: drop_any.simps [of ws s])
    with None show ?thesis by (auto simp: find_None_iff space_first_def)
  next
    case (Some w)
    then have w: "starts_with w s" by (auto simp: find_Some_iff)
    from Some have d: "drop_any ws s = drop_any ws (drop (length w) s)" by (simp add: drop_any.simps [of ws s])
    from w obtain t where "s = w @ t" by (auto simp: starts_with_iff)
    moreover from 1 [OF Some] obtain p where "\<not> space_first ws (drop_any ws (drop (length w) s))"
      "drop (length w) s = p @ drop_any ws (drop (length w) s)" by auto
    ultimately show ?thesis using d by (metis append.assoc append_eq_conv_conj)
  qed
qed

lemma drop_any_keeps: "\<not> space_first ws s \<Longrightarrow> drop_any ws s = s"
  by (auto simp: drop_any.simps [of ws s] space_first_def find_Some_iff split: option.split)

lemma space_first_prefix: "space_first ws s \<Longrightarrow> space_first ws (s @ t)"
  by (auto simp: space_first_def starts_with_iff)

lemma trim_eq: "trim s = rev (drop_any (map rev spaces) (rev (drop_any spaces s)))"
  by (simp add: trim_def spaces_def Let_def)

lemma trim_infix: "\<exists>p q. s = p @ trim s @ q"
proof -
  from drop_any_drops [of spaces s] obtain p where p: "s = p @ drop_any spaces s" by blast
  from drop_any_drops [of "map rev spaces" "rev (drop_any spaces s)"] obtain q where
    "rev (drop_any spaces s) = q @ drop_any (map rev spaces) (rev (drop_any spaces s))" by blast
  then have "drop_any spaces s = trim s @ rev q" by (metis rev_append rev_rev_ident trim_eq)
  with p show ?thesis by metis
qed

lemma trimmed_trim [simp]: "trimmed (trim s)"
proof -
  let ?a = "drop_any spaces s"
  have r: "drop_any (map rev spaces) (rev ?a) = rev (trim s)" by (simp add: trim_eq)
  from drop_any_drops [of "map rev spaces" "rev ?a"] obtain q where
    q: "\<not> space_first (map rev spaces) (rev (trim s))" "rev ?a = q @ rev (trim s)" unfolding r by blast
  then have "?a = trim s @ rev q" by (metis rev_append rev_rev_ident)
  with drop_any_drops [of spaces s] have "\<not> space_first spaces (trim s)"
    using space_first_prefix [of spaces "trim s" "rev q"] by auto
  with q(1) show ?thesis by (simp add: trimmed_def)
qed

lemma trim_trimmed [simp]: "trimmed s \<Longrightarrow> trim s = s"
  by (simp add: trimmed_def trim_eq drop_any_keeps)

lemma trim_empty: "trim [] = []" by code_simp

lemma trimmed_Nil [simp]: "trimmed []"
  by (metis trim_empty trimmed_trim)

text \<open>A visible character belongs to no white space, so white space does not reach across it.\<close>

definition visible :: "char \<Rightarrow> bool" where
  "visible c \<longleftrightarrow> (\<forall>w \<in> set spaces. c \<notin> set w)"

lemma space_first_visible:
  assumes "\<forall>w \<in> set ws. c \<notin> set w"
  shows "space_first ws (a @ c # b) \<longleftrightarrow> space_first ws a"
proof
  assume "space_first ws (a @ c # b)"
  then obtain w t where w: "w \<in> set ws" "w \<noteq> []" "a @ c # b = w @ t"
    by (auto simp: space_first_def starts_with_iff)
  with assms have c: "c \<notin> set w" by blast
  have "length w \<le> length a"
  proof (rule ccontr)
    assume "\<not> length w \<le> length a"
    then have "length a < length w" by simp
    moreover have "(a @ c # b) ! length a = c" by (simp add: nth_append)
    ultimately have "w ! length a = c" using w(3) by (simp add: nth_append)
    with c \<open>length a < length w\<close> show False by (metis nth_mem)
  qed
  with w(3) have "starts_with w a" by (auto simp: starts_with_def append_eq_append_conv2)
  with w show "space_first ws a" by (auto simp: space_first_def)
next
  assume "space_first ws a"
  then show "space_first ws (a @ c # b)" by (rule space_first_prefix)
qed

lemma trimmed_visible:
  assumes "visible c"
  shows "trimmed (a @ c # b) \<longleftrightarrow> \<not> space_first spaces a \<and> \<not> space_first (map rev spaces) (rev b)"
proof -
  have c: "\<forall>w \<in> set spaces. c \<notin> set w" "\<forall>w \<in> set (map rev spaces). c \<notin> set w"
    using assms by (auto simp: visible_def)
  show ?thesis
    using space_first_visible [OF c(1), of a b] space_first_visible [OF c(2), of "rev b" "rev a"]
    by (simp add: trimmed_def)
qed

lemma visibleI:
  assumes "(of_char c :: nat) \<notin> set (concat white_spaces)"
  shows "visible c"
proof -
  have small: "\<forall>n \<in> set (concat white_spaces). n < 256" by (simp add: white_spaces_def)
  have "c \<notin> set (map char_of w)" if w: "w \<in> set white_spaces" for w :: "nat list"
  proof
    assume "c \<in> set (map char_of w)"
    then obtain n where "n \<in> set w" "c = char_of n" by auto
    with w small assms show False by fastforce
  qed
  then show ?thesis by (auto simp: visible_def spaces_def)
qed

lemma visible_ascii: "visible (CHR ''='')" "visible (CHR ''['')" "visible (CHR '']'')" "visible (CHR ''#'')"
  by (rule visibleI, simp add: white_spaces_def)+

lemma cr_space: "[cr] \<in> set spaces" "[nl] \<in> set spaces"
  by (simp_all add: spaces_def white_spaces_def cr_def nl_def)

lemma trimmed_no_cr: "trimmed s \<Longrightarrow> s = [] \<or> last s \<noteq> cr"
proof (cases s rule: rev_cases)
  case (snoc u c)
  assume "trimmed s"
  with snoc cr_space have "c \<noteq> cr"
    by (auto simp: trimmed_def space_first_def starts_with_def)
  with snoc show ?thesis by simp
qed simp

lemma space_first_Nil [simp]: "\<not> space_first ws []"
  by (auto simp: space_first_def starts_with_def)

lemma unlines_simps [simp]: "unlines [] = []" "unlines (l # ls) = l @ [nl] @ unlines ls"
  "unlines (as @ bs) = unlines as @ unlines bs"
  by (simp_all add: unlines_def)

section \<open>Blank text\<close>

lemma drop_any_visible: "c \<in> set s \<Longrightarrow> \<forall>w \<in> set ws. c \<notin> set w \<Longrightarrow> c \<in> set (drop_any ws s)"
proof (induction ws s rule: drop_any.induct)
  case (1 ws s)
  show ?case
  proof (cases "find (\<lambda>w. w \<noteq> [] \<and> starts_with w s) ws")
    case None
    with 1 show ?thesis by (simp add: drop_any.simps [of ws s])
  next
    case (Some w)
    then have w: "w \<in> set ws" "starts_with w s" by (auto dest: find_Some_split)
    then obtain t where t: "s = w @ t" by (auto simp: starts_with_iff)
    with 1(2,3) w(1) have "c \<in> set (drop (length w) s)" by auto
    from 1(1) [OF Some this 1(3)] Some show ?thesis by (simp add: drop_any.simps [of ws s])
  qed
qed

lemma visible_trim: "c \<in> set s \<Longrightarrow> visible c \<Longrightarrow> trim s \<noteq> []"
proof -
  assume c: "c \<in> set s" "visible c"
  then have "c \<in> set (drop_any spaces s)" by (simp add: drop_any_visible visible_def)
  then have "c \<in> set (drop_any (map rev spaces) (rev (drop_any spaces s)))"
    using c(2) by (intro drop_any_visible) (auto simp: visible_def)
  then show ?thesis by (auto simp: trim_eq)
qed

lemma drop_any_words: "\<exists>us. set us \<subseteq> set ws \<and> s = concat us @ drop_any ws s"
proof (induction ws s rule: drop_any.induct)
  case (1 ws s)
  show ?case
  proof (cases "find (\<lambda>w. w \<noteq> [] \<and> starts_with w s) ws")
    case None
    then show ?thesis by (intro exI [of _ "[]"]) (simp add: drop_any.simps [of ws s])
  next
    case (Some w)
    then have w: "w \<in> set ws" "starts_with w s" by (auto dest: find_Some_split)
    then obtain t where t: "s = w @ t" by (auto simp: starts_with_iff)
    from 1 [OF Some] obtain us where us: "set us \<subseteq> set ws" "t = concat us @ drop_any ws t" using t by auto
    from Some have "drop_any ws s = drop_any ws (drop (length w) s)" by (simp add: drop_any.simps [of ws s])
    then have "drop_any ws s = drop_any ws t" using t by simp
    with us t w show ?thesis by (intro exI [of _ "w # us"]) simp
  qed
qed

lemma spaces_prefix_free:
  assumes "v \<in> set spaces" "w \<in> set spaces" "starts_with v (w @ t) \<or> starts_with w (v @ t)"
  shows "v = w"
proof -
  have free: "\<forall>x \<in> set white_spaces. \<forall>y \<in> set white_spaces. take (length x) y = x \<longrightarrow> x = y"
    by (simp add: white_spaces_def)
  have small: "\<forall>x \<in> set white_spaces. \<forall>n \<in> set x. n < 256" by (simp add: white_spaces_def)
  obtain x y where xy: "x \<in> set white_spaces" "v = map char_of x" "y \<in> set white_spaces" "w = map char_of y"
    using assms(1,2) by (auto simp: spaces_def)
  have oc: "map of_char (map char_of z :: string) = z" if "z \<in> set white_spaces" for z
    using small that by (auto simp: map_idI)
  have "take (length v) w = v \<or> take (length w) v = w"
    using assms(3) by (auto simp: starts_with_iff append_eq_append_conv2)
  then have "take (length x) y = x \<or> take (length y) x = y"
    unfolding xy using oc [OF xy(1)] oc [OF xy(3)] by (metis length_map take_map)
  with free xy show ?thesis by auto
qed

lemma spaces_nonempty: "w \<in> set spaces \<Longrightarrow> w \<noteq> []"
  by (auto simp: spaces_def white_spaces_def)

lemma drop_any_concat: "set us \<subseteq> set spaces \<Longrightarrow> drop_any spaces (concat us) = []"
proof (induction us)
  case Nil
  show ?case using drop_any_keeps [of spaces "[]"] by simp
next
  case (Cons u us)
  let ?s = "concat (u # us)"
  have u: "u \<in> set spaces" using Cons.prems by simp
  then have "find (\<lambda>w. w \<noteq> [] \<and> starts_with w ?s) spaces \<noteq> None"
    using spaces_nonempty [OF u] by (auto simp: find_None_iff starts_with_def)
  then obtain w where w: "find (\<lambda>w. w \<noteq> [] \<and> starts_with w ?s) spaces = Some w" by blast
  then have wu: "w = u" using u spaces_prefix_free [of w u "concat us"] by (auto dest: find_Some_split)
  from w [unfolded wu] have "drop_any spaces ?s = drop_any spaces (drop (length u) ?s)" unfolding drop_any.simps [of spaces "?s"] by simp
  with Cons show ?case by simp
qed

lemma blank_words: "trim s = [] \<longleftrightarrow> (\<exists>us. set us \<subseteq> set spaces \<and> s = concat us)"
proof
  assume "trim s = []"
  then have "drop_any (map rev spaces) (rev (drop_any spaces s)) = []" by (simp add: trim_eq)
  then obtain vs where vs: "set vs \<subseteq> set (map rev spaces)" "rev (drop_any spaces s) = concat vs"
    using drop_any_words [of "map rev spaces" "rev (drop_any spaces s)"] by auto
  then have "drop_any spaces s = concat (rev (map rev vs))" by (metis rev_concat rev_rev_ident rev_map)
  moreover have "set (rev (map rev vs)) \<subseteq> set spaces" using vs(1) by auto
  ultimately obtain us where "set us \<subseteq> set spaces" "drop_any spaces s = concat us" by blast
  with drop_any_words [of spaces s] show "\<exists>us. set us \<subseteq> set spaces \<and> s = concat us"
    by (metis Un_subset_iff concat_append set_append)
next
  assume "\<exists>us. set us \<subseteq> set spaces \<and> s = concat us"
  then have "drop_any spaces s = []" using drop_any_concat by blast
  then show "trim s = []" by (simp add: trim_eq drop_any_keeps)
qed

lemma nl_word: "u \<in> set spaces \<Longrightarrow> nl \<in> set u \<Longrightarrow> u = [nl]"
proof -
  assume u: "u \<in> set spaces" "nl \<in> set u"
  have small: "\<forall>x \<in> set white_spaces. (\<forall>n \<in> set x. n < 256) \<and> (10 \<in> set x \<longrightarrow> x = [10])"
    by (simp add: white_spaces_def)
  obtain x where x: "x \<in> set white_spaces" "u = map char_of x" using u by (auto simp: spaces_def)
  with u(2) obtain n where n: "n \<in> set x" "char_of n = nl" by auto
  then have "(of_char (char_of n) :: nat) = of_char nl" by simp
  then have "n = 10" using small x(1) n(1) by (simp add: nl_def)
  with n small x show ?thesis by (auto simp: nl_def)
qed

lemma words_nl:
  "set us \<subseteq> set spaces \<Longrightarrow> concat us = l @ nl # m \<Longrightarrow>
   \<exists>vs ws. set vs \<subseteq> set spaces \<and> set ws \<subseteq> set spaces \<and> l = concat vs \<and> m = concat ws"
proof (induction us arbitrary: l)
  case (Cons u us)
  from Cons.prems(2) consider l' where "l = u @ l'" "concat us = l' @ nl # m"
    | x where "u = l @ nl # x" "m = x @ concat us"
  proof -
    from Cons.prems(2) have "(\<exists>z. l = u @ z \<and> concat us = z @ nl # m) \<or> (\<exists>z. u = l @ z \<and> z @ concat us = nl # m)"
      by (auto simp: append_eq_append_conv2)
    then show ?thesis using that by (auto simp: append_eq_Cons_conv)
  qed
  then show ?case
  proof cases
    case 1
    from Cons.IH [OF _ 1(2)] Cons.prems(1) obtain vs ws where
      "set vs \<subseteq> set spaces" "set ws \<subseteq> set spaces" "l' = concat vs" "m = concat ws" by auto
    with 1 Cons.prems(1) show ?thesis by (intro exI [of _ "u # vs"] exI [of _ ws]) simp
  next
    case 2
    with nl_word [of u] Cons.prems(1) have "l @ nl # x = [nl]" by simp
    then have "l = []" "x = []" by (auto simp: append_eq_Cons_conv)
    with 2 Cons.prems(1) show ?thesis by (intro exI [of _ "[]"] exI [of _ us]) simp
  qed
qed simp

lemma blank_unlines: "trim (unlines ls) = [] \<Longrightarrow> \<forall>l \<in> set ls. trim l = []"
proof (induction ls)
  case (Cons l ls)
  then have "trim (l @ nl # unlines ls) = []" by simp
  then have "trim l = [] \<and> trim (unlines ls) = []" unfolding blank_words using words_nl by metis
  with Cons show ?case by simp
qed simp

text \<open>Plain words, printable ASCII without a space, are written and read as they are.\<close>

definition plain :: "string \<Rightarrow> bool" where
  "plain s \<longleftrightarrow> list_all (\<lambda>c. 32 < (of_char c :: nat) \<and> (of_char c :: nat) < 128) s"

lemma plain_visible: "plain s \<Longrightarrow> c \<in> set s \<Longrightarrow> visible c"
proof (rule visibleI)
  assume "plain s" "c \<in> set s"
  moreover have "\<forall>n \<in> set (concat white_spaces). n \<le> 32 \<or> 128 \<le> n" by (simp add: white_spaces_def)
  ultimately show "(of_char c :: nat) \<notin> set (concat white_spaces)"
    by (fastforce simp: plain_def list_all_iff)
qed

lemma no_space_first: "(\<And>c w. c \<in> set s \<Longrightarrow> w \<in> set ws \<Longrightarrow> c \<notin> set w) \<Longrightarrow> \<not> space_first ws s"
proof
  assume a: "\<And>c w. c \<in> set s \<Longrightarrow> w \<in> set ws \<Longrightarrow> c \<notin> set w" and "space_first ws s"
  then obtain w where w: "w \<in> set ws" "w \<noteq> []" "starts_with w s" by (auto simp: space_first_def)
  then have "hd w \<in> set w \<and> hd w \<in> set s" by (cases w) (auto simp: starts_with_iff)
  with a w(1) show False by blast
qed

lemma plain_edges: "plain s \<Longrightarrow> \<not> space_first spaces s \<and> \<not> space_first (map rev spaces) (rev s)"
proof (intro conjI no_space_first)
  fix c w
  assume s: "plain s"
  show "c \<in> set s \<Longrightarrow> w \<in> set spaces \<Longrightarrow> c \<notin> set w"
    using plain_visible [OF s] by (simp add: visible_def)
  show "c \<in> set (rev s) \<Longrightarrow> w \<in> set (map rev spaces) \<Longrightarrow> c \<notin> set w"
    using plain_visible [OF s] by (auto simp: visible_def)
qed

lemma plain_trimmed: "plain s \<Longrightarrow> trimmed s"
  using plain_edges by (simp add: trimmed_def)

lemma plain_nl: "plain s \<Longrightarrow> nl \<notin> set s \<and> cr \<notin> set s"
  by (auto simp: plain_def list_all_iff nl_def cr_def)

lemma plain_line: "plain s \<Longrightarrow> line_ok s"
  using plain_nl by (auto simp: line_ok_def dest: last_in_set)

lemma trim_last_space:
  assumes s: "plain s" "s \<noteq> []"
  shows "trim (s @ '' '') = s"
proof -
  let ?r = "rev s"
  have "CHR '' '' = char_of (32 :: nat)" by code_simp
  then have sp: "'' '' \<in> set spaces" by (simp add: spaces_def white_spaces_def)
  obtain c t where c: "s = c # t" "visible c" using s plain_visible [OF s(1)] by (cases s) auto
  then have "\<not> space_first spaces (s @ '' '')"
    using space_first_visible [of spaces c "[]" "t @ '' ''"] by (simp add: visible_def)
  then have left: "drop_any spaces (s @ '' '') = s @ '' ''" by (rule drop_any_keeps)
  let ?d = "drop_any (map rev spaces) (CHR '' '' # ?r)"
  obtain us where us: "set us \<subseteq> set (map rev spaces)" "CHR '' '' # ?r = concat us @ ?d"
    using drop_any_words by blast
  have "?d \<noteq> CHR '' '' # ?r"
  proof
    assume "?d = CHR '' '' # ?r"
    then have "\<not> space_first (map rev spaces) (CHR '' '' # ?r)"
      using drop_any_drops [of "map rev spaces" "CHR '' '' # ?r"] by simp
    moreover have "rev '' '' \<in> set (map rev spaces)" using sp by (metis image_eqI set_map)
    ultimately show False by (auto simp: space_first_def starts_with_def)
  qed
  then obtain z where z: "concat us = CHR '' '' # z" "?r = z @ ?d"
    using us(2) by (cases "concat us") auto
  have "z = []"
  proof (rule ccontr)
    assume "z \<noteq> []"
    then obtain x y where x: "z = x # y" by (cases z) auto
    then have "x \<in> set ?r" using z(2) by (metis in_set_conv_decomp_first append_Cons list.set_intros(1))
    then have "x \<in> set s" by simp
    then have "visible x" using plain_visible [OF s(1)] by blast
    moreover have "x \<in> set (concat us)" using z(1) x by simp
    ultimately show False using us(1) by (auto simp: visible_def)
  qed
  with z(2) left show ?thesis by (simp add: trim_eq)
qed

text \<open>The two halves of \<open>trim\<close>: \<open>trim_start\<close> and \<open>trim_end\<close>.\<close>

definition trim_start :: "string \<Rightarrow> string" where
  "trim_start s = drop_any spaces s"

definition trim_end :: "string \<Rightarrow> string" where
  "trim_end s = rev (drop_any (map rev spaces) (rev s))"

end
