(* ===== verification/Overrides.thy ===== *)
theory Overrides
  imports Text_Lines
begin

text \<open>
  Flatpak permission overrides, \<open>src/overrides.rs\<close>, converged one key at a time: the keyfile
  with everything it did not understand, the merge of a declaration into what a machine has, the
  pass over a store with its state file, and what \<open>diff\<close> and \<open>capture\<close> report.
\<close>

section \<open>Declarations\<close>

datatype scope = System | User

datatype bus_policy = PolicyNone | PolicySee | PolicyTalk | PolicyOwn

fun policy_str :: "bus_policy \<Rightarrow> string" where
  "policy_str PolicyNone = ''none''"
| "policy_str PolicySee = ''see''"
| "policy_str PolicyTalk = ''talk''"
| "policy_str PolicyOwn = ''own''"

text \<open>One app's declaration; a \<open>BTreeMap\<close> is a list in the order of its keys.\<close>

record app_override =
  ao_scope :: scope
  ao_filesystems :: "string list"
  ao_sockets :: "string list"
  ao_devices :: "string list"
  ao_shared :: "string list"
  ao_features :: "string list"
  ao_persistent :: "string list"
  ao_environment :: "(string \<times> string) list"
  ao_session_bus :: "(string \<times> bus_policy) list"
  ao_system_bus :: "(string \<times> bus_policy) list"

definition context_lists :: "app_override \<Rightarrow> (string \<times> string list) list" where
  "context_lists app =
     [(''filesystems'', ao_filesystems app), (''sockets'', ao_sockets app), (''devices'', ao_devices app),
      (''shared'', ao_shared app), (''features'', ao_features app), (''persistent'', ao_persistent app)]"

definition context_group :: string where "context_group = ''Context''"
definition environment_group :: string where "environment_group = ''Environment''"
definition session_group :: string where "session_group = ''Session Bus Policy''"
definition system_group :: string where "system_group = ''System Bus Policy''"

definition tab :: char where "tab = char_of (9 :: nat)"

definition owned_id :: "string \<Rightarrow> string \<Rightarrow> string" where
  "owned_id g k = g @ tab # k"

type_synonym key = "string \<times> string \<times> string"

definition list_value :: "string list \<Rightarrow> string" where
  "list_value vs = concat (map (\<lambda>v. v @ '';'') vs)"

definition declared_keys :: "app_override \<Rightarrow> key list" where
  "declared_keys app =
     concat (map (\<lambda>(k, vs). if vs = [] then [] else [(context_group, k, list_value vs)]) (context_lists app)) @
     map (\<lambda>(n, v). (environment_group, n, v)) (ao_environment app) @
     map (\<lambda>(b, p). (session_group, b, policy_str p)) (ao_session_bus app) @
     map (\<lambda>(b, p). (system_group, b, policy_str p)) (ao_system_bus app)"

fun render_keys :: "string \<Rightarrow> string \<Rightarrow> key list \<Rightarrow> string" where
  "render_keys current out [] = out"
| "render_keys current out ((g, k, v) # ks) =
     (let head = (if g \<noteq> current then (if out = [] then [] else [nl]) @ ''['' @ g @ '']'' @ [nl] else [])
      in render_keys g (out @ head @ k @ ''='' @ v @ [nl]) ks)"

definition render_app :: "app_override \<Rightarrow> string" where
  "render_app app = render_keys [] [] (declared_keys app)"

section \<open>The keyfile\<close>

datatype kf_line = KPair string string | KRaw string

record group =
  g_name :: string
  g_lines :: "kf_line list"

type_synonym keyfile = "group list"

definition header :: "string \<Rightarrow> string option" where
  "header line = Option.bind (strip_prefix ''['' (trim line)) (strip_suffix '']'')"

definition read_line :: "string \<Rightarrow> kf_line" where
  "read_line line =
     (let t = trim line
      in case split_once ''='' t of
           Some (k, v) \<Rightarrow> if \<not> starts_with ''#'' t \<and> trim k \<noteq> [] then KPair (trim k) v else KRaw line
         | None \<Rightarrow> KRaw line)"

definition add_line :: "keyfile \<Rightarrow> kf_line \<Rightarrow> keyfile" where
  "add_line f l = butlast f @ [(last f)\<lparr>g_lines := g_lines (last f) @ [l]\<rparr>]"

definition kf_step :: "keyfile \<Rightarrow> string \<Rightarrow> keyfile" where
  "kf_step f line =
     (case header line of
        Some name \<Rightarrow> f @ [\<lparr>g_name = name, g_lines = []\<rparr>]
      | None \<Rightarrow> add_line f (read_line line))"

definition kf_parse :: "string \<Rightarrow> keyfile" where
  "kf_parse txt = foldl kf_step [\<lparr>g_name = [], g_lines = []\<rparr>] (str_lines txt)"

fun has_key :: "string \<Rightarrow> kf_line \<Rightarrow> bool" where
  "has_key k (KPair k' v) = (k' = k)"
| "has_key k (KRaw r) = False"

definition set_line :: "string \<Rightarrow> string \<Rightarrow> kf_line list \<Rightarrow> kf_line list" where
  "set_line k v ls =
     (if list_ex (has_key k) ls then update_first (has_key k) (\<lambda>_. KPair k v) ls else ls @ [KPair k v])"

definition kf_set :: "keyfile \<Rightarrow> string \<Rightarrow> string \<Rightarrow> string \<Rightarrow> keyfile" where
  "kf_set f g k v =
     (if list_ex (\<lambda>gr. g_name gr = g) f
      then update_first (\<lambda>gr. g_name gr = g) (\<lambda>gr. gr\<lparr>g_lines := set_line k v (g_lines gr)\<rparr>) f
      else f @ [\<lparr>g_name = g, g_lines = [KPair k v]\<rparr>])"

definition kf_remove :: "keyfile \<Rightarrow> string \<Rightarrow> string \<Rightarrow> keyfile" where
  "kf_remove f g k =
     update_first (\<lambda>gr. g_name gr = g)
       (\<lambda>gr. gr\<lparr>g_lines := filter (\<lambda>l. \<not> has_key k l) (g_lines gr)\<rparr>) f"

fun line_text :: "kf_line \<Rightarrow> string" where
  "line_text (KPair k v) = k @ ''='' @ v"
| "line_text (KRaw r) = r"

fun worth_keeping :: "kf_line \<Rightarrow> bool" where
  "worth_keeping (KPair k v) = True"
| "worth_keeping (KRaw r) = (trim r \<noteq> [])"

definition keeps_something :: "group \<Rightarrow> bool" where
  "keeps_something gr = list_ex worth_keeping (g_lines gr)"

definition group_text :: "group \<Rightarrow> string" where
  "group_text gr =
     (if g_name gr \<noteq> [] \<and> \<not> keeps_something gr then []
      else (if g_name gr \<noteq> [] then ''['' @ g_name gr @ '']'' @ [nl] else []) @
        unlines (map line_text (g_lines gr)))"

definition kf_render :: "keyfile \<Rightarrow> string" where
  "kf_render f = concat (map group_text f)"

section \<open>Converging one file\<close>

record changed =
  ch_set :: "string list"
  ch_removed :: "string list"

definition nothing_changed :: changed where "nothing_changed = \<lparr>ch_set = [], ch_removed = []\<rparr>"

fun pair_value :: "string \<Rightarrow> kf_line \<Rightarrow> string option" where
  "pair_value k (KPair k' v) = (if k' = k then Some v else None)"
| "pair_value k (KRaw r) = None"

definition lines_get :: "string \<Rightarrow> kf_line list \<Rightarrow> string option" where
  "lines_get k ls = Option.bind (find (has_key k) ls) (pair_value k)"

definition kf_get :: "keyfile \<Rightarrow> string \<Rightarrow> string \<Rightarrow> string option" where
  "kf_get f g k = Option.bind (find (\<lambda>gr. g_name gr = g) f) (\<lambda>gr. lines_get k (g_lines gr))"

definition kf_present :: "keyfile \<Rightarrow> string \<Rightarrow> string \<Rightarrow> bool" where
  "kf_present f g k = list_ex (\<lambda>gr. g_name gr = g \<and> list_ex (has_key k) (g_lines gr)) f"

fun conv_set :: "keyfile \<Rightarrow> key list \<Rightarrow> keyfile \<times> string list" where
  "conv_set f [] = (f, [])"
| "conv_set f ((g, k, v) # ws) =
     (let c = (if kf_get f g k \<noteq> Some v then [owned_id g k] else []);
          (f', cs) = conv_set (kf_set f g k v) ws
      in (f', c @ cs))"

fun conv_remove :: "string list \<Rightarrow> keyfile \<Rightarrow> string list \<Rightarrow> keyfile \<times> string list" where
  "conv_remove now f [] = (f, [])"
| "conv_remove now f (i # is) =
     (if i \<in> set now then conv_remove now f is
      else (case split_once [tab] i of
              None \<Rightarrow> conv_remove now f is
            | Some (g, k) \<Rightarrow>
                if kf_present f g k then
                  (let (f', rs) = conv_remove now (kf_remove f g k) is in (f', i # rs))
                else conv_remove now f is))"

definition wanted_ids :: "key list \<Rightarrow> string list" where
  "wanted_ids ws = map (\<lambda>(g, k, v). owned_id g k) ws"

definition converge :: "string \<Rightarrow> key list \<Rightarrow> string list \<Rightarrow> string \<times> changed \<times> string list" where
  "converge live wanted previously =
     (let (f1, cs) = conv_set (kf_parse live) wanted;
          now = wanted_ids wanted;
          (f2, rs) = conv_remove now f1 previously;
          out = kf_render f2
      in (if trim out = [] then [] else out, \<lparr>ch_set = cs, ch_removed = rs\<rparr>, now))"

definition parse_declared :: "string \<Rightarrow> key list" where
  "parse_declared txt =
     concat (map (\<lambda>gr. if g_name gr = [] then []
       else concat (map (\<lambda>l. case l of KPair k v \<Rightarrow> [(g_name gr, k, v)] | KRaw r \<Rightarrow> []) (g_lines gr)))
       (kf_parse txt))"

section \<open>Writing and reading a keyfile\<close>

text \<open>A line that reads back as itself, and a file made of such lines.\<close>

definition reads_back :: "kf_line \<Rightarrow> bool" where
  "reads_back l \<longleftrightarrow> line_ok (line_text l) \<and> header (line_text l) = None \<and> read_line (line_text l) = l"

definition group_ok :: "group \<Rightarrow> bool" where
  "group_ok gr \<longleftrightarrow> g_name gr \<noteq> [] \<and> nl \<notin> set (g_name gr) \<and> (\<forall>l \<in> set (g_lines gr). reads_back l)"

definition file_ok :: "keyfile \<Rightarrow> bool" where
  "file_ok f \<longleftrightarrow> f \<noteq> [] \<and> g_name (hd f) = [] \<and> (\<forall>l \<in> set (g_lines (hd f)). reads_back l) \<and>
     (\<forall>gr \<in> set (tl f). group_ok gr)"

lemma trimmed_header: "trimmed (''['' @ g @ '']'')"
  using trimmed_visible [OF visible_ascii(3), of "''['' @ g" "[]"]
    space_first_visible [of spaces "CHR ''[''" "[]" g] visible_ascii(2)
  by (simp add: visible_def)

lemma header_Some: "header (''['' @ g @ '']'') = Some g"
  using trimmed_header [of g] by (simp add: header_def strip_suffix_def strip_prefix_def starts_with_def)

lemma header_Some' [simp]: "header (CHR ''['' # g @ '']'') = Some g"
  using header_Some by simp

lemma kf_step_header [simp]: "kf_step f (CHR ''['' # g @ '']'') = f @ [\<lparr>g_name = g, g_lines = []\<rparr>]"
  by (simp add: kf_step_def)

lemma ascii_ne [simp]: "nl \<noteq> CHR ''[''" "nl \<noteq> CHR '']''" "cr \<noteq> CHR '']''" "nl \<noteq> CHR ''=''" "cr \<noteq> CHR ''=''"
  "CHR ''['' \<noteq> nl" "CHR '']'' \<noteq> nl" "CHR '']'' \<noteq> cr" "CHR ''='' \<noteq> nl" "CHR ''='' \<noteq> cr"
  by code_simp+

lemma header_trimmed: "trimmed t \<Longrightarrow> header t = Some g \<longleftrightarrow> t = ''['' @ g @ '']''"
proof
  assume t: "trimmed t" and "header t = Some g"
  then obtain u where "strip_prefix ''['' t = Some u" "strip_prefix '']'' (rev u) = Some (rev g)"
    by (auto simp: header_def strip_suffix_def bind_eq_Some_conv)
  then show "t = ''['' @ g @ '']''"
    by (simp add: strip_prefix_Some)
qed simp

lemma header_trim [simp]: "header (trim l) = header l"
  by (simp add: header_def)

lemma file_ok_parts: "file_ok f \<Longrightarrow> f = hd f # tl f"
  by (simp add: file_ok_def)

lemma fold_lines:
  assumes "\<forall>l \<in> set ls. reads_back l"
  shows "foldl kf_step (f @ [gr]) (map line_text ls) = f @ [gr\<lparr>g_lines := g_lines gr @ ls\<rparr>]"
  using assms
proof (induction ls arbitrary: gr)
  case (Cons l ls)
  then have "kf_step (f @ [gr]) (line_text l) = f @ [gr\<lparr>g_lines := g_lines gr @ [l]\<rparr>]"
    by (simp add: kf_step_def reads_back_def add_line_def)
  with Cons show ?case by simp
qed simp

text \<open>The lines of a rendered file.\<close>

definition group_rows :: "group \<Rightarrow> string list" where
  "group_rows gr =
     (if g_name gr \<noteq> [] \<and> \<not> keeps_something gr then []
      else (if g_name gr \<noteq> [] then [''['' @ g_name gr @ '']''] else []) @ map line_text (g_lines gr))"

lemma render_rows: "kf_render f = unlines (concat (map group_rows f))"
  by (induction f) (simp_all add: kf_render_def group_text_def group_rows_def)

lemma rows_ok:
  assumes "file_ok f" "r \<in> set (concat (map group_rows f))"
  shows "line_ok r"
proof -
  from assms(2) obtain gr where gr: "gr \<in> set f" "r \<in> set (group_rows gr)" by auto
  from assms(1) gr(1) have "(g_name gr \<noteq> [] \<longrightarrow> nl \<notin> set (g_name gr)) \<and> (\<forall>l \<in> set (g_lines gr). reads_back l)"
    by (cases f) (auto simp: file_ok_def group_ok_def)
  with gr(2) show ?thesis
    by (auto simp: group_rows_def reads_back_def line_ok_def split: if_splits)
qed

lemma fold_groups:
  assumes "\<forall>gr \<in> set gs. group_ok gr"
  shows "foldl kf_step f (concat (map group_rows gs)) = f @ filter keeps_something gs"
  using assms
proof (induction gs arbitrary: f)
  case (Cons gr gs)
  show ?case
  proof (cases "keeps_something gr")
    case True
    with Cons.prems have "group_rows gr = (''['' @ g_name gr @ '']'') # map line_text (g_lines gr)"
      by (simp add: group_rows_def group_ok_def)
    moreover have "foldl kf_step (f @ [\<lparr>g_name = g_name gr, g_lines = []\<rparr>]) (map line_text (g_lines gr)) = f @ [gr]"
      using Cons.prems by (subst fold_lines) (simp_all add: group_ok_def)
    ultimately show ?thesis
      using Cons True by simp
  next
    case False
    with Cons show ?thesis by (simp add: group_rows_def group_ok_def)
  qed
qed simp

text \<open>Reading a rendered file gives it back, without the groups that had nothing left.\<close>

lemma parse_render:
  assumes "file_ok f"
  shows "kf_parse (kf_render f) = hd f # filter keeps_something (tl f)"
proof -
  obtain h gs where f: "f = h # gs" using assms by (cases f) (auto simp: file_ok_def)
  from assms have h: "g_name h = []" "\<forall>l \<in> set (g_lines h). reads_back l" "\<forall>gr \<in> set gs. group_ok gr"
    by (auto simp: f file_ok_def)
  have "str_lines (kf_render f) = map line_text (g_lines h) @ concat (map group_rows gs)"
    using h(1) str_lines_unlines [of "concat (map group_rows f)"] rows_ok [OF assms]
    by (simp add: render_rows f group_rows_def)
  moreover have "foldl kf_step [\<lparr>g_name = [], g_lines = []\<rparr>] (map line_text (g_lines h)) = [h]"
    using fold_lines [OF h(2), of "[]" "\<lparr>g_name = [], g_lines = []\<rparr>"] h(1) by simp
  ultimately show ?thesis
    using fold_groups [OF h(3), of "[h]"] by (simp add: kf_parse_def f)
qed

section \<open>What is read is stable\<close>

text \<open>
  A clean text: no line is the header of a nameless group, and none still ends in a carriage
  return. A key that can be written: what the declaration's validation lets through.
\<close>

definition clean :: "string \<Rightarrow> bool" where
  "clean txt \<longleftrightarrow> (\<forall>l \<in> set (str_lines txt). header l \<noteq> Some [] \<and> line_ok l)"

definition key_ok :: "key \<Rightarrow> bool" where
  "key_ok = (\<lambda>(g, k, v). g \<noteq> [] \<and> nl \<notin> set g \<and> k \<noteq> [] \<and> hd k \<noteq> CHR ''['' \<and> hd k \<noteq> CHR ''#'' \<and>
     nl \<notin> set k \<and> CHR ''='' \<notin> set k \<and> trimmed k \<and> nl \<notin> set v \<and> \<not> space_first (map rev spaces) (rev v))"

lemma trimmed_no_first: "\<not> space_first spaces s \<Longrightarrow> \<exists>q. s = trim s @ q"
proof -
  assume "\<not> space_first spaces s"
  then have d: "drop_any spaces s = s" by (rule drop_any_keeps)
  from drop_any_drops [of "map rev spaces" "rev (drop_any spaces s)"] obtain q where
    "rev (drop_any spaces s) = q @ drop_any (map rev spaces) (rev (drop_any spaces s))" by blast
  then have "drop_any spaces s = trim s @ rev q" by (metis rev_append rev_rev_ident trim_eq)
  with d show ?thesis by metis
qed

lemma last_no_cr: "\<not> space_first (map rev spaces) (rev v) \<Longrightarrow> v = [] \<or> last v \<noteq> cr"
proof (cases v rule: rev_cases)
  case (snoc u c)
  assume "\<not> space_first (map rev spaces) (rev v)"
  with snoc cr_space have "c \<noteq> cr" by (auto simp: space_first_def starts_with_def)
  with snoc show ?thesis by simp
qed simp

lemma pair_reads_back:
  assumes "k \<noteq> []" "hd k \<noteq> CHR ''#''" "nl \<notin> set k" "CHR ''='' \<notin> set k" "trimmed k" "nl \<notin> set v"
    "\<not> space_first (map rev spaces) (rev v)" "header (k @ ''='' @ v) = None"
  shows "reads_back (KPair k v)"
proof -
  have t: "trimmed (k @ CHR ''='' # v)"
    using assms by (subst trimmed_visible [OF visible_ascii(1)]) (auto simp: trimmed_def)
  have "split_once ''='' (k @ CHR ''='' # v) = Some (k, v)" using assms(4) by (rule split_once_char)
  moreover have "\<not> starts_with ''#'' (k @ CHR ''='' # v)" using assms(1,2) by (cases k) (auto simp: starts_with_def)
  ultimately have "read_line (k @ CHR ''='' # v) = KPair k v"
    using t assms(1,5) by (simp add: read_line_def Let_def)
  moreover have "line_ok (k @ CHR ''='' # v)"
    using assms last_no_cr [OF assms(7)] by (auto simp: line_ok_def)
  ultimately show ?thesis using assms(8) by (simp add: reads_back_def)
qed

lemma key_reads_back: "key_ok (g, k, v) \<Longrightarrow> reads_back (KPair k v)"
proof (rule pair_reads_back)
  assume k: "key_ok (g, k, v)"
  then have "trimmed (k @ CHR ''='' # v)"
    by (subst trimmed_visible [OF visible_ascii(1)]) (auto simp: trimmed_def key_ok_def)
  moreover have "k @ CHR ''='' # v \<noteq> ''['' @ g' @ '']''" for g'
    using k by (cases k) (auto simp: key_ok_def)
  ultimately show "header (k @ ''='' @ v) = None"
    using header_trimmed [of "k @ CHR ''='' # v"] by (metis append_Cons append_Nil not_Some_eq)
qed (auto simp: key_ok_def)

lemma read_reads_back:
  assumes ok: "line_ok l" and no: "header l = None"
  shows "reads_back (read_line l)"
proof (cases "read_line l")
  case (KRaw r)
  then have "r = l" by (auto simp: read_line_def Let_def split: option.splits if_splits)
  with KRaw assms show ?thesis by (simp add: reads_back_def)
next
  case (KPair k v)
  let ?t = "trim l"
  from KPair obtain k' where s: "split_once ''='' ?t = Some (k', v)" "k = trim k'" "k \<noteq> []"
    "\<not> starts_with ''#'' ?t" by (auto simp: read_line_def Let_def split: option.splits if_splits)
  have t: "?t = k' @ CHR ''='' # v" using split_once_Some [OF s(1)] by simp
  have "CHR ''='' \<notin> set k'"
  proof
    assume "CHR ''='' \<in> set k'"
    then obtain a b where "k' = a @ CHR ''='' # b" "CHR ''='' \<notin> set a" by (metis split_list_first)
    with t split_once_char [of "CHR ''=''" a "b @ CHR ''='' # v"] s(1) show False by simp
  qed
  have edges: "\<not> space_first spaces k'" "\<not> space_first (map rev spaces) (rev v)"
    using trimmed_trim [of l] unfolding t trimmed_visible [OF visible_ascii(1)] by simp_all
  then obtain q where q: "k' = k @ q" using trimmed_no_first s(2) by blast
  obtain p z where l: "l = p @ ?t @ z" using trim_infix by metis
  then have "set l = set p \<union> (set ?t \<union> set z)" by (metis set_append)
  then have "set ?t \<subseteq> set l" by blast
  with ok t q have nls: "nl \<notin> set k" "nl \<notin> set v" by (auto simp: line_ok_def)
  have hash: "hd k \<noteq> CHR ''#''"
    using s(3,4) t q by (cases k) (auto simp: starts_with_def)
  have "header (k @ ''='' @ v) = None"
  proof (rule ccontr)
    assume "header (k @ ''='' @ v) \<noteq> None"
    moreover have "trimmed (k @ CHR ''='' # v)"
      using edges s(2) trimmed_trim [of k'] by (subst trimmed_visible [OF visible_ascii(1)]) (auto simp: trimmed_def)
    ultimately obtain g where g: "k @ CHR ''='' # v = ''['' @ g @ '']''"
      using header_trimmed by (metis append_Cons append_Nil not_Some_eq)
    then have "last (k @ CHR ''='' # v) = CHR '']''" by (metis append_Cons append_assoc last_snoc)
    then have v: "v \<noteq> []" "last v = CHR '']''" by (auto split: if_splits)
    have k: "k \<noteq> [] \<and> hd k = CHR ''[''" using s(3) g by (cases k) auto
    from v obtain u where u: "v = u @ '']''" by (metis append_butlast_last_id)
    from k obtain k2 where k2: "k = CHR ''['' # k2" by (cases k) auto
    have "?t = ''['' @ (k2 @ q @ CHR ''='' # u) @ '']''" unfolding t q u k2 by simp
    then have "header ?t = Some (k2 @ q @ CHR ''='' # u)" using header_Some by metis
    with no show False by simp
  qed
  with s(2,3) hash nls edges(2) q \<open>CHR ''='' \<notin> set k'\<close> trimmed_trim [of k'] show ?thesis
    unfolding KPair by (intro pair_reads_back) auto
qed

lemma file_ok_add_line: "file_ok f \<Longrightarrow> reads_back l \<Longrightarrow> file_ok (add_line f l)"
  by (cases f rule: rev_cases; cases "butlast f")
    (auto simp: file_ok_def add_line_def group_ok_def hd_append tl_append split: list.splits)

lemma file_ok_parse:
  assumes "clean txt"
  shows "file_ok (kf_parse txt)"
proof -
  have "file_ok (foldl kf_step f ls)"
    if "file_ok f" "\<forall>l \<in> set ls. header l \<noteq> Some [] \<and> line_ok l" for f ls
    using that
  proof (induction ls arbitrary: f)
    case (Cons l ls)
    have "file_ok (kf_step f l)"
    proof (cases "header l")
      case None
      with Cons.prems read_reads_back [of l] show ?thesis
        by (simp add: kf_step_def file_ok_add_line)
    next
      case (Some g)
      have "trim l = ''['' @ g @ '']''" using Some header_trimmed [of "trim l" g] by simp
      moreover obtain p q where "l = p @ trim l @ q" using trim_infix by metis
      ultimately have "set g \<subseteq> set l" by (metis set_append Un_upper1 Un_upper2 order_trans)
      with Some Cons.prems show ?thesis
        by (auto simp: kf_step_def file_ok_def group_ok_def line_ok_def hd_append tl_append split: list.splits)
    qed
    with Cons show ?case by simp
  qed simp
  from this [of "[\<lparr>g_name = [], g_lines = []\<rparr>]" "str_lines txt"] assms show ?thesis
    by (simp add: clean_def kf_parse_def file_ok_def)
qed

lemma update_first_in: "x \<in> set (update_first P f xs) \<Longrightarrow> x \<in> set xs \<or> (\<exists>y \<in> set xs. P y \<and> x = f y)"
  by (induction xs) (auto split: if_splits)

lemma set_line_ok:
  assumes "\<forall>l \<in> set ls. reads_back l" "key_ok (g, k, v)"
  shows "\<forall>l \<in> set (set_line k v ls). reads_back l"
  using assms key_reads_back by (auto simp: set_line_def dest!: update_first_in)

lemma file_ok_update:
  assumes "file_ok f" "g \<noteq> []"
    and "\<And>gr. group_ok gr \<Longrightarrow> g_name gr = g \<Longrightarrow> group_ok (h gr)"
  shows "file_ok (update_first (\<lambda>gr. g_name gr = g) h f)"
proof -
  obtain a gs where f: "f = a # gs" using assms by (cases f) (auto simp: file_ok_def)
  with assms have a: "g_name a \<noteq> g" by (auto simp: file_ok_def)
  have "\<forall>gr \<in> set (update_first (\<lambda>gr. g_name gr = g) h gs). group_ok gr"
    using assms f by (auto simp: file_ok_def dest!: update_first_in)
  with assms(1) a show ?thesis by (simp add: f file_ok_def)
qed

lemma file_ok_set: "file_ok f \<Longrightarrow> key_ok (g, k, v) \<Longrightarrow> file_ok (kf_set f g k v)"
proof -
  assume f: "file_ok f" and k: "key_ok (g, k, v)"
  then have g: "g \<noteq> []" "nl \<notin> set g" by (auto simp: key_ok_def)
  have "file_ok (update_first (\<lambda>gr. g_name gr = g) (\<lambda>gr. gr\<lparr>g_lines := set_line k v (g_lines gr)\<rparr>) f)"
    by (rule file_ok_update [OF f g(1)]) (use set_line_ok k in \<open>auto simp: group_ok_def\<close>)
  moreover have "file_ok (f @ [\<lparr>g_name = g, g_lines = [KPair k v]\<rparr>])"
    using f g key_reads_back [OF k] by (cases f) (auto simp: file_ok_def group_ok_def)
  ultimately show ?thesis by (simp add: kf_set_def)
qed

lemma file_ok_remove: "file_ok f \<Longrightarrow> g \<noteq> [] \<Longrightarrow> file_ok (kf_remove f g k)"
  unfolding kf_remove_def by (rule file_ok_update) (auto simp: group_ok_def)

lemma remove_nameless: "file_ok f \<Longrightarrow> file_ok (kf_remove f [] k)"
  by (cases f) (auto simp: file_ok_def kf_remove_def)

lemma file_ok_conv_set:
  "file_ok f \<Longrightarrow> \<forall>w \<in> set ws. key_ok w \<Longrightarrow> file_ok (fst (conv_set f ws))"
  by (induction f ws rule: conv_set.induct) (auto simp: case_prod_unfold Let_def file_ok_set)

lemma file_ok_conv_remove: "file_ok f \<Longrightarrow> file_ok (fst (conv_remove now f is))"
proof (induction now f "is" rule: conv_remove.induct)
  case (2 now f i "is")
  have "file_ok (kf_remove f g k)" for g k
    using file_ok_remove [OF "2.prems"] remove_nameless [OF "2.prems"] by (cases "g = []") auto
  with 2 show ?case by (auto simp: case_prod_unfold Let_def split: option.split)
qed simp

section \<open>Reading a key\<close>

lemma find_has_key: "find (has_key k) ls = Some l \<Longrightarrow> \<exists>v. l = KPair k v"
  using find_Some_split [of "has_key k" ls l] by (cases l) auto

lemma lines_get_set [simp]: "lines_get k (set_line k' v ls) = (if k' = k then Some v else lines_get k ls)"
proof (induction ls)
  case Nil
  then show ?case by (simp add: set_line_def lines_get_def)
next
  case (Cons l ls)
  then show ?case by (cases l) (auto simp: set_line_def lines_get_def split: if_splits)
qed

lemma find_group_update:
  assumes "\<And>gr. g_name (h gr) = g_name gr"
  shows "find (\<lambda>gr. g_name gr = g) (update_first (\<lambda>gr. g_name gr = g') h f) =
    (if g' = g then map_option h (find (\<lambda>gr. g_name gr = g) f) else find (\<lambda>gr. g_name gr = g) f)"
  using assms by (induction f) auto

lemma find_append: "find P (xs @ ys) = (case find P xs of Some x \<Rightarrow> Some x | None \<Rightarrow> find P ys)"
  by (induction xs) auto

lemma kf_get_set: "kf_get (kf_set f g' k' v) g k = (if g' = g \<and> k' = k then Some v else kf_get f g k)"
proof (cases "find (\<lambda>gr. g_name gr = g') f")
  case None
  then have "\<not> list_ex (\<lambda>gr. g_name gr = g') f" by (auto simp: find_None_iff list_ex_iff)
  with None show ?thesis
    by (auto simp: kf_set_def kf_get_def find_append lines_get_def split: option.split)
next
  case (Some gr)
  then have "list_ex (\<lambda>gr. g_name gr = g') f" by (auto simp: find_Some_iff list_ex_iff)
  with Some show ?thesis
    by (auto simp: kf_set_def kf_get_def find_group_update split: option.split)
qed

lemma lines_get_filter: "lines_get k (filter (\<lambda>l. \<not> has_key k' l) ls) = (if k' = k then None else lines_get k ls)"
proof (induction ls)
  case (Cons l ls)
  then show ?case by (cases l) (auto simp: lines_get_def split: if_splits)
qed (simp add: lines_get_def)

lemma kf_get_remove:
  "kf_get (kf_remove f g' k') g k = (if g' = g \<and> k' = k then None else kf_get f g k)"
  by (cases "find (\<lambda>gr. g_name gr = g) f")
    (auto simp: kf_remove_def kf_get_def find_group_update lines_get_filter)

lemma set_line_same: "lines_get k ls = Some v \<Longrightarrow> set_line k v ls = ls"
proof (induction ls)
  case (Cons l ls)
  then show ?case by (cases l) (auto simp: set_line_def lines_get_def split: if_splits)
qed (simp add: lines_get_def)

lemma update_first_same: "(\<And>x. find P xs = Some x \<Longrightarrow> f x = x) \<Longrightarrow> update_first P f xs = xs"
  by (induction xs) auto

lemma kf_set_same: "kf_get f g k = Some v \<Longrightarrow> kf_set f g k v = f"
proof -
  assume k: "kf_get f g k = Some v"
  then obtain gr where gr: "find (\<lambda>gr. g_name gr = g) f = Some gr" "lines_get k (g_lines gr) = Some v"
    by (auto simp: kf_get_def bind_eq_Some_conv)
  then have "list_ex (\<lambda>gr. g_name gr = g) f" by (auto simp: find_Some_iff list_ex_iff)
  moreover have "update_first (\<lambda>gr. g_name gr = g) (\<lambda>gr. gr\<lparr>g_lines := set_line k v (g_lines gr)\<rparr>) f = f"
    by (rule update_first_same) (use gr set_line_same in auto)
  ultimately show ?thesis by (simp add: kf_set_def)
qed

lemma conv_set_same: "\<forall>(g, k, v) \<in> set ws. kf_get f g k = Some v \<Longrightarrow> conv_set f ws = (f, [])"
  by (induction f ws rule: conv_set.induct) (auto simp: Let_def kf_set_same)

definition keys_of :: "key list \<Rightarrow> (string \<times> string) list" where
  "keys_of ws = map (\<lambda>(g, k, v). (g, k)) ws"

lemma conv_set_other: "(g, k) \<notin> set (keys_of ws) \<Longrightarrow> kf_get (fst (conv_set f ws)) g k = kf_get f g k"
  by (induction f ws rule: conv_set.induct) (auto simp: Let_def case_prod_unfold kf_get_set keys_of_def)

lemma conv_set_gets:
  "distinct (keys_of ws) \<Longrightarrow> (g, k, v) \<in> set ws \<Longrightarrow> kf_get (fst (conv_set f ws)) g k = Some v"
proof (induction f ws rule: conv_set.induct)
  case (2 f g' k' v' ws)
  show ?case
  proof (cases "(g, k, v) = (g', k', v')")
    case True
    with 2 show ?thesis by (auto simp: Let_def case_prod_unfold conv_set_other kf_get_set keys_of_def)
  next
    case False
    with 2 show ?thesis by (auto simp: Let_def case_prod_unfold keys_of_def)
  qed
qed simp

lemma split_owned: "split_once [tab] i = Some (g, k) \<Longrightarrow> i = owned_id g k"
  by (auto simp: owned_id_def dest: split_once_Some)

lemma conv_remove_other:
  "owned_id g k \<in> set now \<Longrightarrow> kf_get (fst (conv_remove now f is)) g k = kf_get f g k"
proof (induction now f "is" rule: conv_remove.induct)
  case (2 now f i "is")
  show ?case
  proof (cases "split_once [tab] i")
    case None
    with 2 show ?thesis by simp
  next
    case (Some p)
    obtain g' k' where p: "p = (g', k')" by fastforce
    with Some split_owned have "i = owned_id g' k'" by simp
    with 2 Some p show ?thesis
      by (auto simp: Let_def case_prod_unfold kf_get_remove)
  qed
qed simp

lemma conv_remove_none: "set is \<subseteq> set now \<Longrightarrow> conv_remove now f is = (f, [])"
  by (induction "is") auto

section \<open>What a converged file says\<close>

definition converged :: "string \<Rightarrow> key list \<Rightarrow> string list \<Rightarrow> keyfile" where
  "converged live ws prev = fst (conv_remove (wanted_ids ws) (fst (conv_set (kf_parse live) ws)) prev)"

lemma converge_text:
  "fst (converge live ws prev) =
     (if trim (kf_render (converged live ws prev)) = [] then [] else kf_render (converged live ws prev))"
  by (simp add: converge_def converged_def case_prod_unfold Let_def)

lemma converge_owned [simp]: "snd (snd (converge live ws prev)) = wanted_ids ws"
  by (simp add: converge_def case_prod_unfold Let_def)

definition keys_ok :: "key list \<Rightarrow> bool" where
  "keys_ok ws \<longleftrightarrow> list_all key_ok ws \<and> distinct (keys_of ws)"

lemma file_ok_converged: "clean live \<Longrightarrow> keys_ok ws \<Longrightarrow> file_ok (converged live ws prev)"
  by (simp add: converged_def keys_ok_def list_all_iff file_ok_conv_remove file_ok_conv_set file_ok_parse)

lemma converged_gets:
  assumes "keys_ok ws" "(g, k, v) \<in> set ws"
  shows "kf_get (converged live ws prev) g k = Some v"
proof -
  have "owned_id g k \<in> set (wanted_ids ws)" using assms(2) by (force simp: wanted_ids_def)
  with assms show ?thesis by (simp add: converged_def conv_remove_other conv_set_gets keys_ok_def)
qed

lemma lines_get_pair: "lines_get k ls = Some v \<Longrightarrow> KPair k v \<in> set ls"
proof -
  assume "lines_get k ls = Some v"
  then obtain l where l: "find (has_key k) ls = Some l" "pair_value k l = Some v"
    by (auto simp: lines_get_def bind_eq_Some_conv)
  then show ?thesis by (cases l) (auto dest!: find_Some_split split: if_splits)
qed

lemma kf_get_pair: "kf_get f g k = Some v \<Longrightarrow> \<exists>gr. find (\<lambda>gr. g_name gr = g) f = Some gr \<and> KPair k v \<in> set (g_lines gr)"
  by (auto simp: kf_get_def bind_eq_Some_conv dest: lines_get_pair)

lemma keeps_pair: "KPair k v \<in> set (g_lines gr) \<Longrightarrow> keeps_something gr"
  by (force simp: keeps_something_def list_ex_iff)

text \<open>The text that is written reads back as the converged file, less the groups it emptied.\<close>

definition kept :: "keyfile \<Rightarrow> keyfile" where
  "kept f = hd f # filter keeps_something (tl f)"

lemma find_filter: "find P xs = Some x \<Longrightarrow> Q x \<Longrightarrow> find P (filter Q xs) = Some x"
  by (induction xs) (auto split: if_splits)

lemma kf_get_kept: "file_ok f \<Longrightarrow> kf_get f g k = Some v \<Longrightarrow> kf_get (kept f) g k = Some v"
proof -
  assume f: "file_ok f" "kf_get f g k = Some v"
  then obtain gr where gr: "find (\<lambda>gr. g_name gr = g) f = Some gr" "KPair k v \<in> set (g_lines gr)"
    using kf_get_pair by blast
  then have "find (\<lambda>gr. g_name gr = g) (kept f) = Some gr"
    using f(1) keeps_pair find_filter [of "\<lambda>gr. g_name gr = g" "tl f" gr keeps_something]
    by (cases f) (auto simp: kept_def file_ok_def split: if_splits)
  with f(2) gr(1) show ?thesis by (simp add: kf_get_def)
qed

lemma render_kept: "file_ok f \<Longrightarrow> kf_render (kept f) = kf_render f"
proof -
  assume "file_ok f"
  moreover have "\<forall>gr \<in> set gs. group_ok gr \<Longrightarrow>
      concat (map group_text (filter keeps_something gs)) = concat (map group_text gs)" for gs
    by (induction gs) (auto simp: group_text_def group_ok_def)
  ultimately show ?thesis by (cases f) (auto simp: kf_render_def kept_def file_ok_def)
qed

lemma written_is_not_blank:
  assumes "keys_ok ws" "ws \<noteq> []" "clean live"
  shows "trim (kf_render (converged live ws prev)) \<noteq> []"
proof -
  obtain g k v where w: "(g, k, v) \<in> set ws" using assms(2) by (cases ws) auto
  from kf_get_pair [OF converged_gets [OF assms(1) w, of live prev]] obtain gr where
    gr: "gr \<in> set (converged live ws prev)" "KPair k v \<in> set (g_lines gr)"
    by (auto dest: find_Some_split)
  then have "CHR ''='' \<in> set (group_text gr)"
    using keeps_pair [OF gr(2)] by (force simp: group_text_def unlines_def)
  with gr(1) have "CHR ''='' \<in> set (kf_render (converged live ws prev))" by (auto simp: kf_render_def)
  then show ?thesis using visible_ascii(1) by (rule visible_trim)
qed

lemma written_reads_back:
  assumes "keys_ok ws" "ws \<noteq> []" "clean live"
  shows "kf_parse (fst (converge live ws prev)) = kept (converged live ws prev)"
  using written_is_not_blank [OF assms] parse_render [OF file_ok_converged [OF assms(3,1)]]
  by (simp add: converge_text kept_def)

lemma kf_parse_Nil: "kf_parse [] = [\<lparr>g_name = [], g_lines = []\<rparr>]"
  by (simp add: kf_parse_def str_lines_def)

lemma converge_of_converged:
  assumes "file_ok f" "\<forall>(g, k, v) \<in> set ws. kf_get f g k = Some v"
    and "kf_parse out = kept f" "out = (if trim (kf_render f) = [] then [] else kf_render f)" "ws = [] \<or> out \<noteq> []"
  shows "converge out ws (wanted_ids ws) = (out, nothing_changed, wanted_ids ws)"
proof -
  have "\<forall>(g, k, v) \<in> set ws. kf_get (kept f) g k = Some v" using assms(1,2) kf_get_kept by fastforce
  then have "conv_set (kept f) ws = (kept f, [])" by (rule conv_set_same)
  with assms show ?thesis
    by (simp add: converge_def conv_remove_none nothing_changed_def render_kept)
qed

lemma plain_key_ok:
  "g \<noteq> [] \<Longrightarrow> nl \<notin> set g \<Longrightarrow> k \<noteq> [] \<Longrightarrow> hd k \<noteq> CHR ''['' \<Longrightarrow> hd k \<noteq> CHR ''#'' \<Longrightarrow> CHR ''='' \<notin> set k \<Longrightarrow>
   plain k \<Longrightarrow> plain v \<Longrightarrow> key_ok (g, k, v)"
  using plain_edges plain_nl by (simp add: key_ok_def plain_trimmed)

lemma clean_unlines: "\<forall>l \<in> set ls. line_ok l \<and> header l \<noteq> Some [] \<Longrightarrow> clean (unlines ls)"
  by (simp add: clean_def str_lines_unlines)

lemma plain_header: "plain l \<Longrightarrow> l = [] \<or> hd l \<noteq> CHR ''['' \<Longrightarrow> header l = None"
proof (rule ccontr)
  assume l: "plain l" "l = [] \<or> hd l \<noteq> CHR ''[''" "header l \<noteq> None"
  then obtain g where "l = ''['' @ g @ '']''" using header_trimmed [OF plain_trimmed] by blast
  with l(2) show False by simp
qed

text \<open>An example: an app whose file somebody has edited, and what is declared for it.\<close>

definition demo_live :: string where
  "demo_live = unlines [''#mine'', ''[Context]'', ''sockets=x11;'', ''devices=dri;'']"

definition demo_keys :: "key list" where
  "demo_keys = [(context_group, ''sockets'', ''wayland;'')]"

lemma demo_plain: "plain ''#mine''" "plain ''[Context]''" "plain ''sockets=x11;''" "plain ''devices=dri;''"
  "plain ''sockets''" "plain ''wayland;''"
  by (simp_all add: plain_def)

lemma demo_clean: "clean demo_live"
proof -
  have "header ''[Context]'' = Some ''Context''" using header_Some [of "''Context''"] by simp
  then show ?thesis
    unfolding demo_live_def
    by (intro clean_unlines) (simp add: plain_line plain_header demo_plain)
qed

lemma demo_keys_ok: "keys_ok demo_keys"
proof -
  have "nl \<notin> set context_group" by code_simp
  then show ?thesis
    by (simp add: keys_ok_def demo_keys_def keys_of_def)
      (intro plain_key_ok; simp add: demo_plain context_group_def)
qed

lemma converge_again:
  assumes "clean live" "keys_ok ws"
  shows "converge (fst (converge live ws prev)) ws (wanted_ids ws) =
    (fst (converge live ws prev), nothing_changed, wanted_ids ws)"
proof -
  let ?F = "converged live ws prev"
  let ?out = "fst (converge live ws prev)"
  have ok: "file_ok ?F" using assms by (rule file_ok_converged)
  have gets: "\<forall>(g, k, v) \<in> set ws. kf_get ?F g k = Some v" using converged_gets [OF assms(2)] by auto
  show ?thesis
  proof (cases "?out = []")
    case False
    with parse_render [OF ok] have "kf_parse ?out = kept ?F"
      by (auto simp: converge_text kept_def split: if_splits)
    with False show ?thesis using converge_of_converged [OF ok gets] converge_text by blast
  next
    case True
    then have "ws = []"
      using written_is_not_blank [OF assms(2) _ assms(1), of prev] by (auto simp: converge_text split: if_splits)
    with True show ?thesis
      by (simp add: converge_def kf_parse_Nil kf_render_def group_text_def nothing_changed_def wanted_ids_def trim_empty)
  qed
qed

text \<open>
  A pass over what a pass wrote writes the same bytes, reports nothing and owns the same keys:
  on every boot after the first the converger finds nothing to do.
\<close>

theorem converging_twice_changes_nothing:
  assumes "clean live" "keys_ok ws"
  shows "case converge live ws prev of (out, ch, own) \<Rightarrow> converge out ws own = (out, nothing_changed, own)"
  using converge_again [OF assms] by (simp add: case_prod_unfold)

theorem converging_twice_changes_nothing_witness:
  "case converge demo_live demo_keys [] of (out, ch, own) \<Rightarrow>
     converge out demo_keys own = (out, nothing_changed, own)"
  using demo_clean demo_keys_ok by (rule converging_twice_changes_nothing)

lemma declared_keys_are_in_force:
  assumes "clean live" "keys_ok ws" "(g, k, v) \<in> set ws"
  shows "kf_get (kf_parse (fst (converge live ws prev))) g k = Some v"
proof -
  from assms(3) have "ws \<noteq> []" by auto
  with assms show ?thesis
    by (simp add: written_reads_back kf_get_kept file_ok_converged converged_gets)
qed

section \<open>The declaration is read back from the image\<close>

text \<open>\<open>validate_name\<close> and the part of \<open>Config::validate\<close> about one app's overrides.\<close>

datatype name_error = EmptyEntry | LeadingDash | NoLetterOrDigit | UnsupportedCharacter

definition ascii_alnum :: "char \<Rightarrow> bool" where
  "ascii_alnum c = (let n = (of_char c :: nat)
     in 48 \<le> n \<and> n \<le> 57 \<or> 65 \<le> n \<and> n \<le> 90 \<or> 97 \<le> n \<and> n \<le> 122)"

definition validate_name :: "string \<Rightarrow> string \<Rightarrow> name_error + unit" where
  "validate_name s extra =
     (if s = [] then Inl EmptyEntry
      else if starts_with ''-'' s then Inl LeadingDash
      else if \<not> list_ex ascii_alnum s then Inl NoLetterOrDigit
      else if list_ex (\<lambda>c. \<not> ascii_alnum c \<and> c \<notin> set extra) s then Inl UnsupportedCharacter
      else Inr ())"

datatype override_error =
    BadAppName name_error | DeclaresNothing | BadPermission string name_error
  | BadVariable name_error | NewlineInValue string | BadBusName name_error

definition app_is_empty :: "app_override \<Rightarrow> bool" where
  "app_is_empty app \<longleftrightarrow> list_all (\<lambda>(k, vs). vs = []) (context_lists app) \<and>
     ao_environment app = [] \<and> ao_session_bus app = [] \<and> ao_system_bus app = []"

fun first_error :: "('e + unit) list \<Rightarrow> 'e + unit" where
  "first_error [] = Inr ()"
| "first_error (Inl e # rs) = Inl e"
| "first_error (Inr u # rs) = first_error rs"

definition validate_override :: "string \<Rightarrow> app_override \<Rightarrow> override_error + unit" where
  "validate_override name app =
     first_error
       ([map_sum BadAppName id (validate_name name ''.-_''),
         if app_is_empty app then Inl DeclaresNothing else Inr ()] @
        concat (map (\<lambda>(k, vs). map (\<lambda>v. map_sum (BadPermission k) id (validate_name v ''!/.-_:~ '')) vs)
          (context_lists app)) @
        concat (map (\<lambda>(n, v). [map_sum BadVariable id (validate_name n ''_''),
          if nl \<in> set v \<or> cr \<in> set v then Inl (NewlineInValue n) else Inr ()]) (ao_environment app)) @
        map (\<lambda>(b, p). map_sum BadBusName id (validate_name b ''.-_*'')) (ao_session_bus app @ ao_system_bus app))"

lemma first_error_ok: "first_error rs = Inr () \<longleftrightarrow> (\<forall>r \<in> set rs. r = Inr ())"
  by (induction rs rule: first_error.induct) auto

lemma map_sum_ok: "map_sum f id r = Inr () \<longleftrightarrow> r = Inr ()"
  by (cases r) auto

lemma validate_name_ok:
  "validate_name s extra = Inr () \<longleftrightarrow>
     s \<noteq> [] \<and> \<not> starts_with ''-'' s \<and> list_ex ascii_alnum s \<and> (\<forall>c \<in> set s. ascii_alnum c \<or> c \<in> set extra)"
  by (auto simp: validate_name_def list_ex_iff)

lemma alnum_plain: "ascii_alnum c \<Longrightarrow> 32 < (of_char c :: nat) \<and> (of_char c :: nat) < 128 \<and> c \<noteq> CHR ''='' \<and> c \<noteq> CHR ''['' \<and> c \<noteq> CHR ''#''"
  by (auto simp: ascii_alnum_def Let_def)

text \<open>What a validated override can hold: a name is plain, and a permission list ends in its separator.\<close>

lemma name_plain:
  assumes "validate_name s extra = Inr ()" "list_all (\<lambda>c. 32 < (of_char c :: nat) \<and> (of_char c :: nat) < 128 \<and>
      c \<noteq> CHR ''='' \<and> c \<noteq> CHR ''['' \<and> c \<noteq> CHR ''#'') extra"
  shows "s \<noteq> [] \<and> plain s \<and> CHR ''='' \<notin> set s \<and> hd s \<noteq> CHR ''['' \<and> hd s \<noteq> CHR ''#''"
proof -
  have "32 < (of_char c :: nat) \<and> (of_char c :: nat) < 128 \<and> c \<noteq> CHR ''='' \<and> c \<noteq> CHR ''['' \<and> c \<noteq> CHR ''#''"
    if "c \<in> set s" for c
    using that assms alnum_plain by (auto simp: validate_name_ok list_all_iff)
  with assms(1) show ?thesis by (cases s) (auto simp: validate_name_ok plain_def list_all_iff)
qed

definition env_trimmed :: "app_override \<Rightarrow> bool" where
  "env_trimmed app \<longleftrightarrow> list_all (\<lambda>(n, v). \<not> space_first (map rev spaces) (rev v)) (ao_environment app)"

definition maps_ok :: "app_override \<Rightarrow> bool" where
  "maps_ok app \<longleftrightarrow> distinct (map fst (ao_environment app)) \<and> distinct (map fst (ao_session_bus app)) \<and>
     distinct (map fst (ao_system_bus app))"

lemma groups_ne [simp]: "context_group \<noteq> []" "environment_group \<noteq> []" "session_group \<noteq> []" "system_group \<noteq> []"
  by (simp_all add: context_group_def environment_group_def session_group_def system_group_def)

lemma groups_nl [simp]: "nl \<notin> set context_group" "nl \<notin> set environment_group"
  "nl \<notin> set session_group" "nl \<notin> set system_group"
  by code_simp+

lemma policy_plain [simp]: "plain (policy_str p)"
  by (cases p) (simp_all add: plain_def)

lemma context_key_plain:
  "(k, vs) \<in> set (context_lists app) \<Longrightarrow>
   k \<noteq> [] \<and> plain k \<and> CHR ''='' \<notin> set k \<and> hd k \<noteq> CHR ''['' \<and> hd k \<noteq> CHR ''#''"
  by (auto simp: context_lists_def plain_def)

lemma list_value_ok:
  assumes "\<forall>v \<in> set vs. validate_name v extra = Inr ()" "nl \<notin> set extra" "vs \<noteq> []"
  shows "nl \<notin> set (list_value vs) \<and> \<not> space_first (map rev spaces) (rev (list_value vs))"
proof
  have "\<not> ascii_alnum nl" by code_simp
  with assms(1,2) have "\<forall>v \<in> set vs. nl \<notin> set v" by (auto simp: validate_name_ok)
  moreover have "nl \<noteq> CHR '';''" by code_simp
  ultimately show "nl \<notin> set (list_value vs)" by (auto simp: list_value_def)
  obtain us v where "vs = us @ [v]" using assms(3) by (cases vs rule: rev_cases) auto
  then have "rev (list_value vs) = [] @ CHR '';'' # rev (list_value us @ v)" by (simp add: list_value_def)
  moreover have "visible (CHR '';'')" by (rule visibleI) (simp add: white_spaces_def)
  then have "\<forall>w \<in> set (map rev spaces). CHR '';'' \<notin> set w" by (auto simp: visible_def)
  ultimately show "\<not> space_first (map rev spaces) (rev (list_value vs))"
    using space_first_visible [of "map rev spaces" "CHR '';''" "[]" "rev (list_value us @ v)"] by simp
qed

lemma validated_parts:
  assumes "validate_override name app = Inr ()"
  shows "(k, vs) \<in> set (context_lists app) \<Longrightarrow> v \<in> set vs \<Longrightarrow> validate_name v ''!/.-_:~ '' = Inr ()"
    and "(n, x) \<in> set (ao_environment app) \<Longrightarrow> validate_name n ''_'' = Inr () \<and> nl \<notin> set x"
    and "(b, p) \<in> set (ao_session_bus app @ ao_system_bus app) \<Longrightarrow> validate_name b ''.-_*'' = Inr ()"
proof -
  from assms have all: "(\<forall>q \<in> set (context_lists app). \<forall>v \<in> set (snd q). validate_name v ''!/.-_:~ '' = Inr ()) \<and>
      (\<forall>q \<in> set (ao_environment app). validate_name (fst q) ''_'' = Inr () \<and>
         (if nl \<in> set (snd q) \<or> cr \<in> set (snd q) then Inl (NewlineInValue (fst q)) else Inr ()) = (Inr () :: override_error + unit)) \<and>
      (\<forall>q \<in> set (ao_session_bus app @ ao_system_bus app). validate_name (fst q) ''.-_*'' = Inr ())"
    by (simp add: validate_override_def first_error_ok ball_Un case_prod_unfold map_sum_ok)
  from all show "(k, vs) \<in> set (context_lists app) \<Longrightarrow> v \<in> set vs \<Longrightarrow> validate_name v ''!/.-_:~ '' = Inr ()"
    by fastforce
  from all show "(n, x) \<in> set (ao_environment app) \<Longrightarrow> validate_name n ''_'' = Inr () \<and> nl \<notin> set x"
    by (fastforce split: if_splits)
  from all show "(b, p) \<in> set (ao_session_bus app @ ao_system_bus app) \<Longrightarrow> validate_name b ''.-_*'' = Inr ()"
    by fastforce
qed

lemma plain_policy_key:
  "g \<noteq> [] \<Longrightarrow> nl \<notin> set g \<Longrightarrow> validate_name b ''.-_*'' = Inr () \<Longrightarrow> key_ok (g, b, policy_str p)"
  using name_plain [of b "''.-_*''"] by (intro plain_key_ok) auto

lemma declared_key_ok:
  assumes v: "validate_override name app = Inr ()" and e: "env_trimmed app"
  shows "list_all key_ok (declared_keys app)"
proof -
  have nle: "nl \<notin> set ''!/.-_:~ ''" by code_simp
  have ctx: "key_ok (context_group, k, list_value vs)" if "(k, vs) \<in> set (context_lists app)" "vs \<noteq> []" for k vs
    using list_value_ok [OF _ nle that(2)] validated_parts(1) [OF v that(1)] context_key_plain [OF that(1)]
    by (auto simp: key_ok_def plain_trimmed plain_nl)
  have env: "key_ok (environment_group, n, x)" if "(n, x) \<in> set (ao_environment app)" for n x
    using name_plain [of n "''_''"] validated_parts(2) [OF v that] e that
    by (auto simp: key_ok_def plain_trimmed plain_nl env_trimmed_def list_all_iff)
  have bus: "key_ok (g, b, policy_str p)"
    if "(b, p) \<in> set (ao_session_bus app @ ao_system_bus app)" "g \<noteq> []" "nl \<notin> set g" for g b p
    using validated_parts(3) [OF v that(1)] that by (intro plain_policy_key)
  show ?thesis
    using ctx env bus by (auto simp: list_all_iff declared_keys_def split: if_splits)
qed

lemma distinct_groups:
  assumes "\<forall>q \<in> set A. fst q = a" "\<forall>q \<in> set B. fst q = b" "\<forall>q \<in> set C. fst q = c" "\<forall>q \<in> set D. fst q = d"
    and "distinct A" "distinct B" "distinct C" "distinct D" "distinct [a, b, c, d]"
  shows "distinct (A @ B @ C @ D)"
  using assms by (auto simp: disjoint_iff)

lemma distinct_pairs: "distinct (map fst ps) \<Longrightarrow> distinct (map (\<lambda>q. (g, fst q)) ps)"
  by (induction ps) auto

lemma declared_keys_distinct:
  assumes "maps_ok app"
  shows "distinct (keys_of (declared_keys app))"
proof -
  have "distinct [context_group, environment_group, session_group, system_group]"
    by (simp add: context_group_def environment_group_def session_group_def system_group_def)
  moreover have "keys_of (declared_keys app) =
      concat (map (\<lambda>(k, vs). if vs = [] then [] else [(context_group, k)]) (context_lists app)) @
      map (\<lambda>q. (environment_group, fst q)) (ao_environment app) @
      map (\<lambda>q. (session_group, fst q)) (ao_session_bus app) @
      map (\<lambda>q. (system_group, fst q)) (ao_system_bus app)"
    by (simp add: keys_of_def declared_keys_def map_concat case_prod_unfold comp_def if_distrib cong: if_cong)
  moreover have "distinct (concat (map (\<lambda>(k, vs). if vs = [] then [] else [(context_group, k)]) (context_lists app)))"
    by (simp add: context_lists_def)
  ultimately show ?thesis
    using assms
    by (auto simp: maps_ok_def split: if_splits
      intro!: distinct_pairs distinct_groups [of _ context_group _ environment_group _ session_group _ system_group])
qed

text \<open>The rows of a baked file, and what reading them adds to a file's keys.\<close>

fun key_rows :: "string \<Rightarrow> bool \<Rightarrow> key list \<Rightarrow> string list" where
  "key_rows current started [] = []"
| "key_rows current started ((g, k, v) # ks) =
     (if g \<noteq> current then (if started then [[]] else []) @ [''['' @ g @ '']''] else []) @
     (k @ ''='' @ v) # key_rows g True ks"

definition group_pairs :: "group \<Rightarrow> key list" where
  "group_pairs gr = (if g_name gr = [] then []
     else concat (map (\<lambda>l. case l of KPair k v \<Rightarrow> [(g_name gr, k, v)] | KRaw r \<Rightarrow> []) (g_lines gr)))"

definition file_pairs :: "keyfile \<Rightarrow> key list" where
  "file_pairs f = concat (map group_pairs f)"

lemma parse_declared_pairs: "parse_declared txt = file_pairs (kf_parse txt)"
  by (simp add: parse_declared_def file_pairs_def group_pairs_def cong: map_cong)

lemma render_keys_rows: "render_keys current out ks = out @ unlines (key_rows current (out \<noteq> []) ks)"
  by (induction ks arbitrary: current out rule: list.induct) (auto simp: Let_def)

lemma file_pairs_add:
  "f \<noteq> [] \<Longrightarrow> file_pairs (add_line f l) = file_pairs f @
     (case l of KPair k v \<Rightarrow> if g_name (last f) = [] then [] else [(g_name (last f), k, v)] | KRaw r \<Rightarrow> [])"
  by (cases f rule: rev_cases) (auto simp: file_pairs_def add_line_def group_pairs_def split: kf_line.split)

lemma file_pairs_group: "file_pairs (f @ [\<lparr>g_name = g, g_lines = []\<rparr>]) = file_pairs f"
  by (simp add: file_pairs_def group_pairs_def)

lemma last_add_line [simp]: "g_name (last (add_line f l)) = g_name (last f)" "add_line f l \<noteq> []"
  by (simp_all add: add_line_def)

lemma kf_step_pair: "reads_back (KPair k v) \<Longrightarrow> kf_step f (k @ CHR ''='' # v) = add_line f (KPair k v)"
  by (simp add: kf_step_def reads_back_def)

lemma header_Nil [simp]: "header [] = None"
  using header_trimmed [of "[]"] by (cases "header []") auto

lemma kf_step_blank [simp]: "kf_step f [] = add_line f (KRaw [])"
  by (simp add: kf_step_def read_line_def trim_empty)

lemma fold_key_rows:
  assumes "list_all key_ok ks" "f \<noteq> []" "g_name (last f) = current"
  shows "file_pairs (foldl kf_step f (key_rows current started ks)) = file_pairs f @ ks"
  using assms
proof (induction current started ks arbitrary: f rule: key_rows.induct)
  case (2 current started g k v ks)
  let ?f1 = "if g \<noteq> current then (if started then add_line f (KRaw []) else f) @ [\<lparr>g_name = g, g_lines = []\<rparr>] else f"
  from 2(2) have ok: "key_ok (g, k, v)" "list_all key_ok ks" by simp_all
  then have g: "g \<noteq> []" and step: "kf_step ?f1 (k @ CHR ''='' # v) = add_line ?f1 (KPair k v)"
    by (auto simp: key_ok_def kf_step_pair key_reads_back)
  have f1: "?f1 \<noteq> []" "g_name (last ?f1) = g" "file_pairs ?f1 = file_pairs f"
    using 2(3,4) by (auto simp: file_pairs_group file_pairs_add)
  have "foldl kf_step f (key_rows current started ((g, k, v) # ks)) =
      foldl kf_step (add_line ?f1 (KPair k v)) (key_rows g True ks)"
    using step by auto
  also have "file_pairs \<dots> = file_pairs (add_line ?f1 (KPair k v)) @ ks"
    using 2(1) [OF ok(2), of "add_line ?f1 (KPair k v)"] f1(2) by simp
  finally show ?case using f1 g file_pairs_add [OF f1(1), of "KPair k v"] by simp
qed simp

lemma key_rows_ok: "list_all key_ok ks \<Longrightarrow> r \<in> set (key_rows current started ks) \<Longrightarrow> line_ok r"
proof (induction current started ks rule: key_rows.induct)
  case (2 current started g k v ks)
  then have ok: "key_ok (g, k, v)" by simp
  then have "line_ok (''['' @ g @ '']'')" "line_ok (k @ CHR ''='' # v)"
    using key_reads_back [OF ok] by (auto simp: key_ok_def line_ok_def reads_back_def)
  with 2 show ?case by (auto simp: line_ok_def split: if_splits)
qed simp

lemma rendered_reads:
  assumes ok: "list_all key_ok (declared_keys app)"
  shows "parse_declared (render_app app) = declared_keys app"
proof -
  have "str_lines (render_app app) = key_rows [] False (declared_keys app)"
    using str_lines_unlines [of "key_rows [] False (declared_keys app)"] key_rows_ok [OF ok]
    by (simp add: render_app_def render_keys_rows)
  then show ?thesis
    using fold_key_rows [OF ok, of "[\<lparr>g_name = [], g_lines = []\<rparr>]" "[]" False]
    by (simp add: parse_declared_pairs kf_parse_def file_pairs_def group_pairs_def)
qed


section \<open>What is not declared\<close>

text \<open>
  The lines that are somebody else's, each with its group: every comment and stray line, and every
  pair whose key is not among \<open>ks\<close>.
\<close>

fun mine :: "(string \<times> string) list \<Rightarrow> string \<Rightarrow> kf_line \<Rightarrow> bool" where
  "mine ks g (KPair k v) = ((g, k) \<in> set ks)"
| "mine ks g (KRaw r) = (trim r = [])"

definition others_lines :: "(string \<times> string) list \<Rightarrow> group \<Rightarrow> (string \<times> kf_line) list" where
  "others_lines ks gr = map (Pair (g_name gr)) (filter (\<lambda>l. \<not> mine ks (g_name gr) l) (g_lines gr))"

definition others :: "(string \<times> string) list \<Rightarrow> keyfile \<Rightarrow> (string \<times> kf_line) list" where
  "others ks f = concat (map (others_lines ks) f)"

definition touched_keys :: "key list \<Rightarrow> string list \<Rightarrow> (string \<times> string) list" where
  "touched_keys ws prev = keys_of ws @ List.map_filter (split_once [tab]) prev"

lemma others_update:
  assumes "\<And>gr. g_name gr = g \<Longrightarrow> others_lines ks (h gr) = others_lines ks gr"
  shows "others ks (update_first (\<lambda>gr. g_name gr = g) h f) = others ks f"
  using assms by (induction f) (auto simp: others_def)

lemma mine_key: "(g, k) \<in> set ks \<Longrightarrow> has_key k l \<Longrightarrow> mine ks g l"
  by (cases l) auto

lemma filter_set_line:
  "(g, k) \<in> set ks \<Longrightarrow> filter (\<lambda>l. \<not> mine ks g l) (set_line k v ls) = filter (\<lambda>l. \<not> mine ks g l) ls"
proof (induction ls)
  case (Cons l ls)
  then show ?case by (auto simp: set_line_def mine_key split: if_splits)
qed (simp add: set_line_def)

lemma others_set: "(g, k) \<in> set ks \<Longrightarrow> others ks (kf_set f g k v) = others ks f"
proof -
  assume k: "(g, k) \<in> set ks"
  have "others ks (update_first (\<lambda>gr. g_name gr = g) (\<lambda>gr. gr\<lparr>g_lines := set_line k v (g_lines gr)\<rparr>) f) = others ks f"
    by (rule others_update) (use k in \<open>simp add: others_lines_def filter_set_line\<close>)
  moreover have "others ks (f @ [\<lparr>g_name = g, g_lines = [KPair k v]\<rparr>]) = others ks f"
    using k by (simp add: others_def others_lines_def)
  ultimately show ?thesis by (simp add: kf_set_def)
qed

lemma others_remove: "(g, k) \<in> set ks \<Longrightarrow> others ks (kf_remove f g k) = others ks f"
proof -
  assume "(g, k) \<in> set ks"
  then have "filter (\<lambda>l. \<not> has_key k l \<and> \<not> mine ks g l) ls = filter (\<lambda>l. \<not> mine ks g l) ls" for ls
    by (intro filter_cong) (auto simp: mine_key)
  then show ?thesis unfolding kf_remove_def by (intro others_update) (auto simp: others_lines_def)
qed

lemma others_conv_set: "set (keys_of ws) \<subseteq> set ks \<Longrightarrow> others ks (fst (conv_set f ws)) = others ks f"
  by (induction f ws rule: conv_set.induct) (auto simp: Let_def case_prod_unfold keys_of_def others_set)

lemma others_conv_remove:
  "set (List.map_filter (split_once [tab]) is) \<subseteq> set ks \<Longrightarrow> others ks (fst (conv_remove now f is)) = others ks f"
  by (induction "is" arbitrary: f)
    (auto simp: Let_def case_prod_unfold List.map_filter_simps others_remove split: option.splits)

lemma no_others: "\<not> keeps_something gr \<Longrightarrow> others_lines ks gr = []"
proof -
  assume "\<not> keeps_something gr"
  then have "\<forall>l \<in> set (g_lines gr). mine ks (g_name gr) l"
    by (auto simp: keeps_something_def list_ex_iff elim: worth_keeping.elims)
       (metis mine.simps(2) worth_keeping.elims(3))
  then show ?thesis by (simp add: others_lines_def)
qed

lemma others_kept: "f \<noteq> [] \<Longrightarrow> others ks (kept f) = others ks f"
proof -
  have "concat (map (others_lines ks) (filter keeps_something gs)) = concat (map (others_lines ks) gs)" for gs
    by (induction gs) (auto simp: no_others)
  then show "f \<noteq> [] \<Longrightarrow> ?thesis" by (cases f) (simp_all add: others_def kept_def)
qed

lemma others_parse_Nil [simp]: "others ks (kf_parse []) = []"
  by (simp add: kf_parse_Nil others_def others_lines_def)

lemma blank_file_has_none:
  assumes "trim (kf_render f) = []"
  shows "others ks f = []"
proof -
  have rows: "\<forall>r \<in> set (concat (map group_rows f)). trim r = []"
    using assms blank_unlines by (simp add: render_rows)
  have "\<not> keeps_something gr" if gr: "gr \<in> set f" for gr
  proof
    assume k: "keeps_something gr"
    then obtain l where l: "l \<in> set (g_lines gr)" "worth_keeping l" by (auto simp: keeps_something_def list_ex_iff)
    then have "line_text l \<in> set (concat (map group_rows f))"
      using gr k by (auto simp: group_rows_def)
    then have "trim (line_text l) = []" using rows by blast
    moreover have "trim (line_text (KPair k v)) \<noteq> []" for k v
      by (rule visible_trim [OF _ visible_ascii(1)]) simp
    ultimately show False using l(2) by (cases l) simp_all
  qed
  then show ?thesis by (simp add: others_def no_others)
qed

lemma others_survive:
  assumes "clean live" "keys_ok ws"
  shows "others (touched_keys ws prev) (kf_parse (fst (converge live ws prev))) =
    others (touched_keys ws prev) (kf_parse live)"
proof -
  let ?F = "converged live ws prev"
  let ?ks = "touched_keys ws prev"
  have ok: "file_ok ?F" using assms by (rule file_ok_converged)
  have "others ?ks ?F = others ?ks (kf_parse live)"
    by (simp add: converged_def others_conv_remove others_conv_set touched_keys_def)
  moreover have "others ?ks (kf_parse (fst (converge live ws prev))) = others ?ks ?F"
  proof (cases "trim (kf_render ?F) = []")
    case True
    then show ?thesis by (simp add: converge_text blank_file_has_none)
  next
    case False
    moreover have "?F \<noteq> []" using ok by (simp add: file_ok_def)
    ultimately show ?thesis
      using parse_render [OF ok] others_kept by (simp add: converge_text kept_def)
  qed
  ultimately show ?thesis by simp
qed



lemma names_set: "map g_name (kf_set f g k v) = map g_name f @ (if g \<in> set (map g_name f) then [] else [g])"
proof -
  have "map g_name (update_first (\<lambda>gr. g_name gr = g) (\<lambda>gr. gr\<lparr>g_lines := set_line k v (g_lines gr)\<rparr>) f) = map g_name f"
    by (rule map_update_first) simp
  then show ?thesis by (auto simp: kf_set_def list_ex_iff)
qed

lemma names_remove [simp]: "map g_name (kf_remove f g k) = map g_name f"
  unfolding kf_remove_def by (rule map_update_first) simp

lemma names_conv_set: "distinct (map g_name f) \<Longrightarrow> distinct (map g_name (fst (conv_set f ws)))"
  by (induction f ws rule: conv_set.induct) (auto simp: Let_def case_prod_unfold names_set)

lemma present_iff: "kf_present f g k \<longleftrightarrow> (\<exists>gr \<in> set f. g_name gr = g \<and> list_ex (has_key k) (g_lines gr))"
  by (auto simp: kf_present_def list_ex_iff)

lemma present_remove: "distinct (map g_name f) \<Longrightarrow> \<not> kf_present (kf_remove f g k) g k"
proof (induction f)
  case (Cons a f)
  show ?case
  proof (cases "g_name a = g")
    case True
    with Cons.prems have "g \<notin> g_name ` set f" by simp
    then have "\<forall>gr \<in> set f. g_name gr \<noteq> g" by (metis imageI)
    with True show ?thesis by (simp add: present_iff kf_remove_def list_ex_iff)
  next
    case False
    with Cons show ?thesis by (simp add: present_iff kf_remove_def)
  qed
qed (simp add: present_iff kf_remove_def)

lemma present_remove_mono: "kf_present (kf_remove f g' k') g k \<Longrightarrow> kf_present f g k"
proof -
  assume "kf_present (kf_remove f g' k') g k"
  then obtain x where x: "x \<in> set (kf_remove f g' k')" "g_name x = g" "list_ex (has_key k) (g_lines x)"
    by (auto simp: present_iff)
  from update_first_in [OF x(1) [unfolded kf_remove_def]] obtain y where
    "y \<in> set f" "g_name x = g_name y" "set (g_lines x) \<subseteq> set (g_lines y)" by auto
  with x show ?thesis by (auto simp: present_iff list_ex_iff)
qed

lemma present_conv_remove: "kf_present (fst (conv_remove now f is)) g k \<Longrightarrow> kf_present f g k"
proof (induction "is" arbitrary: f)
  case (Cons i js)
  have "fst (conv_remove now f (i # js)) = fst (conv_remove now f js) \<or>
      (\<exists>g' k'. fst (conv_remove now f (i # js)) = fst (conv_remove now (kf_remove f g' k') js))"
    by (cases "split_once [tab] i") (auto simp: Let_def case_prod_unfold)
  then consider "fst (conv_remove now f (i # js)) = fst (conv_remove now f js)"
    | g' k' where "fst (conv_remove now f (i # js)) = fst (conv_remove now (kf_remove f g' k') js)"
    by blast
  then show ?case
  proof cases
    case 1
    with Cons show ?thesis by simp
  next
    case 2
    with Cons.prems have "kf_present (fst (conv_remove now (kf_remove f g' k') js)) g k" by simp
    from Cons.IH [OF this] show ?thesis by (rule present_remove_mono)
  qed
qed simp

lemma conv_remove_gone:
  "distinct (map g_name f) \<Longrightarrow> i \<in> set is \<Longrightarrow> i \<notin> set now \<Longrightarrow> split_once [tab] i = Some (g, k) \<Longrightarrow>
   \<not> kf_present (fst (conv_remove now f is)) g k"
proof (induction "is" arbitrary: f)
  case (Cons j js)
  show ?case
  proof (cases "j = i")
    case True
    with Cons.prems show ?thesis
      using present_conv_remove [of now "kf_remove f g k" js g k] present_conv_remove [of now f js g k]
        present_remove [of f g k]
      by (auto simp: Let_def case_prod_unfold)
  next
    case False
    with Cons show ?thesis by (auto simp: Let_def case_prod_unfold split: option.split)
  qed
qed simp

lemma present_kept: "kf_present (kept f) g k \<Longrightarrow> f \<noteq> [] \<Longrightarrow> kf_present f g k"
  by (cases f) (auto simp: kf_present_def kept_def list_ex_iff)

text \<open>
  A key an earlier pass set and the declaration no longer names is gone after the pass, where
  the file has every group once.
\<close>

theorem undeclared_keys_are_taken_back:
  assumes "clean live" "keys_ok ws" "distinct (map g_name (kf_parse live))"
    and "owned_id g k \<in> set prev" "owned_id g k \<notin> set (wanted_ids ws)" "tab \<notin> set g"
  shows "\<not> kf_present (kf_parse (fst (converge live ws prev))) g k"
proof -
  let ?F = "converged live ws prev"
  have ok: "file_ok ?F" using assms(1,2) by (rule file_ok_converged)
  have "split_once [tab] (owned_id g k) = Some (g, k)"
    unfolding owned_id_def by (rule split_once_char [OF assms(6)])
  then have gone: "\<not> kf_present ?F g k"
    unfolding converged_def using assms(3,4,5) by (intro conv_remove_gone names_conv_set)
  show ?thesis
  proof (cases "trim (kf_render ?F) = []")
    case True
    then show ?thesis by (simp add: converge_text kf_parse_Nil kf_present_def)
  next
    case False
    then show ?thesis
      using parse_render [OF ok] gone present_kept [of ?F g k] ok
      by (auto simp: converge_text kept_def file_ok_def)
  qed
qed

text \<open>The example file as it is parsed, and with a key twice over.\<close>

definition demo_file :: keyfile where
  "demo_file =
     [\<lparr>g_name = [], g_lines = [KRaw ''#mine'']\<rparr>,
      \<lparr>g_name = context_group, g_lines = [KPair ''sockets'' ''x11;'', KPair ''devices'' ''dri;'']\<rparr>]"

definition twice_file :: keyfile where
  "twice_file =
     [\<lparr>g_name = [], g_lines = []\<rparr>,
      \<lparr>g_name = context_group, g_lines = [KPair ''devices'' ''dri;'']\<rparr>,
      \<lparr>g_name = context_group, g_lines = [KPair ''sockets'' ''x11;'']\<rparr>]"

lemma demo_reads: "reads_back (KRaw ''#mine'')" "reads_back (KPair ''sockets'' ''x11;'')"
  "reads_back (KPair ''devices'' ''dri;'')"
proof -
  have "key_ok (context_group, ''sockets'', ''x11;'')" "key_ok (context_group, ''devices'', ''dri;'')"
    by (rule plain_key_ok; simp add: plain_def)+
  then show "reads_back (KPair ''sockets'' ''x11;'')" "reads_back (KPair ''devices'' ''dri;'')"
    by (auto dest: key_reads_back)
  show "reads_back (KRaw ''#mine'')"
    using demo_plain(1) by (simp add: reads_back_def plain_line plain_header read_line_def plain_trimmed Let_def starts_with_def)
qed

lemma demo_files_ok: "file_ok demo_file" "file_ok twice_file"
  by (simp_all add: demo_file_def twice_file_def file_ok_def group_ok_def demo_reads)

lemma demo_parse: "kf_parse demo_live = demo_file" "kf_parse (kf_render twice_file) = twice_file"
proof -
  have "kf_render demo_file = demo_live"
    by (simp add: kf_render_def group_text_def demo_file_def demo_live_def keeps_something_def context_group_def)
  with parse_render [OF demo_files_ok(1)] show "kf_parse demo_live = demo_file"
    by (simp add: demo_file_def keeps_something_def)
  from parse_render [OF demo_files_ok(2)] show "kf_parse (kf_render twice_file) = twice_file"
    by (simp add: twice_file_def keeps_something_def)
qed

theorem undeclared_keys_are_taken_back_witness:
  "\<not> kf_present (kf_parse (fst (converge demo_live demo_keys [owned_id context_group ''devices''])))
     context_group ''devices''"
proof (rule undeclared_keys_are_taken_back [OF demo_clean demo_keys_ok])
  show "distinct (map g_name (kf_parse demo_live))" by (simp add: demo_parse demo_file_def context_group_def)
  show "owned_id context_group ''devices'' \<notin> set (wanted_ids demo_keys)"
    by (simp add: wanted_ids_def demo_keys_def owned_id_def)
  show "tab \<notin> set context_group" by code_simp
qed simp

text \<open>
  A file that has a group twice keeps a key the program means to take back: \<open>remove\<close> looks in
  the first group of the name only while the test before it looked in all, so the pass reports the
  key as removed, forgets that it owned it, and writes it again.
\<close>

theorem removed_key_stays_in_second_group:
  "case converge (kf_render twice_file) [] [owned_id context_group ''sockets''] of (out, ch, own) \<Rightarrow>
     ch_removed ch = [owned_id context_group ''sockets''] \<and> own = [] \<and>
     kf_get (kf_parse out) context_group ''sockets'' = None \<and> kf_present (kf_parse out) context_group ''sockets''"
proof -
  let ?i = "owned_id context_group ''sockets''"
  have "tab \<notin> set context_group" by code_simp
  then have i: "split_once [tab] ?i = Some (context_group, ''sockets'')"
    unfolding owned_id_def by (rule split_once_char)
  have "kf_remove twice_file context_group ''sockets'' = twice_file"
    by (simp add: twice_file_def kf_remove_def)
  moreover have "kf_present twice_file context_group ''sockets''"
    by (simp add: twice_file_def kf_present_def)
  ultimately have "conv_remove [] twice_file [?i] = (twice_file, [?i])" by (simp add: i)
  moreover have "trim (kf_render twice_file) \<noteq> []"
    by (rule visible_trim [OF _ visible_ascii(2)])
      (simp add: twice_file_def kf_render_def group_text_def keeps_something_def)
  ultimately have "converge (kf_render twice_file) [] [?i] =
      (kf_render twice_file, \<lparr>ch_set = [], ch_removed = [?i]\<rparr>, [])"
    by (simp add: converge_def demo_parse wanted_ids_def)
  moreover have "kf_get twice_file context_group ''sockets'' = None"
    by (simp add: twice_file_def kf_get_def lines_get_def)
  ultimately show ?thesis
    using \<open>kf_present twice_file context_group ''sockets''\<close> by (simp add: demo_parse)
qed

text \<open>An app's declaration, and the same one with a variable whose value ends in a space.\<close>

definition demo_app :: app_override where
  "demo_app = \<lparr>ao_scope = System, ao_filesystems = [], ao_sockets = [''wayland''], ao_devices = [], ao_shared = [],
     ao_features = [], ao_persistent = [], ao_environment = [(''LANG'', ''C'')],
     ao_session_bus = [(''org.a'', PolicyTalk)], ao_system_bus = []\<rparr>"

definition spaced_app :: app_override where
  "spaced_app = \<lparr>ao_scope = System, ao_filesystems = [], ao_sockets = [], ao_devices = [], ao_shared = [],
     ao_features = [], ao_persistent = [], ao_environment = [(''A'', ''b '')],
     ao_session_bus = [], ao_system_bus = []\<rparr>"

lemma ascii_ends: "nl \<noteq> CHR ''C''" "cr \<noteq> CHR ''C''" "nl \<noteq> CHR ''b''" "cr \<noteq> CHR ''b''" "nl \<noteq> CHR '' ''" "cr \<noteq> CHR '' ''"
  by code_simp+

lemma demo_app_ok: "validate_override ''org.b'' demo_app = Inr ()" "env_trimmed demo_app" "maps_ok demo_app"
proof -
  show "validate_override ''org.b'' demo_app = Inr ()"
    by (simp add: validate_override_def first_error_ok map_sum_ok validate_name_ok demo_app_def context_lists_def
      app_is_empty_def ascii_alnum_def starts_with_def ascii_ends)
  have "plain ''C''" by (simp add: plain_def)
  then show "env_trimmed demo_app" using plain_edges [of "''C''"] by (simp add: env_trimmed_def demo_app_def)
  show "maps_ok demo_app" by (simp add: maps_ok_def demo_app_def)
qed


lemma baked_keys_ok:
  "validate_override name app = Inr () \<Longrightarrow> env_trimmed app \<Longrightarrow> maps_ok app \<Longrightarrow> keys_ok (declared_keys app)"
  by (simp add: keys_ok_def declared_key_ok declared_keys_distinct)

text \<open>
  What the declaration allows passes validation and is not what the machine is given: a value
  that ends in a space loses it on the way through the baked file, so the key the program checks
  for is never the one it sets.
\<close>

theorem trailing_space_is_lost:
  "validate_override ''org.b'' spaced_app = Inr () \<and>
   declared_keys spaced_app = [(environment_group, ''A'', ''b '')] \<and>
   parse_declared (render_app spaced_app) = [(environment_group, ''A'', ''b'')]"
proof (intro conjI)
  show "validate_override ''org.b'' spaced_app = Inr ()"
    by (simp add: validate_override_def first_error_ok map_sum_ok validate_name_ok spaced_app_def context_lists_def
      app_is_empty_def ascii_alnum_def starts_with_def ascii_ends)
  show keys: "declared_keys spaced_app = [(environment_group, ''A'', ''b '')]"
    by (simp add: declared_keys_def context_lists_def spaced_app_def)
  have "line_ok (''['' @ environment_group @ '']'')" by (simp add: line_ok_def)
  moreover have "line_ok ''A=b ''" by code_simp
  ultimately have "str_lines (render_app spaced_app) = [''['' @ environment_group @ '']'', ''A=b '']"
    using str_lines_unlines [of "[''['' @ environment_group @ '']'', ''A=b '']"]
    by (simp add: render_app_def keys)
  moreover have "trim ''A=b '' = ''A=b''" using trim_last_space [of "''A=b''"] by (simp add: plain_def)
  then have "header ''A=b '' = None" "read_line ''A=b '' = KPair ''A'' ''b''"
    using plain_trimmed [of "''A''"] header_trim [of "''A=b ''"] plain_header [of "''A=b''"]
    by (simp_all add: read_line_def plain_def starts_with_def)
  ultimately show "parse_declared (render_app spaced_app) = [(environment_group, ''A'', ''b'')]"
    by (simp add: parse_declared_pairs kf_parse_def file_pairs_def group_pairs_def kf_step_def add_line_def)
qed



end
