(* ===== verification/OverrideStore.thy ===== *)
theory OverrideStore
  imports Overrides "HOL-Library.List_Lexorder" "HOL-Library.Char_ord"
begin

text \<open>
  The pass over a whole override store, \<open>src/overrides.rs\<close>: its state file, the files it writes and
  removes with the writes that may fail, what \<open>diff\<close> and \<open>capture\<close> report, and when a baked image is
  stale.
\<close>

section \<open>Files and ordered maps\<close>

text \<open>
  A file that exists, as \<open>read_to_string\<close> sees it: a text, or bytes that are no text or cannot be
  read. The files of one scope: the baked directory (the names that are text; absent when it cannot
  be listed), the store and the state file.
\<close>

datatype file_text = Readable string | Unreadable

record scope_files =
  sf_declared :: "(string \<times> file_text) list option"
  sf_store :: "string \<Rightarrow> file_text option"
  sf_state :: "file_text option"

fun read_to_string :: "file_text option \<Rightarrow> string option" where
  "read_to_string (Some (Readable t)) = Some t"
| "read_to_string (Some Unreadable) = None"
| "read_to_string None = None"

definition or_empty :: "'a list option \<Rightarrow> 'a list" where
  "or_empty r = (case r of Some x \<Rightarrow> x | None \<Rightarrow> [])"

text \<open>A \<open>BTreeMap\<close> as the list of its entries in order: \<open>insert\<close>, and \<open>entry().or_default().push()\<close>.\<close>

fun bt_insert :: "'k :: linorder \<Rightarrow> 'v \<Rightarrow> ('k \<times> 'v) list \<Rightarrow> ('k \<times> 'v) list" where
  "bt_insert k v [] = [(k, v)]"
| "bt_insert k v ((k', v') # m) =
     (if k = k' then (k, v) # m else if k < k' then (k, v) # (k', v') # m else (k', v') # bt_insert k v m)"

fun bt_push :: "'k :: linorder \<Rightarrow> 'v \<Rightarrow> ('k \<times> 'v list) list \<Rightarrow> ('k \<times> 'v list) list" where
  "bt_push k v [] = [(k, [v])]"
| "bt_push k v ((k', vs) # m) =
     (if k = k' then (k', vs @ [v]) # m else if k < k' then (k, [v]) # (k', vs) # m
      else (k', vs) # bt_push k v m)"

section \<open>The state file\<close>

type_synonym owned = "(string \<times> string list) list"

definition state_line :: "string \<Rightarrow> (string \<times> string) option" where
  "state_line l =
     (case split_once [tab] l of None \<Rightarrow> None
      | Some (app, rest) \<Rightarrow>
          (case split_once [tab] rest of None \<Rightarrow> None | Some (g, k) \<Rightarrow> Some (app, owned_id g k)))"

definition read_state :: "file_text option \<Rightarrow> owned" where
  "read_state f =
     (case read_to_string f of None \<Rightarrow> []
      | Some t \<Rightarrow> foldl (\<lambda>m l. case state_line l of Some (a, i) \<Rightarrow> bt_push a i m | None \<Rightarrow> m) [] (str_lines t))"

definition state_text :: "owned \<Rightarrow> string" where
  "state_text m = concat (map (\<lambda>(a, is). concat (map (\<lambda>i. a @ tab # i @ [nl]) is)) m)"

section \<open>The pass\<close>

text \<open>
  What may fail, and the disk: for each write whether it fails, and then what it leaves of the file
  it was writing.
\<close>

datatype io_step = RemoveFile string | CreateStore | WriteFile string | CreateStateDir | WriteState

type_synonym disk = "io_step \<Rightarrow> file_text option option"

definition write_state :: "disk \<Rightarrow> owned \<Rightarrow> scope_files \<Rightarrow> (io_step + unit) \<times> scope_files" where
  "write_state D m s =
     (if D CreateStateDir \<noteq> None then (Inl CreateStateDir, s)
      else (case D WriteState of
              Some left \<Rightarrow> (Inl WriteState, s\<lparr>sf_state := left\<rparr>)
            | None \<Rightarrow> (Inr (), s\<lparr>sf_state := Some (Readable (state_text m))\<rparr>)))"

definition wanted_keys :: "scope_files \<Rightarrow> string \<Rightarrow> key list" where
  "wanted_keys s a = (case read_to_string (map_of (or_empty (sf_declared s)) a) of
     Some t \<Rightarrow> parse_declared t | None \<Rightarrow> [])"

definition write_app :: "disk \<Rightarrow> string \<Rightarrow> string \<Rightarrow> string \<Rightarrow> scope_files \<Rightarrow> (io_step + unit) \<times> scope_files" where
  "write_app D a live out s =
     (if out = [] then
        (if sf_store s a \<noteq> None then
           (if D (RemoveFile a) \<noteq> None then (Inl (RemoveFile a), s)
            else (Inr (), s\<lparr>sf_store := (sf_store s)(a := None)\<rparr>))
         else (Inr (), s))
      else if out \<noteq> live then
        (if D CreateStore \<noteq> None then (Inl CreateStore, s)
         else (case D (WriteFile a) of
                 Some left \<Rightarrow> (Inl (WriteFile a), s\<lparr>sf_store := (sf_store s)(a := left)\<rparr>)
               | None \<Rightarrow> (Inr (), s\<lparr>sf_store := (sf_store s)(a := Some (Readable out))\<rparr>)))
      else (Inr (), s))"

definition converge_app :: "owned \<Rightarrow> string \<Rightarrow> scope_files \<Rightarrow> string \<times> changed \<times> string list" where
  "converge_app prev a s =
     converge (or_empty (read_to_string (sf_store s a))) (wanted_keys s a) (or_empty (map_of prev a))"

fun pass_apps :: "disk \<Rightarrow> owned \<Rightarrow> string list \<Rightarrow> scope_files \<Rightarrow>
    (io_step + owned \<times> (string \<times> changed) list) \<times> scope_files" where
  "pass_apps D prev [] s = (Inr ([], []), s)"
| "pass_apps D prev (a # as) s =
     (case converge_app prev a s of (out, ch, now) \<Rightarrow>
        (case write_app D a (or_empty (read_to_string (sf_store s a))) out s of
           (Inl e, s1) \<Rightarrow> (Inl e, s1)
         | (Inr _, s1) \<Rightarrow>
             (case pass_apps D prev as s1 of
                (Inl e, s2) \<Rightarrow> (Inl e, s2)
              | (Inr (m, report), s2) \<Rightarrow>
                  (Inr ((if now \<noteq> [] then [(a, now)] else []) @ m,
                        (if ch \<noteq> nothing_changed then [(a, ch)] else []) @ report), s2))))"

definition apps_to_visit :: "owned \<Rightarrow> scope_files \<Rightarrow> string list" where
  "apps_to_visit prev s = sort (remdups (map fst prev @ map fst (or_empty (sf_declared s))))"

definition converge_store :: "disk \<Rightarrow> scope_files \<Rightarrow> (io_step + (string \<times> changed) list) \<times> scope_files" where
  "converge_store D s =
     (let prev = read_state (sf_state s)
      in case pass_apps D prev (apps_to_visit prev s) s of
           (Inl e, s1) \<Rightarrow> (Inl e, s1)
         | (Inr (m, report), s1) \<Rightarrow>
             if m \<noteq> prev then
               (case write_state D m s1 of (Inl e, s2) \<Rightarrow> (Inl e, s2) | (Inr _, s2) \<Rightarrow> (Inr report, s2))
             else (Inr report, s1))"

section \<open>The state file is read back\<close>

text \<open>An entry the pass can record: an app's name and ids that survive a line of text.\<close>

definition id_ok :: "string \<Rightarrow> bool" where
  "id_ok i \<longleftrightarrow> tab \<in> set i \<and> line_ok i"

definition owned_ok :: "owned \<Rightarrow> bool" where
  "owned_ok m \<longleftrightarrow> sorted (map fst m) \<and> distinct (map fst m) \<and>
     list_all (\<lambda>(a, is). tab \<notin> set a \<and> nl \<notin> set a \<and> is \<noteq> [] \<and> list_all id_ok is) m"

lemma tab_nl [simp]: "tab \<noteq> nl" "nl \<noteq> tab" "cr \<noteq> tab" "tab \<noteq> cr"
  by code_simp+

lemma state_line_ok:
  assumes "tab \<notin> set a" "id_ok i"
  shows "state_line (a @ tab # i) = Some (a, i)"
proof -
  obtain g k where "i = g @ tab # k" "tab \<notin> set g" using assms(2) by (metis id_ok_def split_list_first)
  then show ?thesis
    using split_once_char [OF assms(1), of i] split_once_char [of tab g k]
    by (simp add: state_line_def owned_id_def)
qed

lemma state_text_lines: "state_text m = unlines (concat (map (\<lambda>(a, is). map (\<lambda>i. a @ tab # i) is) m))"
proof -
  have "concat (map (\<lambda>i. a @ tab # i @ [nl]) is) = unlines (map (\<lambda>i. a @ tab # i) is)" for a "is"
    by (induction "is") simp_all
  then show ?thesis by (induction m) (auto simp: state_text_def)
qed

lemma bt_push_last: "\<forall>a' \<in> set (map fst m). a' < a \<Longrightarrow> bt_push a i m = m @ [(a, [i])]"
  by (induction m) (auto simp: less_le_not_le)

lemma bt_push_again: "\<forall>a' \<in> set (map fst m). a' < a \<Longrightarrow> bt_push a i (m @ [(a, is)]) = m @ [(a, is @ [i])]"
  by (induction m) (auto simp: less_le_not_le)

definition read_line_into :: "owned \<Rightarrow> string \<Rightarrow> owned" where
  "read_line_into m l = (case state_line l of Some (a, i) \<Rightarrow> bt_push a i m | None \<Rightarrow> m)"

lemma fold_same_app:
  assumes "\<forall>a' \<in> set (map fst m). a' < a" "tab \<notin> set a" "list_all id_ok is"
  shows "foldl read_line_into (m @ [(a, js)]) (map (\<lambda>i. a @ tab # i) is) = m @ [(a, js @ is)]"
  using assms(3)
proof (induction "is" arbitrary: js)
  case (Cons i "is")
  then show ?case
    using assms by (simp add: read_line_into_def state_line_ok bt_push_again)
qed simp

lemma fold_state:
  assumes "owned_ok (m' @ m)"
  shows "foldl read_line_into m' (concat (map (\<lambda>(a, is). map (\<lambda>i. a @ tab # i) is) m)) = m' @ m"
  using assms
proof (induction m arbitrary: m')
  case (Cons e m)
  obtain a "is" where e: "e = (a, is)" by fastforce
  with Cons.prems have a: "tab \<notin> set a" "list_all id_ok is" "is \<noteq> []" by (auto simp: owned_ok_def)
  then obtain i js where "is": "is = i # js" by (cases "is") auto
  have lt: "\<forall>a' \<in> set (map fst m'). a' < a"
    using Cons.prems e by (auto simp: owned_ok_def sorted_append order.strict_iff_order)
  have "read_line_into m' (a @ tab # i) = m' @ [(a, [i])]"
    using a "is" lt by (simp add: read_line_into_def state_line_ok bt_push_last)
  then have "foldl read_line_into m' (map (\<lambda>i. a @ tab # i) is) = m' @ [(a, is)]"
    using fold_same_app [OF lt a(1), of js "[i]"] a(2) "is" by simp
  with Cons.IH [of "m' @ [e]"] Cons.prems show ?case by (simp add: e)
qed simp

lemma read_state_text: "owned_ok m \<Longrightarrow> read_state (Some (Readable (state_text m))) = m"
proof -
  assume ok: "owned_ok m"
  let ?ls = "concat (map (\<lambda>(a, is). map (\<lambda>i. a @ tab # i) is) m)"
  have "line_ok (a @ tab # i)" if "nl \<notin> set a" "id_ok i" for a i
    using that by (auto simp: id_ok_def line_ok_def)
  moreover have "nl \<notin> set a \<and> list_all id_ok is" if "(a, is) \<in> set m" for a "is"
    using ok that by (auto simp: owned_ok_def list_all_iff)
  ultimately have "\<forall>l \<in> set ?ls. line_ok l" by (force simp: list_all_iff)
  then have "str_lines (state_text m) = ?ls" by (simp add: state_text_lines str_lines_unlines)
  then show ?thesis
    using fold_state [of "[]" m] ok by (simp add: read_state_def read_line_into_def [abs_def])
qed

section \<open>What a pass does\<close>

definition file_of :: "string \<Rightarrow> file_text option" where
  "file_of out = (if out = [] then None else Some (Readable out))"

definition live_text :: "scope_files \<Rightarrow> string \<Rightarrow> string" where
  "live_text s a = or_empty (read_to_string (sf_store s a))"

lemma write_app_ok:
  assumes "write_app D a (live_text s a) out s = (Inr u, s')"
  shows "s' = s\<lparr>sf_store := (sf_store s)(a := file_of out)\<rparr>"
proof (cases "out \<noteq> [] \<and> out = live_text s a")
  case True
  then have "sf_store s a = file_of out"
    by (cases "sf_store s a" rule: read_to_string.cases) (auto simp: live_text_def or_empty_def file_of_def)
  then have "(sf_store s)(a := file_of out) = sf_store s" by (metis fun_upd_triv)
  with True assms show ?thesis by (auto simp: write_app_def)
next
  case False
  show ?thesis
  proof (cases "out = [] \<and> sf_store s a = None")
    case True
    then have "(sf_store s)(a := file_of out) = sf_store s" by (auto simp: file_of_def)
    with True assms show ?thesis by (simp add: write_app_def)
  next
    case False
    with assms \<open>\<not> (out \<noteq> [] \<and> out = live_text s a)\<close> show ?thesis
      by (auto simp: write_app_def file_of_def split: if_splits option.splits)
  qed
qed

lemma write_app_scope:
  "write_app D a live out s = (r, s') \<Longrightarrow>
   sf_declared s' = sf_declared s \<and> sf_state s' = sf_state s \<and> (b \<noteq> a \<longrightarrow> sf_store s' b = sf_store s b)"
  by (auto simp: write_app_def split: if_splits option.splits)

lemma pass_apps_scope:
  "pass_apps D prev as s = (r, s') \<Longrightarrow>
   sf_declared s' = sf_declared s \<and> sf_state s' = sf_state s \<and> (b \<notin> set as \<longrightarrow> sf_store s' b = sf_store s b)"
proof (induction as arbitrary: s r s')
  case (Cons a as)
  obtain out ch now where c: "converge_app prev a s = (out, ch, now)" by (metis prod_cases3)
  obtain w s1 where w: "write_app D a (or_empty (read_to_string (sf_store s a))) out s = (w, s1)" by fastforce
  obtain p s2 where p: "pass_apps D prev as s1 = (p, s2)" by fastforce
  from Cons.prems c w p have "s' = s1 \<or> s' = s2" by (auto split: sum.splits prod.splits)
  with write_app_scope [OF w, of b] Cons.IH [OF p] show ?case by auto
qed simp

lemma pass_apps_ok:
  assumes "pass_apps D prev as s = (Inr (m, rep), s')" "distinct as"
  shows "s' = s\<lparr>sf_store := \<lambda>b. if b \<in> set as then file_of (fst (converge_app prev b s)) else sf_store s b\<rparr> \<and>
    m = map (\<lambda>a. (a, wanted_ids (wanted_keys s a))) (filter (\<lambda>a. wanted_keys s a \<noteq> []) as) \<and>
    rep = map (\<lambda>a. (a, fst (snd (converge_app prev a s))))
      (filter (\<lambda>a. fst (snd (converge_app prev a s)) \<noteq> nothing_changed) as)"
  using assms
proof (induction as arbitrary: s m rep)
  case (Cons a as)
  obtain out ch now where c: "converge_app prev a s = (out, ch, now)" by (metis prod_cases3)
  have now: "now = wanted_ids (wanted_keys s a)" using arg_cong [OF c, of "snd \<circ> snd"] by (simp add: converge_app_def)
  obtain s1 where w: "write_app D a (live_text s a) out s = (Inr (), s1)"
    using Cons.prems(1) c by (auto simp: live_text_def split: sum.splits prod.splits if_splits)
  obtain m1 rep1 where p: "pass_apps D prev as s1 = (Inr (m1, rep1), s')"
    and m: "m = (if now \<noteq> [] then [(a, now)] else []) @ m1"
    and rep: "rep = (if ch \<noteq> nothing_changed then [(a, ch)] else []) @ rep1"
    using Cons.prems(1) c w by (auto simp: live_text_def split: sum.splits prod.splits)
  have s1: "s1 = s\<lparr>sf_store := (sf_store s)(a := file_of out)\<rparr>" using write_app_ok [OF w] .
  have same: "wanted_keys s1 b = wanted_keys s b" "b \<noteq> a \<Longrightarrow> converge_app prev b s1 = converge_app prev b s" for b
    by (simp_all add: s1 wanted_keys_def converge_app_def)
  have a: "a \<notin> set as" using Cons.prems(2) by simp
  then have ne: "b \<in> set as \<Longrightarrow> b \<noteq> a" for b by auto
  have ids: "now \<noteq> [] \<longleftrightarrow> wanted_keys s a \<noteq> []" by (simp add: now wanted_ids_def)
  from Cons.IH [OF p] Cons.prems(2) have
    ih: "s' = s1\<lparr>sf_store := \<lambda>b. if b \<in> set as then file_of (fst (converge_app prev b s1)) else sf_store s1 b\<rparr>"
      "m1 = map (\<lambda>a. (a, wanted_ids (wanted_keys s1 a))) (filter (\<lambda>a. wanted_keys s1 a \<noteq> []) as)"
      "rep1 = map (\<lambda>a. (a, fst (snd (converge_app prev a s1))))
        (filter (\<lambda>a. fst (snd (converge_app prev a s1)) \<noteq> nothing_changed) as)"
    by auto
  have "rep1 = map (\<lambda>a. (a, fst (snd (converge_app prev a s))))
      (filter (\<lambda>a. fst (snd (converge_app prev a s)) \<noteq> nothing_changed) as)"
    unfolding ih(3) using same(2) ne by (intro map_cong filter_cong) auto
  moreover have "s' = s\<lparr>sf_store := \<lambda>b. if b \<in> set (a # as) then file_of (fst (converge_app prev b s)) else sf_store s b\<rparr>"
  proof -
    have "(\<lambda>b. if b \<in> set as then file_of (fst (converge_app prev b s1)) else sf_store s1 b) =
        (\<lambda>b. if b \<in> set (a # as) then file_of (fst (converge_app prev b s)) else sf_store s b)"
    proof
      fix b
      show "(if b \<in> set as then file_of (fst (converge_app prev b s1)) else sf_store s1 b) =
          (if b \<in> set (a # as) then file_of (fst (converge_app prev b s)) else sf_store s b)"
        using same(2) [of b] a by (cases "b = a") (simp_all add: c, simp_all add: s1)
    qed
    then show ?thesis unfolding ih(1) by (simp add: s1)
  qed
  ultimately show ?case
    using ids by (auto simp: m rep ih(2) same(1) now c)
qed simp

lemma pass_apps_works: "\<exists>m rep s'. pass_apps (\<lambda>_. None) prev as s = (Inr (m, rep), s')"
proof (induction as arbitrary: s)
  case (Cons a as)
  obtain out ch now where c: "converge_app prev a s = (out, ch, now)" by (metis prod_cases3)
  have "\<exists>s1. write_app (\<lambda>_. None) a live out s = (Inr (), s1)" for live
    by (simp add: write_app_def)
  then obtain s1 where w: "write_app (\<lambda>_. None) a (or_empty (read_to_string (sf_store s a))) out s = (Inr (), s1)" by blast
  from Cons.IH [of s1] obtain m rep s' where "pass_apps (\<lambda>_. None) prev as s1 = (Inr (m, rep), s')" by blast
  with c w show ?case by simp
qed simp

text \<open>What a finished pass owns, and the store it leaves.\<close>

definition declared_names :: "scope_files \<Rightarrow> string list" where
  "declared_names s = map fst (or_empty (sf_declared s))"

definition owned_of :: "scope_files \<Rightarrow> owned" where
  "owned_of s = map (\<lambda>a. (a, wanted_ids (wanted_keys s a)))
     (filter (\<lambda>a. wanted_keys s a \<noteq> []) (sort (remdups (declared_names s))))"

definition stored :: "scope_files \<Rightarrow> string \<Rightarrow> file_text option" where
  "stored s b = (let prev = read_state (sf_state s)
     in if b \<in> set (apps_to_visit prev s) then file_of (fst (converge_app prev b s)) else sf_store s b)"

text \<open>A baked directory the program wrote: names and keys that survive a line of text.\<close>

definition baked_ok :: "scope_files \<Rightarrow> bool" where
  "baked_ok s \<longleftrightarrow> list_all (\<lambda>(a, f). tab \<notin> set a \<and> nl \<notin> set a \<and>
     keys_ok (case f of Readable t \<Rightarrow> parse_declared t | Unreadable \<Rightarrow> [])) (or_empty (sf_declared s))"

lemma wanted_declared: "wanted_keys s a \<noteq> [] \<Longrightarrow> a \<in> set (declared_names s)"
  by (cases "map_of (or_empty (sf_declared s)) a")
    (auto simp: wanted_keys_def declared_names_def map_of_eq_None_iff dest: map_of_SomeD intro: rev_image_eqI)

lemma wanted_ok: "baked_ok s \<Longrightarrow> keys_ok (wanted_keys s a)"
proof (cases "map_of (or_empty (sf_declared s)) a")
  case (Some f)
  assume "baked_ok s"
  with map_of_SomeD [OF Some] have "keys_ok (case f of Readable t \<Rightarrow> parse_declared t | Unreadable \<Rightarrow> [])"
    by (auto simp: baked_ok_def list_all_iff)
  with Some show ?thesis by (cases f) (simp_all add: wanted_keys_def)
qed (simp add: wanted_keys_def keys_ok_def keys_of_def)

lemma declared_name_ok: "baked_ok s \<Longrightarrow> a \<in> set (declared_names s) \<Longrightarrow> tab \<notin> set a \<and> nl \<notin> set a"
  by (auto simp: baked_ok_def declared_names_def list_all_iff)

lemma key_ok_id: "key_ok (g, k, v) \<Longrightarrow> id_ok (owned_id g k)"
  using trimmed_no_cr [of k] by (auto simp: key_ok_def id_ok_def owned_id_def line_ok_def)

lemma wanted_ids_ok: "keys_ok ws \<Longrightarrow> list_all id_ok (wanted_ids ws)"
  by (auto simp: keys_ok_def wanted_ids_def list_all_iff dest: key_ok_id)

lemma owned_of_ok: "baked_ok s \<Longrightarrow> owned_ok (owned_of s)"
proof -
  assume ok: "baked_ok s"
  have "map fst (owned_of s) = filter (\<lambda>a. wanted_keys s a \<noteq> []) (sort (remdups (declared_names s)))"
    by (simp add: owned_of_def comp_def)
  then have "sorted (map fst (owned_of s)) \<and> distinct (map fst (owned_of s))"
    by (simp add: sorted_wrt_filter)
  moreover have "\<forall>(a, is) \<in> set (owned_of s). tab \<notin> set a \<and> nl \<notin> set a \<and> is \<noteq> [] \<and> list_all id_ok is"
    using declared_name_ok [OF ok] wanted_ids_ok wanted_ok [OF ok]
    by (auto simp: owned_of_def wanted_ids_def)
  ultimately show ?thesis by (simp add: owned_ok_def list_all_iff)
qed

lemma owned_of_visited:
  "map (\<lambda>a. (a, wanted_ids (wanted_keys s a))) (filter (\<lambda>a. wanted_keys s a \<noteq> []) (apps_to_visit prev s)) = owned_of s"
proof -
  have "filter (\<lambda>a. wanted_keys s a \<noteq> []) (apps_to_visit prev s) =
      filter (\<lambda>a. wanted_keys s a \<noteq> []) (sort (remdups (declared_names s)))"
    using wanted_declared [of s]
    by (intro sorted_distinct_set_unique)
      (auto simp: apps_to_visit_def sorted_wrt_filter declared_names_def)
  then show ?thesis by (simp add: owned_of_def)
qed

lemma converge_store_ok:
  assumes "converge_store D s = (Inr rep, s')" "baked_ok s"
  shows "sf_declared s' = sf_declared s \<and> sf_store s' = stored s \<and> read_state (sf_state s') = owned_of s"
proof -
  let ?prev = "read_state (sf_state s)"
  obtain m rep1 s1 where p: "pass_apps D ?prev (apps_to_visit ?prev s) s = (Inr (m, rep1), s1)"
    using assms(1) by (auto simp: converge_store_def Let_def split: sum.splits prod.splits)
  have "distinct (apps_to_visit ?prev s)" by (simp add: apps_to_visit_def)
  from pass_apps_ok [OF p this] have
    s1: "s1 = s\<lparr>sf_store := stored s\<rparr>" and m: "m = owned_of s"
    by (simp_all add: stored_def [abs_def] Let_def owned_of_visited)
  show ?thesis
  proof (cases "m = ?prev")
    case True
    with assms(1) p have "s' = s1" by (simp add: converge_store_def)
    with s1 have "s' = s\<lparr>sf_store := stored s\<rparr>" by simp
    then show ?thesis using True m by simp
  next
    case False
    with assms(1) p have "write_state D m s1 = (Inr (), s')"
      by (auto simp: converge_store_def Let_def split: sum.splits prod.splits)
    then have "s' = s1\<lparr>sf_state := Some (Readable (state_text m))\<rparr>"
      by (auto simp: write_state_def split: if_splits option.splits)
    with s1 m read_state_text [OF owned_of_ok [OF assms(2)]] show ?thesis by simp
  qed
qed

text \<open>The second pass, app by app.\<close>

lemma live_clean: "(\<And>t. sf_store s a = Some (Readable t) \<Longrightarrow> clean t) \<Longrightarrow> clean (or_empty (read_to_string (sf_store s a)))"
proof -
  assume c: "\<And>t. sf_store s a = Some (Readable t) \<Longrightarrow> clean t"
  have "clean []" by (simp add: clean_def str_lines_def)
  with c show ?thesis by (cases "sf_store s a" rule: read_to_string.cases) (auto simp: or_empty_def)
qed

lemma file_of_text: "or_empty (read_to_string (file_of out)) = out"
  by (simp add: file_of_def or_empty_def)

lemma owned_of_lookup: "or_empty (map_of (owned_of s) a) = wanted_ids (wanted_keys s a)"
proof (cases "wanted_keys s a = []")
  case True
  then have "map_of (owned_of s) a = None" by (auto simp: map_of_eq_None_iff owned_of_def)
  with True show ?thesis by (simp add: or_empty_def wanted_ids_def)
next
  case False
  have "distinct (map fst (owned_of s))" by (simp add: owned_of_def comp_def)
  moreover have "(a, wanted_ids (wanted_keys s a)) \<in> set (owned_of s)"
    using False wanted_declared [OF False] by (auto simp: owned_of_def)
  ultimately have "map_of (owned_of s) a = Some (wanted_ids (wanted_keys s a))" by (rule map_of_is_SomeI)
  then show ?thesis by (simp add: or_empty_def)
qed

lemma again_app:
  assumes "baked_ok s" "\<And>t. sf_store s a = Some (Readable t) \<Longrightarrow> clean t"
    and "sf_declared s' = sf_declared s" "sf_store s' a = file_of (fst (converge_app prev a s))"
  shows "converge_app (owned_of s) a s' =
    (fst (converge_app prev a s), nothing_changed, wanted_ids (wanted_keys s a))"
proof -
  have "wanted_keys s' a = wanted_keys s a" using assms(3) by (simp add: wanted_keys_def)
  then show ?thesis
    using converge_again [OF live_clean [of s a, OF assms(2)] wanted_ok [OF assms(1), of a], of "or_empty (map_of prev a)"]
    by (simp add: converge_app_def assms(4) file_of_text owned_of_lookup)
qed

lemma pass_apps_nothing:
  assumes "\<forall>a \<in> set as. fst (snd (converge_app prev a s)) = nothing_changed \<and>
    sf_store s a = file_of (fst (converge_app prev a s))"
  shows "\<exists>m. pass_apps D prev as s = (Inr (m, []), s)"
  using assms
proof (induction as)
  case (Cons a as)
  obtain out ch now where c: "converge_app prev a s = (out, ch, now)" by (metis prod_cases3)
  with Cons.prems have "ch = nothing_changed" "sf_store s a = file_of out" by auto
  moreover from this have "write_app D a (or_empty (read_to_string (sf_store s a))) out s = (Inr (), s)"
    by (simp add: write_app_def file_of_text) (simp add: file_of_def)
  moreover obtain m where "pass_apps D prev as s = (Inr (m, []), s)" using Cons by auto
  ultimately show ?case using c by simp
qed simp


section \<open>What a pass leaves alone, and what it loses\<close>

lemma converge_store_scope:
  assumes "a \<notin> set (apps_to_visit (read_state (sf_state s)) s)"
  shows "sf_store (snd (converge_store D s)) a = sf_store s a"
proof -
  let ?prev = "read_state (sf_state s)"
  obtain p s1 where p: "pass_apps D ?prev (apps_to_visit ?prev s) s = (p, s1)" by fastforce
  have "sf_store (snd (converge_store D s)) = sf_store s1"
    by (auto simp: converge_store_def Let_def p write_state_def split: sum.splits prod.splits option.splits)
  with pass_apps_scope [OF p, of a] assms show ?thesis by simp
qed

text \<open>
  The file of an app that is neither declared nor has a key an earlier pass set is not touched,
  on any disk and whether or not the pass finishes.
\<close>

theorem other_apps_are_untouched:
  assumes "a \<notin> set (declared_names s)" "a \<notin> set (map fst (read_state (sf_state s)))"
  shows "sf_store (snd (converge_store D s)) a = sf_store s a"
  using assms by (intro converge_store_scope) (simp add: apps_to_visit_def declared_names_def)

lemma pass_works: "\<exists>rep s'. converge_store (\<lambda>_. None) s = (Inr rep, s')"
proof -
  let ?prev = "read_state (sf_state s)"
  obtain m rep s1 where "pass_apps (\<lambda>_. None) ?prev (apps_to_visit ?prev s) s = (Inr (m, rep), s1)"
    using pass_apps_works by blast
  then show ?thesis by (simp add: converge_store_def write_state_def)
qed

lemma failed_keeps_state:
  "converge_store D s = (Inl e, s') \<Longrightarrow> e \<noteq> WriteState \<Longrightarrow> sf_state s' = sf_state s"
proof -
  let ?prev = "read_state (sf_state s)"
  assume c: "converge_store D s = (Inl e, s')" "e \<noteq> WriteState"
  obtain p s1 where p: "pass_apps D ?prev (apps_to_visit ?prev s) s = (p, s1)" by fastforce
  from pass_apps_scope [OF p] have "sf_state s1 = sf_state s" by blast
  with c p show ?thesis
    by (auto simp: converge_store_def Let_def write_state_def split: sum.splits prod.splits if_splits option.splits)
qed

lemma nothing_to_visit:
  assumes "read_state (sf_state s) = []" "sf_declared s = Some []"
  shows "converge_store D s = (Inr [], s)"
  using assms by (simp add: converge_store_def apps_to_visit_def or_empty_def)

text \<open>
  A pass that fails on one file records nothing about the ones it wrote before: when the
  machine's first pass fails and the declaration then drops its overrides, no later pass takes
  back the keys the failed one set.
\<close>

theorem failed_pass_forgets_what_it_set:
  assumes "converge_store D s = (Inl e, s1)" "e \<noteq> WriteState" "sf_state s = None"
  shows "converge_store D' (s1\<lparr>sf_declared := Some []\<rparr>) = (Inr [], s1\<lparr>sf_declared := Some []\<rparr>)"
  using failed_keeps_state [OF assms(1,2)] assms(3)
  by (intro nothing_to_visit) (simp_all add: read_state_def)

text \<open>Two apps declared alike; the disk refuses the second file.\<close>

definition two_apps :: scope_files where
  "two_apps = \<lparr>sf_declared = Some [(''a'', Readable (render_app demo_app)), (''b'', Readable (render_app demo_app))],
     sf_store = (\<lambda>_. None), sf_state = None\<rparr>"

definition full_disk :: disk where
  "full_disk i = (if i = WriteFile ''b'' then Some None else None)"

lemma demo_wanted: "parse_declared (render_app demo_app) = declared_keys demo_app"
  "keys_ok (declared_keys demo_app)" "declared_keys demo_app \<noteq> []"
proof -
  show "parse_declared (render_app demo_app) = declared_keys demo_app"
    using demo_app_ok declared_key_ok rendered_reads by blast
  show "keys_ok (declared_keys demo_app)" using demo_app_ok by (rule baked_keys_ok)
  show "declared_keys demo_app \<noteq> []" by (simp add: declared_keys_def demo_app_def context_lists_def)
qed

lemma clean_Nil: "clean []"
  by (simp add: clean_def str_lines_def)

lemma two_apps_sel [simp]: "sf_store two_apps = (\<lambda>_. None)" "sf_state two_apps = None"
  by (simp_all add: two_apps_def)

lemma two_apps_visited: "apps_to_visit [] two_apps = [''a'', ''b'']"
  by (simp add: apps_to_visit_def two_apps_def or_empty_def)

lemma two_apps_fail:
  "\<exists>s1. converge_store full_disk two_apps = (Inl (WriteFile ''b''), s1) \<and>
     sf_store s1 ''a'' = Some (Readable (fst (converge [] (declared_keys demo_app) [])))"
proof -
  let ?ws = "declared_keys demo_app"
  have w: "wanted_keys two_apps a = ?ws" if "a = ''a'' \<or> a = ''b''" for a
    using that by (auto simp: wanted_keys_def two_apps_def or_empty_def demo_wanted)
  obtain out ch now where c: "converge [] ?ws [] = (out, ch, now)" by (metis prod_cases3)
  have out: "out \<noteq> []"
    using written_is_not_blank [OF demo_wanted(2,3) clean_Nil, of "[]"] converge_text [of "[]" ?ws "[]"] c by auto
  have "converge_app [] ''a'' two_apps = (out, ch, now)"
    by (simp add: converge_app_def w c or_empty_def)
  moreover have "write_app full_disk ''a'' [] out two_apps =
      (Inr (), two_apps\<lparr>sf_store := [''a'' \<mapsto> Readable out]\<rparr>)"
    using out by (simp add: write_app_def full_disk_def)
  moreover have "converge_app [] ''b'' (two_apps\<lparr>sf_store := [''a'' \<mapsto> Readable out]\<rparr>) = (out, ch, now)"
    using w [of "''b''"] c by (simp add: converge_app_def wanted_keys_def or_empty_def)
  ultimately show ?thesis
    using out c
    by (simp add: converge_store_def two_apps_visited read_state_def write_app_def full_disk_def or_empty_def)
qed

theorem failed_pass_forgets_what_it_set_witness:
  "\<exists>s1. sf_store s1 ''a'' = Some (Readable (fst (converge [] (declared_keys demo_app) []))) \<and>
     converge_store full_disk two_apps = (Inl (WriteFile ''b''), s1) \<and>
     converge_store (\<lambda>_. None) (s1\<lparr>sf_declared := Some []\<rparr>) = (Inr [], s1\<lparr>sf_declared := Some []\<rparr>)"
proof -
  from two_apps_fail obtain s1 where s1: "converge_store full_disk two_apps = (Inl (WriteFile ''b''), s1)"
    "sf_store s1 ''a'' = Some (Readable (fst (converge [] (declared_keys demo_app) [])))" by blast
  have "converge_store (\<lambda>_. None) (s1\<lparr>sf_declared := Some []\<rparr>) = (Inr [], s1\<lparr>sf_declared := Some []\<rparr>)"
    by (rule failed_pass_forgets_what_it_set [OF s1(1)]) simp_all
  with s1 show ?thesis by blast
qed

theorem other_apps_are_untouched_witness: "sf_store (snd (converge_store full_disk two_apps)) ''c'' = None"
  using other_apps_are_untouched [of "''c''" two_apps full_disk]
  by (simp add: declared_names_def two_apps_def or_empty_def read_state_def)

lemma two_apps_baked: "baked_ok two_apps"
proof -
  have "tab \<notin> set ''a''" "tab \<notin> set ''b''" "nl \<notin> set ''a''" "nl \<notin> set ''b''" by code_simp+
  then show ?thesis by (simp add: baked_ok_def two_apps_def or_empty_def demo_wanted)
qed


text \<open>
  A file of the store that cannot be read as text, not UTF-8 or refused, is taken for an empty
  one: the pass writes the declared keys over it and every other line it had is gone.
\<close>

theorem unreadable_file_is_overwritten:
  assumes "converge_store D s = (Inr rep, s')" "baked_ok s"
    and "sf_store s a = Some Unreadable" "wanted_keys s a \<noteq> []"
  shows "\<exists>t. sf_store s' a = Some (Readable t) \<and>
    others (touched_keys (wanted_keys s a) (or_empty (map_of (read_state (sf_state s)) a))) (kf_parse t) = []"
proof -
  let ?prev = "read_state (sf_state s)"
  let ?out = "fst (converge [] (wanted_keys s a) (or_empty (map_of ?prev a)))"
  have ws: "keys_ok (wanted_keys s a)" using assms(2) by (rule wanted_ok)
  have "a \<in> set (apps_to_visit ?prev s)"
    using wanted_declared [OF assms(4)] by (simp add: apps_to_visit_def declared_names_def)
  then have "sf_store s' a = file_of ?out"
    using converge_store_ok [OF assms(1,2)] by (simp add: stored_def converge_app_def assms(3) or_empty_def)
  moreover have "?out \<noteq> []"
    using written_is_not_blank [OF ws assms(4) clean_Nil, of "or_empty (map_of ?prev a)"] trim_empty
    by (auto simp: converge_text)
  ultimately show ?thesis
    using others_survive [OF clean_Nil ws, of "or_empty (map_of ?prev a)"] by (simp add: file_of_def)
qed

theorem unreadable_file_is_overwritten_witness:
  "\<exists>rep s' t. converge_store (\<lambda>_. None) (two_apps\<lparr>sf_store := [''a'' \<mapsto> Unreadable]\<rparr>) = (Inr rep, s') \<and>
     sf_store s' ''a'' = Some (Readable t) \<and> others (touched_keys (declared_keys demo_app) []) (kf_parse t) = []"
proof -
  let ?s = "two_apps\<lparr>sf_store := [''a'' \<mapsto> Unreadable]\<rparr>"
  from pass_works obtain rep s' where p: "converge_store (\<lambda>_. None) ?s = (Inr rep, s')" by blast
  have b: "baked_ok ?s" using two_apps_baked by (simp add: baked_ok_def)
  have w: "wanted_keys ?s ''a'' = declared_keys demo_app"
    by (simp add: wanted_keys_def two_apps_def or_empty_def demo_wanted)
  have "or_empty (map_of (read_state (sf_state ?s)) ''a'') = []"
    by (simp add: read_state_def or_empty_def)
  with unreadable_file_is_overwritten [OF p b, of "''a''"] w demo_wanted(3)
  obtain t where "sf_store s' ''a'' = Some (Readable t)"
    "others (touched_keys (declared_keys demo_app) []) (kf_parse t) = []" by auto
  with p show ?thesis by blast
qed

end
