(* ===== verification/OverrideDrift.thy ===== *)
theory OverrideDrift
  imports OverrideStore "HOL-Library.Product_Lexorder"
begin

text \<open>
  The observers of \<open>src/overrides.rs\<close>: what \<open>diff\<close> reports against the two stores, whether a baked
  image is behind the declaration, and what \<open>capture\<close> proposes.
\<close>

section \<open>Drift\<close>

datatype drift_change = ChangeAdd | ChangeRemove

record drift =
  dr_app :: string
  dr_group :: string
  dr_key :: string
  dr_change :: drift_change

definition key_label :: "string \<Rightarrow> string \<Rightarrow> string" where
  "key_label g k = (if g = context_group then k else g @ ''/'' @ k)"

definition drift_item :: "drift \<Rightarrow> string" where
  "drift_item d = dr_app d @ '' '' @ key_label (dr_group d) (dr_key d)"

type_synonym overrides = "(string \<times> app_override) list"

definition insert_key :: "((string \<times> string) \<times> string) list \<Rightarrow> key \<Rightarrow> ((string \<times> string) \<times> string) list" where
  "insert_key m = (\<lambda>(g, k, v). bt_insert (g, k) v m)"

definition live_keys :: "file_text option \<Rightarrow> ((string \<times> string) \<times> string) list" where
  "live_keys f = foldl insert_key [] (parse_declared (or_empty (read_to_string f)))"

definition in_scope :: "scope \<Rightarrow> overrides \<Rightarrow> overrides" where
  "in_scope sc declared = filter (\<lambda>(a, ov). ao_scope ov = sc) declared"

definition drift_adds :: "scope_files \<Rightarrow> string \<times> app_override \<Rightarrow> drift list" where
  "drift_adds s = (\<lambda>(a, ov).
     let live = live_keys (sf_store s a)
     in concat (map (\<lambda>(g, k, v). if map_of live (g, k) \<noteq> Some v
          then [\<lparr>dr_app = a, dr_group = g, dr_key = k, dr_change = ChangeAdd\<rparr>] else [])
          (declared_keys ov)))"

definition drift_removes :: "overrides \<Rightarrow> scope_files \<Rightarrow> string \<times> string list \<Rightarrow> drift list" where
  "drift_removes decl s = (\<lambda>(a, is).
     let live = live_keys (sf_store s a);
         kept = or_empty (map_option (\<lambda>ov. wanted_ids (declared_keys ov)) (map_of decl a))
     in concat (map (\<lambda>i. if i \<in> set kept then []
          else (case split_once [tab] i of None \<Rightarrow> []
                | Some (g, k) \<Rightarrow> if map_of live (g, k) \<noteq> None
                    then [\<lparr>dr_app = a, dr_group = g, dr_key = k, dr_change = ChangeRemove\<rparr>] else [])) is))"

definition drift_scope :: "overrides \<Rightarrow> scope \<Rightarrow> scope_files \<Rightarrow> drift list" where
  "drift_scope declared sc s =
     concat (map (drift_adds s) (in_scope sc declared)) @
     concat (map (drift_removes (in_scope sc declared) s) (read_state (sf_state s)))"

definition drift_of :: "overrides \<Rightarrow> (scope \<Rightarrow> scope_files) \<Rightarrow> drift list" where
  "drift_of declared files = concat (map (\<lambda>sc. drift_scope declared sc (files sc)) [System, User])"

section \<open>Staleness\<close>

text \<open>Whether \<open>usr/lib/kuma\<close> is there, and a scope's baked directory, absent or listed.\<close>

definition stale_scope :: "bool \<Rightarrow> overrides \<Rightarrow> scope \<Rightarrow> scope_files \<Rightarrow> bool" where
  "stale_scope kuma_image declared sc s =
     (let decl = in_scope sc declared
      in case sf_declared s of
           None \<Rightarrow> kuma_image \<and> decl \<noteq> []
         | Some listing \<Rightarrow>
             list_ex (\<lambda>(a, ov). or_empty (read_to_string (map_of listing a)) \<noteq> render_app ov) decl \<or>
             list_ex (\<lambda>a. a \<notin> set (map fst decl)) (map fst listing))"

definition image_stale :: "bool \<Rightarrow> overrides \<Rightarrow> (scope \<Rightarrow> scope_files) \<Rightarrow> bool" where
  "image_stale kuma_image declared files =
     list_ex (\<lambda>sc. stale_scope kuma_image declared sc (files sc)) [System, User]"

section \<open>Capture\<close>

record proposal =
  pp_app :: string
  pp_scope :: scope
  pp_keys :: "key list"

definition spelled_with :: "string \<Rightarrow> string \<Rightarrow> bool" where
  "spelled_with extra k \<longleftrightarrow> list_ex ascii_alnum k \<and> list_all (\<lambda>c. ascii_alnum c \<or> c \<in> set extra) k"

definition default_app :: app_override where
  "default_app = \<lparr>ao_scope = System, ao_filesystems = [], ao_sockets = [], ao_devices = [], ao_shared = [],
     ao_features = [], ao_persistent = [], ao_environment = [], ao_session_bus = [], ao_system_bus = []\<rparr>"

definition representable :: "string \<Rightarrow> string \<Rightarrow> bool" where
  "representable g k =
     (if g = context_group then list_ex (\<lambda>(n, vs). n = k) (context_lists default_app)
      else if g = environment_group then spelled_with ''_'' k
      else if g = session_group \<or> g = system_group then spelled_with ''.-_*'' k
      else False)"

definition capture_keys :: "overrides \<Rightarrow> string \<Rightarrow> scope_files \<Rightarrow> key list" where
  "capture_keys declared a s =
     (let mine = or_empty (map_of (read_state (sf_state s)) a);
          already = or_empty (map_option (\<lambda>ov. wanted_ids (declared_keys ov)) (map_of declared a))
      in sort (map (\<lambda>((g, k), v). (g, k, v))
           (filter (\<lambda>((g, k), v). representable g k \<and> owned_id g k \<notin> set mine \<and> owned_id g k \<notin> set already)
             (live_keys (sf_store s a)))))"

definition capture_scope :: "overrides \<Rightarrow> string \<Rightarrow> scope \<Rightarrow> scope_files \<Rightarrow> proposal list" where
  "capture_scope declared a sc s =
     (case map_of declared a of
        Some ov \<Rightarrow> if ao_scope ov \<noteq> sc then [] else
          (let ks = capture_keys declared a s in if ks = [] then [] else [\<lparr>pp_app = a, pp_scope = sc, pp_keys = ks\<rparr>])
      | None \<Rightarrow>
          (let ks = capture_keys declared a s in if ks = [] then [] else [\<lparr>pp_app = a, pp_scope = sc, pp_keys = ks\<rparr>]))"

fun capturable :: "string list \<Rightarrow> overrides \<Rightarrow> (scope \<Rightarrow> scope_files) \<Rightarrow> proposal list \<times> string list" where
  "capturable [] declared files = ([], [])"
| "capturable (a # as) declared files =
     (let (ps, ambiguous) = capturable as declared files
      in case concat (map (\<lambda>sc. capture_scope declared a sc (files sc)) [System, User]) of
           [] \<Rightarrow> (ps, ambiguous)
         | [p] \<Rightarrow> (p # ps, ambiguous)
         | _ \<Rightarrow> (ps, a # ambiguous))"

definition as_declaration :: "key \<Rightarrow> string \<times> string \<times> string list" where
  "as_declaration = (\<lambda>(g, k, v).
     if g = context_group then (g, k, filter (\<lambda>p. p \<noteq> []) (split_char (CHR '';'') v)) else (g, k, [v]))"

section \<open>Where every key is said once\<close>

fun line_key :: "kf_line \<Rightarrow> string list" where
  "line_key (KPair k v) = [k]"
| "line_key (KRaw r) = []"

definition once :: "keyfile \<Rightarrow> bool" where
  "once f \<longleftrightarrow> distinct (map g_name f) \<and> list_all (\<lambda>gr. distinct (concat (map line_key (g_lines gr)))) f"

lemma line_keys_set:
  "k \<in> set (concat (map line_key ls)) \<longleftrightarrow> list_ex (has_key k) ls"
proof (induction ls)
  case (Cons l ls)
  then show ?case by (cases l) auto
qed simp

lemma line_keys_update: "map line_key (update_first (has_key k) (\<lambda>_. KPair k v) ls) = map line_key ls"
proof (induction ls)
  case (Cons l ls)
  then show ?case by (cases l) auto
qed simp

lemma once_set_line:
  "distinct (concat (map line_key ls)) \<Longrightarrow> distinct (concat (map line_key (set_line k v ls)))"
  using line_keys_set [of k ls] by (auto simp: set_line_def line_keys_update)

lemma distinct_concat_filter: "distinct (concat (map f xs)) \<Longrightarrow> distinct (concat (map f (filter P xs)))"
  by (induction xs) auto

lemma once_update:
  assumes "once f" "\<And>gr. g_name (h gr) = g_name gr"
    and "\<And>gr. distinct (concat (map line_key (g_lines gr))) \<Longrightarrow> distinct (concat (map line_key (g_lines (h gr))))"
  shows "once (update_first (\<lambda>gr. g_name gr = g) h f)"
  using assms by (auto simp: once_def list_all_iff map_update_first dest!: update_first_in)

lemma once_set: "once f \<Longrightarrow> once (kf_set f g k v)"
proof (cases "list_ex (\<lambda>gr. g_name gr = g) f")
  case True
  moreover assume "once f"
  ultimately show ?thesis by (simp add: kf_set_def once_update once_set_line)
next
  case False
  moreover assume "once f"
  ultimately show ?thesis by (auto simp: kf_set_def once_def list_ex_iff)
qed

lemma once_remove: "once f \<Longrightarrow> once (kf_remove f g k)"
  by (simp add: kf_remove_def once_update distinct_concat_filter)

lemma once_conv_set: "once f \<Longrightarrow> once (fst (conv_set f ws))"
  by (induction f ws rule: conv_set.induct) (auto simp: Let_def case_prod_unfold once_set)

lemma once_conv_remove: "once f \<Longrightarrow> once (fst (conv_remove now f is))"
  by (induction "is" arbitrary: f) (auto simp: Let_def case_prod_unfold once_remove split: option.split)

lemma once_kept: "once f \<Longrightarrow> f \<noteq> [] \<Longrightarrow> once (kept f)"
  by (cases f) (auto simp: once_def kept_def distinct_map_filter list_all_iff)

lemma pairs_of_group:
  "keys_of (group_pairs gr) = (if g_name gr = [] then [] else map (Pair (g_name gr)) (concat (map line_key (g_lines gr))))"
proof -
  have "keys_of (concat (map (\<lambda>l. case l of KPair k v \<Rightarrow> [(g, k, v)] | KRaw r \<Rightarrow> []) ls)) =
      map (Pair g) (concat (map line_key ls))" for g ls
  proof (induction ls)
    case (Cons l ls)
    then show ?case by (cases l) (simp_all add: keys_of_def)
  qed (simp add: keys_of_def)
  then show ?thesis by (simp add: group_pairs_def keys_of_def)
qed

lemma keys_of_append: "keys_of (xs @ ys) = keys_of xs @ keys_of ys"
  by (simp add: keys_of_def)

lemma once_distinct: "once f \<Longrightarrow> distinct (keys_of (file_pairs f))"
proof (induction f)
  case (Cons gr f)
  have "g \<in> g_name ` set f" if "(g, k) \<in> set (keys_of (file_pairs f))" for g k
    using that keys_of_append pairs_of_group
    by (induction f) (auto simp: file_pairs_def keys_of_append pairs_of_group keys_of_def [of "[]"] split: if_splits)
  with Cons show ?case
    by (auto simp: once_def file_pairs_def keys_of_append pairs_of_group distinct_map inj_on_def split: if_splits)
qed (simp add: file_pairs_def keys_of_def)

section \<open>Looking up a live key\<close>

lemma map_of_bt_insert: "map_of (bt_insert k v m) = (map_of m)(k \<mapsto> v)"
  by (induction m) auto

lemma live_other: "(g, k) \<notin> set (keys_of ps) \<Longrightarrow> map_of (foldl insert_key m ps) (g, k) = map_of m (g, k)"
  by (induction ps arbitrary: m) (auto simp: keys_of_def insert_key_def map_of_bt_insert)

lemma live_once:
  "distinct (keys_of ps) \<Longrightarrow> (g, k, v) \<in> set ps \<Longrightarrow> map_of (foldl insert_key m ps) (g, k) = Some v"
proof (induction ps arbitrary: m)
  case (Cons p ps)
  show ?case
  proof (cases "p = (g, k, v)")
    case True
    with Cons.prems have "(g, k) \<notin> set (keys_of ps)" by (simp add: keys_of_def)
    with True show ?thesis by (simp add: live_other) (simp add: insert_key_def map_of_bt_insert)
  next
    case False
    with Cons show ?thesis by (auto simp: keys_of_def)
  qed
qed simp

lemma live_keys_get:
  assumes "once (kf_parse t)" "kf_get (kf_parse t) g k = Some v" "g \<noteq> []"
  shows "map_of (live_keys (Some (Readable t))) (g, k) = Some v"
proof -
  from kf_get_pair [OF assms(2)] obtain gr where
    gr: "gr \<in> set (kf_parse t)" "g_name gr = g" "KPair k v \<in> set (g_lines gr)" by (auto dest: find_Some_split)
  then have "(g, k, v) \<in> set (group_pairs gr)" using assms(3) by (force simp: group_pairs_def)
  with gr(1) have "(g, k, v) \<in> set (file_pairs (kf_parse t))" by (auto simp: file_pairs_def)
  with once_distinct [OF assms(1)] show ?thesis
    by (simp add: live_keys_def or_empty_def parse_declared_pairs live_once)
qed

section \<open>A finished pass leaves no drift\<close>

text \<open>A declaration as validation leaves it, and a machine whose image was built from it.\<close>

definition declared_ok :: "overrides \<Rightarrow> bool" where
  "declared_ok declared \<longleftrightarrow> distinct (map fst declared) \<and>
     list_all (\<lambda>(a, ov). validate_override a ov = Inr () \<and> env_trimmed ov \<and> maps_ok ov) declared"

lemma declared_app_ok:
  assumes "declared_ok declared" "(a, ov) \<in> set (in_scope sc declared)"
  shows "parse_declared (render_app ov) = declared_keys ov \<and> keys_ok (declared_keys ov) \<and>
    map_of (in_scope sc declared) a = Some ov"
proof -
  have v: "validate_override a ov = Inr ()" "env_trimmed ov" "maps_ok ov"
    using assms by (auto simp: declared_ok_def in_scope_def list_all_iff)
  have "distinct (map fst (in_scope sc declared))"
    using assms(1) by (simp add: declared_ok_def in_scope_def distinct_map_filter)
  then have "map_of (in_scope sc declared) a = Some ov" using assms(2) by (rule map_of_is_SomeI)
  with rendered_reads [OF declared_key_ok [OF v(1,2)]] baked_keys_ok [OF v] show ?thesis by simp
qed

lemma parse_declared_Nil: "parse_declared [] = []"
  by (simp add: parse_declared_pairs kf_parse_Nil file_pairs_def group_pairs_def)

lemma fresh_wanted:
  assumes "\<not> stale_scope kuma declared sc s" "declared_ok declared" "sf_declared s = Some listing"
    and "(a, ov) \<in> set (in_scope sc declared)"
  shows "wanted_keys s a = declared_keys ov"
proof -
  have r: "or_empty (read_to_string (map_of listing a)) = render_app ov"
    using assms(1,3,4) by (fastforce simp: stale_scope_def Let_def list_ex_iff)
  show ?thesis
  proof (cases "read_to_string (map_of listing a)")
    case None
    with r have "render_app ov = []" by (simp add: or_empty_def)
    with declared_app_ok [OF assms(2,4)] have "declared_keys ov = []"
      using parse_declared_Nil by simp
    with None show ?thesis by (simp add: wanted_keys_def assms(3) or_empty_def)
  next
    case (Some t)
    with r declared_app_ok [OF assms(2,4)] show ?thesis
      by (simp add: wanted_keys_def assms(3) or_empty_def)
  qed
qed

lemma once_converged: "once (kf_parse live) \<Longrightarrow> once (converged live ws prev)"
  by (simp add: converged_def once_conv_remove once_conv_set)

lemma stored_live:
  assumes "baked_ok s" "converge_store D s = (Inr rep, s')" "wanted_keys s a = ws" "(g, k, v) \<in> set ws"
    and "\<And>t. sf_store s a = Some (Readable t) \<Longrightarrow> clean t \<and> once (kf_parse t)"
  shows "map_of (live_keys (sf_store s' a)) (g, k) = Some v"
proof -
  let ?prev = "or_empty (map_of (read_state (sf_state s)) a)"
  let ?live = "or_empty (read_to_string (sf_store s a))"
  have ws: "keys_ok ws" "ws \<noteq> []" "g \<noteq> []"
    using wanted_ok [OF assms(1), of a] assms(3,4) by (auto simp: keys_ok_def list_all_iff key_ok_def)
  have live: "clean ?live" by (rule live_clean) (use assms(5) in blast)
  have once: "once (kf_parse ?live)"
    using assms(5) by (cases "sf_store s a" rule: read_to_string.cases)
      (auto simp: or_empty_def kf_parse_Nil once_def)
  have "a \<in> set (apps_to_visit (read_state (sf_state s)) s)"
    using wanted_declared [of s a] ws(2) assms(3) by (simp add: apps_to_visit_def declared_names_def)
  then have st: "sf_store s' a = file_of (fst (converge ?live ws ?prev))"
    using converge_store_ok [OF assms(2,1)] assms(3) by (simp add: stored_def converge_app_def)
  have ne: "fst (converge ?live ws ?prev) \<noteq> []"
    using written_is_not_blank [OF ws(1,2) live, of ?prev] trim_empty by (auto simp: converge_text)
  have parsed: "kf_parse (fst (converge ?live ws ?prev)) = kept (converged ?live ws ?prev)"
    using written_reads_back [OF ws(1,2) live] .
  have "converged ?live ws ?prev \<noteq> []" using file_ok_converged [OF live ws(1)] by (simp add: file_ok_def)
  then have "once (kf_parse (fst (converge ?live ws ?prev)))"
    using once_kept [OF once_converged [OF once]] parsed by simp
  then show ?thesis
    using live_keys_get [OF _ declared_keys_are_in_force [OF live ws(1) assms(4)] ws(3)] st ne
    by (simp add: file_of_def)
qed


text \<open>A fresh image for the example app, and a file that says a key twice.\<close>

definition demo_files :: scope_files where
  "demo_files = \<lparr>sf_declared = Some [(''org.b'', Readable (render_app demo_app))],
     sf_store = [''org.b'' \<mapsto> Readable demo_live], sf_state = None\<rparr>"

lemma demo_files_baked: "baked_ok demo_files"
proof -
  have "tab \<notin> set ''org.b''" "nl \<notin> set ''org.b''" by code_simp+
  then show ?thesis by (simp add: baked_ok_def demo_files_def or_empty_def demo_wanted)
qed

lemma demo_fresh: "\<not> stale_scope True [(''org.b'', demo_app)] System demo_files"
proof -
  have "ao_scope demo_app = System" by (simp add: demo_app_def)
  then show ?thesis by (simp add: stale_scope_def in_scope_def demo_files_def or_empty_def)
qed

lemma demo_once: "once demo_file"
  by (simp add: once_def demo_file_def context_group_def)


definition doubled_file :: keyfile where
  "doubled_file = [\<lparr>g_name = [], g_lines = []\<rparr>,
     \<lparr>g_name = context_group, g_lines = [KPair ''sockets'' ''wayland;'', KPair ''sockets'' ''x11;'']\<rparr>]"

definition sockets_app :: app_override where
  "sockets_app = default_app\<lparr>ao_sockets := [''wayland'']\<rparr>"

lemma sockets_keys: "declared_keys sockets_app = demo_keys"
  by (simp add: declared_keys_def sockets_app_def default_app_def context_lists_def demo_keys_def list_value_def)

text \<open>
  A live file that says a declared key twice is reported as drift for ever: the pass reads and
  sets the first of the two and finds nothing to do, the observer, like flatpak, reads the last.
\<close>

theorem doubled_key_drifts_for_ever:
  "let t = kf_render doubled_file in
     converge t (declared_keys sockets_app) [] =
       (t, nothing_changed, wanted_ids (declared_keys sockets_app)) \<and>
     drift_adds \<lparr>sf_declared = None, sf_store = (\<lambda>_. Some (Readable t)), sf_state = None\<rparr> (''org.b'', sockets_app) =
       [\<lparr>dr_app = ''org.b'', dr_group = context_group, dr_key = ''sockets'', dr_change = ChangeAdd\<rparr>]"
proof -
  let ?t = "kf_render doubled_file"
  have ok: "file_ok doubled_file"
    using demo_reads(2) demo_keys_ok key_reads_back [of context_group "''sockets''" "''wayland;''"]
    by (simp add: doubled_file_def file_ok_def group_ok_def keys_ok_def demo_keys_def)
  then have parse: "kf_parse ?t = doubled_file"
    using parse_render [OF ok] by (simp add: doubled_file_def keeps_something_def)
  have get: "kf_get doubled_file context_group ''sockets'' = Some ''wayland;''"
    by (simp add: doubled_file_def kf_get_def lines_get_def context_group_def)
  then have "conv_set doubled_file demo_keys = (doubled_file, [])"
    by (intro conv_set_same) (simp add: demo_keys_def)
  moreover have "trim ?t \<noteq> []"
    by (rule visible_trim [OF _ visible_ascii(2)])
      (simp add: doubled_file_def kf_render_def group_text_def keeps_something_def)
  ultimately have "converge ?t demo_keys [] = (?t, nothing_changed, wanted_ids demo_keys)"
    by (simp add: converge_def parse nothing_changed_def)
  moreover have "map_of (live_keys (Some (Readable ?t))) (context_group, ''sockets'') = Some ''x11;''"
    by (simp add: live_keys_def or_empty_def parse_declared_pairs parse)
      (simp add: doubled_file_def file_pairs_def group_pairs_def insert_key_def)
  ultimately show ?thesis
    by (simp add: Let_def drift_adds_def sockets_keys) (simp add: demo_keys_def)
qed

section \<open>Captured values\<close>

lemma split_list_value:
  "\<forall>v \<in> set vs. CHR '';'' \<notin> set v \<Longrightarrow> split_char (CHR '';'') (list_value vs) = vs @ [[]]"
proof (induction vs)
  case (Cons v vs)
  then show ?case using split_char_append [of "CHR '';''" v "list_value vs"] by (simp add: list_value_def)
qed (simp add: list_value_def)

text \<open>
  A permission list that flatpak or a pass wrote is captured as the list that declares it: the
  declaration of what is captured writes the same value again.
\<close>

theorem captured_list_declares_itself:
  assumes "\<forall>v \<in> set vs. v \<noteq> [] \<and> CHR '';'' \<notin> set v"
  shows "as_declaration (context_group, k, list_value vs) = (context_group, k, vs)"
  using assms by (simp add: as_declaration_def split_list_value)

theorem captured_list_declares_itself_witness:
  "as_declaration (context_group, ''sockets'', list_value [''wayland'', ''x11'']) =
    (context_group, ''sockets'', [''wayland'', ''x11''])"
  by (rule captured_list_declares_itself) simp

lemma capture_keys_ok:
  "(g, k, v) \<in> set (capture_keys declared a s) \<Longrightarrow>
   ((g, k), v) \<in> set (live_keys (sf_store s a)) \<and> representable g k \<and>
   owned_id g k \<notin> set (or_empty (map_of (read_state (sf_state s)) a)) \<and>
   (\<forall>ov. map_of declared a = Some ov \<longrightarrow> owned_id g k \<notin> set (wanted_ids (declared_keys ov)))"
  by (auto simp: capture_keys_def Let_def or_empty_def)

lemma capture_scope_ok:
  "p \<in> set (capture_scope declared a sc s) \<Longrightarrow>
   pp_app p = a \<and> pp_scope p = sc \<and> pp_keys p = capture_keys declared a s \<and> pp_keys p \<noteq> [] \<and>
   (\<forall>ov. map_of declared a = Some ov \<longrightarrow> ao_scope ov = sc)"
  by (auto simp: capture_scope_def Let_def split: option.splits if_splits)

lemma capturable_ok:
  "p \<in> set (fst (capturable as declared files)) \<Longrightarrow>
   pp_app p \<in> set as \<and> p \<in> set (capture_scope declared (pp_app p) (pp_scope p) (files (pp_scope p)))"
proof (induction as)
  case (Cons a as)
  let ?ps = "concat (map (\<lambda>sc. capture_scope declared a sc (files sc)) [System, User])"
  from Cons.prems have "p \<in> set (fst (capturable as declared files)) \<or> ?ps = [p]"
    by (auto simp: Let_def case_prod_unfold split: list.splits)
  then have "p \<in> set (fst (capturable as declared files)) \<or> p \<in> set ?ps" by (metis list.set_intros(1))
  then show ?case
  proof
    assume "p \<in> set ?ps"
    then obtain sc where "p \<in> set (capture_scope declared a sc (files sc))" by auto
    with capture_scope_ok [OF this] show ?thesis by simp
  qed (use Cons.IH in simp)
qed simp

text \<open>
  What \<open>capture\<close> proposes is in the named store's live file, for an installed app and in the
  scope the app declares, can be spelled, and is neither declared already nor a key a pass set.
\<close>

theorem capture_proposes_what_is_not_declared:
  assumes "p \<in> set (fst (capturable as declared files))" "(g, k, v) \<in> set (pp_keys p)"
  shows "pp_app p \<in> set as \<and>
    ((g, k), v) \<in> set (live_keys (sf_store (files (pp_scope p)) (pp_app p))) \<and> representable g k \<and>
    owned_id g k \<notin> set (or_empty (map_of (read_state (sf_state (files (pp_scope p)))) (pp_app p))) \<and>
    (case map_of declared (pp_app p) of None \<Rightarrow> True
     | Some ov \<Rightarrow> ao_scope ov = pp_scope p \<and> owned_id g k \<notin> set (wanted_ids (declared_keys ov)))"
proof -
  from capturable_ok [OF assms(1)] have p: "pp_app p \<in> set as"
    "p \<in> set (capture_scope declared (pp_app p) (pp_scope p) (files (pp_scope p)))" by auto
  from capture_scope_ok [OF p(2)] have keys: "pp_keys p = capture_keys declared (pp_app p) (files (pp_scope p))"
    and sc: "\<forall>ov. map_of declared (pp_app p) = Some ov \<longrightarrow> ao_scope ov = pp_scope p" by auto
  from capture_keys_ok [OF assms(2) [unfolded keys]] p(1) sc show ?thesis by (auto split: option.split)
qed

text \<open>
  A key that can be spelled may carry what the declaration refuses: a permission outside the
  validator's alphabet, or a bus name that begins with a dash, is proposed, and the write that
  validates the declaration then refuses it.
\<close>

theorem proposed_key_may_be_refused:
  "representable context_group ''filesystems'' \<and>
   as_declaration (context_group, ''filesystems'', ''a+b;'') = (context_group, ''filesystems'', [''a+b'']) \<and>
   validate_override ''org.b'' (default_app\<lparr>ao_filesystems := [''a+b'']\<rparr>) =
     Inl (BadPermission ''filesystems'' UnsupportedCharacter) \<and>
   representable session_group ''-a'' \<and>
   validate_override ''org.b'' (default_app\<lparr>ao_session_bus := [(''-a'', PolicyTalk)]\<rparr>) = Inl (BadBusName LeadingDash)"
proof (intro conjI)
  show "representable context_group ''filesystems''" by (simp add: representable_def context_lists_def)
  have "CHR '';'' \<notin> set ''a+b''" by simp
  then show "as_declaration (context_group, ''filesystems'', ''a+b;'') = (context_group, ''filesystems'', [''a+b''])"
    using split_list_value [of "[''a+b'']"] by (simp add: as_declaration_def list_value_def)
  have names: "validate_name ''org.b'' ''.-_'' = Inr ()"
    by (simp add: validate_name_ok ascii_alnum_def starts_with_def)
  have "validate_name ''a+b'' ''!/.-_:~ '' = Inl UnsupportedCharacter"
    by (simp add: validate_name_def ascii_alnum_def starts_with_def)
  then show "validate_override ''org.b'' (default_app\<lparr>ao_filesystems := [''a+b'']\<rparr>) =
     Inl (BadPermission ''filesystems'' UnsupportedCharacter)"
    using names by (simp add: validate_override_def default_app_def context_lists_def app_is_empty_def)
  have "validate_name ''-a'' ''.-_*'' = Inl LeadingDash"
    by (simp add: validate_name_def starts_with_def)
  then show "validate_override ''org.b'' (default_app\<lparr>ao_session_bus := [(''-a'', PolicyTalk)]\<rparr>) = Inl (BadBusName LeadingDash)"
    using names by (simp add: validate_override_def default_app_def context_lists_def app_is_empty_def)
  show "representable session_group ''-a''"
    by (simp add: representable_def spelled_with_def ascii_alnum_def session_group_def context_group_def environment_group_def)
qed

lemma demo_capture:
  "capture_keys [] ''org.b'' (demo_files\<lparr>sf_store := [''org.b'' \<mapsto> Readable demo_live]\<rparr>) =
    [(context_group, ''devices'', ''dri;''), (context_group, ''sockets'', ''x11;'')]"
proof -
  have "live_keys (Some (Readable demo_live)) =
      [((context_group, ''devices''), ''dri;''), ((context_group, ''sockets''), ''x11;'')]"
    by (simp add: live_keys_def or_empty_def parse_declared_pairs demo_parse)
      (simp add: demo_file_def file_pairs_def group_pairs_def insert_key_def less_char_def)
  then show ?thesis
    by (simp add: capture_keys_def demo_files_def read_state_def or_empty_def representable_def context_lists_def less_eq_char_def less_char_def less_eq_prod_def)
qed

theorem capture_proposes_what_is_not_declared_witness:
  "\<exists>p. p \<in> set (fst (capturable [''org.b''] [] (\<lambda>sc. if sc = System then demo_files else demo_files\<lparr>sf_store := (\<lambda>_. None)\<rparr>))) \<and>
     representable context_group ''sockets''"
proof -
  let ?files = "\<lambda>sc. if sc = System then demo_files else demo_files\<lparr>sf_store := (\<lambda>_. None)\<rparr>"
  let ?p = "\<lparr>pp_app = ''org.b'', pp_scope = System,
    pp_keys = [(context_group, ''devices'', ''dri;''), (context_group, ''sockets'', ''x11;'')]\<rparr>"
  have "demo_files\<lparr>sf_store := [''org.b'' \<mapsto> Readable demo_live]\<rparr> = demo_files" by (simp add: demo_files_def)
  then have "capture_keys [] ''org.b'' demo_files = pp_keys ?p" using demo_capture by simp
  moreover have "capture_keys [] ''org.b'' (demo_files\<lparr>sf_store := (\<lambda>_. None)\<rparr>) = []"
    by (simp add: capture_keys_def live_keys_def or_empty_def parse_declared_Nil)
  ultimately have p: "?p \<in> set (fst (capturable [''org.b''] [] ?files))" by (simp add: capture_scope_def)
  have "(context_group, ''sockets'', ''x11;'') \<in> set (pp_keys ?p)" by simp
  from capture_proposes_what_is_not_declared [OF p this] p show ?thesis by blast
qed

end
