(* ===== verification/Hibernate.thy ===== *)
theory Hibernate
  imports Text_Lines
begin

text \<open>
  Hibernation, \<open>src/hibernate.rs\<close>: sizes as people type them and as \<open>/proc/meminfo\<close> gives them,
  the block in the fstab, the kernel arguments, and the grading of a machine. A sentence shown to a
  person is a constructor that carries the values the sentence names.
\<close>

section \<open>Sizes\<close>

definition lower_ascii :: "char \<Rightarrow> char" where
  "lower_ascii c = (let n = (of_char c :: nat) in if 65 \<le> n \<and> n \<le> 90 then char_of (n + 32) else c)"

definition to_ascii_lowercase :: "string \<Rightarrow> string" where
  "to_ascii_lowercase s = map lower_ascii s"

definition sat_mul :: "u64 \<Rightarrow> u64 \<Rightarrow> u64" where
  "sat_mul a b = (if unat a * unat b < 2 ^ 64 then a * b else - 1)"

definition div_ceil :: "u64 \<Rightarrow> u64 \<Rightarrow> u64" where
  "div_ceil a b = (if a mod b \<noteq> 0 then a div b + 1 else a div b)"

datatype size_error = NoUnit | NotANumber | TooSmallToHibernate u64

definition min_mib :: u64 where "min_mib = 1024"
definition reserve_mib :: u64 where "reserve_mib = 10 * 1024"

definition unit_of :: "string \<Rightarrow> (string \<times> u64) option" where
  "unit_of s =
     (case strip_suffix ''gib'' s of Some r \<Rightarrow> Some (r, 1024)
      | None \<Rightarrow> (case strip_suffix ''g'' s of Some r \<Rightarrow> Some (r, 1024)
      | None \<Rightarrow> (case strip_suffix ''mib'' s of Some r \<Rightarrow> Some (r, 1)
      | None \<Rightarrow> (case strip_suffix ''m'' s of Some r \<Rightarrow> Some (r, 1) | None \<Rightarrow> None))))"

definition parse_mib :: "string \<Rightarrow> size_error + u64 option" where
  "parse_mib txt =
     (let lower = to_ascii_lowercase (trim txt)
      in if lower \<in> set [''none'', ''no'', ''off'', ''0''] then Inr None
         else (case unit_of lower of
                 None \<Rightarrow> Inl NoUnit
               | Some (digits, per_unit) \<Rightarrow>
                   (case parse_u64 (trim digits) of
                      None \<Rightarrow> Inl NotANumber
                    | Some n \<Rightarrow> Inr (Some (sat_mul n per_unit)))))"

definition parse_size :: "string \<Rightarrow> size_error + u64 option" where
  "parse_size txt =
     (case parse_mib txt of
        Inl e \<Rightarrow> Inl e
      | Inr None \<Rightarrow> Inr None
      | Inr (Some mib) \<Rightarrow> if mib < min_mib then Inl (TooSmallToHibernate mib) else Inr (Some mib))"

text \<open>\<open>split_whitespace\<close>: the words between white space, none of them empty.\<close>

fun take_word :: "string \<Rightarrow> string \<times> string" where
  "take_word [] = ([], [])"
| "take_word (c # s) =
     (if space_first spaces (c # s) then ([], c # s) else (let (w, r) = take_word s in (c # w, r)))"

lemma take_word_split: "take_word s = (w, r) \<Longrightarrow> s = w @ r"
  by (induction s arbitrary: w) (auto simp: case_prod_unfold Let_def prod_eq_iff split: if_splits)

lemma drop_any_length: "length (drop_any ws s) \<le> length s"
  using drop_any_drops [of ws s] by (metis le_add2 length_append)

function split_ws :: "string \<Rightarrow> string list" where
  "split_ws s =
     (case drop_any spaces s of [] \<Rightarrow> []
      | c # t \<Rightarrow> (let (w, r) = take_word t in (c # w) # split_ws r))"
  by pat_completeness auto

termination
proof (relation "measure length")
  fix s c t w r x
  assume "drop_any spaces s = c # t" "x = take_word t" "(w, r) = x"
  then have "t = w @ r" by (metis take_word_split)
  with \<open>drop_any spaces s = c # t\<close> drop_any_length [of spaces s] show "(r, s) \<in> measure length" by simp
qed simp

declare split_ws.simps [simp del]

fun find_map :: "('a \<Rightarrow> 'b option) \<Rightarrow> 'a list \<Rightarrow> 'b option" where
  "find_map f [] = None"
| "find_map f (x # xs) = (case f x of Some y \<Rightarrow> Some y | None \<Rightarrow> find_map f xs)"

definition first_word :: "string \<Rightarrow> string option" where
  "first_word s = (case split_ws s of w # ws \<Rightarrow> Some w | [] \<Rightarrow> None)"

definition ram_mib :: "string \<Rightarrow> u64 option" where
  "ram_mib meminfo =
     Option.bind (find_map (strip_prefix ''MemTotal:'') (str_lines meminfo))
       (\<lambda>rest. Option.bind (first_word rest) (\<lambda>w. map_option (\<lambda>kib. div_ceil kib 1024) (parse_u64 w)))"

definition round_up_gib :: "u64 \<Rightarrow> u64" where
  "round_up_gib mib = div_ceil mib 1024 * 1024"

definition default_size_mib :: "string \<Rightarrow> u64 option" where
  "default_size_mib meminfo = map_option round_up_gib (ram_mib meminfo)"

datatype objection = DoesNotFit u64 u64

definition objections :: "u64 \<Rightarrow> u64 \<Rightarrow> objection list" where
  "objections size_mib spare_mib = (if size_mib > spare_mib then [DoesNotFit size_mib spare_mib] else [])"

datatype hib_warning = NotEncrypted | SmallerThanMemory u64 u64

definition hib_warnings :: "u64 \<Rightarrow> u64 option \<Rightarrow> bool \<Rightarrow> hib_warning list" where
  "hib_warnings size_mib ram encrypted =
     (if encrypted then [] else [NotEncrypted]) @
     (case ram of Some r \<Rightarrow> if size_mib < r then [SmallerThanMemory size_mib r] else [] | None \<Rightarrow> [])"

datatype no_hibernation = NotOffered | LockedDown string

definition refusal_of :: "string option \<Rightarrow> no_hibernation" where
  "refusal_of lockdown = (case lockdown of None \<Rightarrow> NotOffered | Some mode \<Rightarrow> if mode = ''none'' then NotOffered else LockedDown mode)"

definition lockdown_warning :: "bool \<Rightarrow> string option \<Rightarrow> no_hibernation option" where
  "lockdown_warning kernel_allows lockdown = (if kernel_allows then None else Some (refusal_of lockdown))"

section \<open>The block in the fstab\<close>

definition fstab_open :: string where "fstab_open = ''# >>> kuma hibernate >>>''"
definition fstab_close :: string where "fstab_close = ''# <<< kuma hibernate <<<''"

definition fstab_body :: "string \<Rightarrow> string list" where
  "fstab_body fs_uuid =
     [''# The swapfile this machine hibernates into. The kernel finds it'',
      ''# at resume through the resume= and resume_offset= kernel'',
      ''# arguments, not through these lines; these are what make it swap'',
      ''# once the system is up, which is what hibernating into it needs.'',
      ''UUID='' @ fs_uuid @ '' /var/swap btrfs subvol=swap,noatime,nodatacow,x-systemd.device-timeout=0 0 0'',
      ''/var/swap/swapfile none swap pri=-2,x-systemd.requires-mounts-for=/var/swap 0 0'']"

definition fstab_lines :: "string \<Rightarrow> string" where
  "fstab_lines fs_uuid = nl # unlines (fstab_open # fstab_body fs_uuid @ [fstab_close])"

text \<open>\<open>out.pop()\<close> while it ends in two line feeds; the text is kept reversed.\<close>

fun pop_blank :: "string \<Rightarrow> string" where
  "pop_blank (c # d # s) = (if c = nl \<and> d = nl then pop_blank (d # s) else c # d # s)"
| "pop_blank s = s"

definition strip_step :: "string \<times> bool \<Rightarrow> string \<Rightarrow> string \<times> bool" where
  "strip_step = (\<lambda>(out, inside) line.
     if trim line = fstab_open then (rev (pop_blank (rev out)), True)
     else if inside then (out, trim line \<noteq> fstab_close)
     else (out @ line @ [nl], False))"

definition strip_fstab :: "string \<Rightarrow> string" where
  "strip_fstab txt = fst (foldl strip_step ([], False) (str_lines txt))"

section \<open>Kernel arguments\<close>

definition kargs :: "string \<Rightarrow> string \<Rightarrow> string list" where
  "kargs fs_uuid offset = [''resume=UUID='' @ fs_uuid, ''resume_offset='' @ offset]"

definition resume_step :: "string option \<times> u64 option \<Rightarrow> string \<Rightarrow> string option \<times> u64 option" where
  "resume_step = (\<lambda>(resume, offset) arg.
     case strip_prefix ''resume_offset='' arg of
       Some v \<Rightarrow> (resume, parse_u64 v)
     | None \<Rightarrow> (case strip_prefix ''resume='' arg of Some v \<Rightarrow> (Some v, offset) | None \<Rightarrow> (resume, offset)))"

definition resume_from_cmdline :: "string \<Rightarrow> string option \<times> u64 option" where
  "resume_from_cmdline cmdline = foldl resume_step (None, None) (split_ws cmdline)"

definition deletions :: "string \<Rightarrow> string list" where
  "deletions current =
     (case resume_from_cmdline current of (resume, offset) \<Rightarrow>
        (case resume of Some old \<Rightarrow> [''--delete-if-present=resume='' @ old] | None \<Rightarrow> []) @
        (case offset of Some old \<Rightarrow> [''--delete-if-present=resume_offset='' @ show_u64 old] | None \<Rightarrow> []))"

definition karg_arguments :: "string \<Rightarrow> string \<Rightarrow> string \<Rightarrow> string list" where
  "karg_arguments current fs_uuid offset =
     ''kargs'' # deletions current @ map (\<lambda>k. ''--append='' @ k) (kargs fs_uuid offset)"

definition karg_removal :: "string \<Rightarrow> string list" where
  "karg_removal current = (let args = ''kargs'' # deletions current in if length args = 1 then [] else args)"

section \<open>Asking the machine\<close>

definition kernel_allows_hibernation :: "string \<Rightarrow> bool" where
  "kernel_allows_hibernation power_state = list_ex (\<lambda>m. m = ''disk'') (split_ws power_state)"

definition active_lockdown :: "string \<Rightarrow> string option" where
  "active_lockdown txt =
     find_map (\<lambda>m. Option.bind (strip_prefix ''['' m) (strip_suffix '']'')) (split_ws txt)"

definition selinux_type :: "string \<Rightarrow> string option" where
  "selinux_type context =
     (let c = trim context; parts = split_char (CHR '':'') c
      in if c = [] \<or> c = ''?'' then None
         else if 2 < length parts then Some (parts ! 2) else None)"

definition swap_file :: string where "swap_file = ''/var/swap/swapfile''"

definition swap_active :: "string \<Rightarrow> bool" where
  "swap_active proc_swaps = list_ex (\<lambda>l. first_word l = Some swap_file) (drop 1 (str_lines proc_swaps))"

definition swap_size_mib :: "string \<Rightarrow> u64 option" where
  "swap_size_mib proc_swaps =
     map_option (\<lambda>kib. kib div 1024)
       (Option.bind
         (find_map (\<lambda>l. case split_ws l of
              w # ws \<Rightarrow> if w = swap_file \<and> 1 < length ws then Some (ws ! 1) else None
            | [] \<Rightarrow> None) (drop 1 (str_lines proc_swaps)))
         parse_u64)"

record status =
  st_resume :: "string option"
  st_resume_offset :: "u64 option"
  st_file_offset :: "u64 option"
  st_file_mib :: "u64 option"
  st_active :: bool
  st_swaps_file_mib :: "u64 option"
  st_ram_mib :: "u64 option"
  st_kernel_allows :: bool
  st_lockdown :: "string option"
  st_present :: bool
  st_asked :: bool
  st_selinux_type :: "string option"
  st_mount_selinux_type :: "string option"
  st_lid_dropin :: bool

datatype fault =
    FileMissingOrUnusable | NothingNamesTheFile | OffsetMoved u64 u64 | OffsetNotSet | NotActiveSwap
  | FileMislabelled string | DirMislabelled string | DirNotLabelled

datatype verdict =
    NotSet | Ready "u64 option" | Broken fault | Short u64 u64 | Unasked | Refused no_hibernation

definition swapfile_type :: string where "swapfile_type = ''swapfile_t''"

definition label_fault :: "status \<Rightarrow> fault option" where
  "label_fault s =
     (case st_selinux_type s of None \<Rightarrow> None
      | Some kind \<Rightarrow>
          if kind \<noteq> swapfile_type then Some (FileMislabelled kind)
          else (case st_mount_selinux_type s of
                  Some dir \<Rightarrow> if dir = ''unlabeled_t'' then Some (DirMislabelled dir) else None
                | None \<Rightarrow> Some DirNotLabelled))"

definition grade_claimed :: "status \<Rightarrow> u64 \<Rightarrow> verdict" where
  "grade_claimed s actual =
     (case st_resume_offset s of
        None \<Rightarrow> Broken OffsetNotSet
      | Some claimed \<Rightarrow>
          if claimed \<noteq> actual then Broken (OffsetMoved claimed actual)
          else if \<not> st_active s then Broken NotActiveSwap
          else (case label_fault s of
                  Some f \<Rightarrow> Broken f
                | None \<Rightarrow>
                    if \<not> st_kernel_allows s then Refused (refusal_of (st_lockdown s))
                    else (case (st_file_mib s, st_ram_mib s) of
                            (Some file, Some ram) \<Rightarrow> if file < ram then Short file ram else Ready (Some file)
                          | (Some file, None) \<Rightarrow> Ready (Some file)
                          | (None, _) \<Rightarrow> Ready None)))"

definition verdict_of :: "status \<Rightarrow> verdict" where
  "verdict_of s =
     (let claimed = (st_resume s \<noteq> None \<or> st_resume_offset s \<noteq> None)
      in case (claimed, st_file_offset s) of
           (False, None) \<Rightarrow> NotSet
         | (True, None) \<Rightarrow> if st_present s \<and> \<not> st_asked s then Unasked else Broken FileMissingOrUnusable
         | (False, Some _) \<Rightarrow> Broken NothingNamesTheFile
         | (True, Some actual) \<Rightarrow> grade_claimed s actual)"

datatype lid_verdict = LidSilent | LidOk | LidMissing | LidStale

definition lid_verdict_of :: "verdict \<Rightarrow> bool \<Rightarrow> lid_verdict" where
  "lid_verdict_of hibernate lid_dropin =
     (case hibernate of
        Ready _ \<Rightarrow> if lid_dropin then LidOk else LidMissing
      | NotSet \<Rightarrow> if lid_dropin then LidStale else LidSilent
      | _ \<Rightarrow> LidSilent)"

section \<open>Words\<close>

definition unwords :: "string list \<Rightarrow> string" where
  "unwords ws = concat (map (\<lambda>w. w @ '' '') ws)"

lemma space_word: "'' '' \<in> set spaces"
proof -
  have "CHR '' '' = char_of (32 :: nat)" by code_simp
  then show ?thesis by (simp add: spaces_def white_spaces_def)
qed

lemma space_starts [simp]: "space_first spaces (CHR '' '' # s)"
  using space_word by (force simp: space_first_def starts_with_def)

lemma drop_any_space: "drop_any spaces (CHR '' '' # s) = drop_any spaces s"
proof -
  let ?s = "CHR '' '' # s"
  have "find (\<lambda>w. w \<noteq> [] \<and> starts_with w ?s) spaces \<noteq> None"
  proof -
    have "starts_with '' '' ?s" by (simp add: starts_with_def)
    with space_word show ?thesis unfolding find_None_iff by blast
  qed
  then obtain w where w: "find (\<lambda>w. w \<noteq> [] \<and> starts_with w ?s) spaces = Some w" by blast
  then have "w \<in> set spaces" "starts_with w ?s" by (auto dest: find_Some_split)
  then have "w = '' ''" using spaces_prefix_free [of w "'' ''" s] space_word by simp
  with w have w: "find (\<lambda>w. w \<noteq> [] \<and> starts_with w ?s) spaces = Some '' ''" by simp
  show ?thesis unfolding drop_any.simps [of spaces ?s] w by simp
qed

lemma visible_starts: "visible c \<Longrightarrow> \<not> space_first spaces (c # s)"
  using space_first_visible [of spaces c "[]" s] by (simp add: visible_def)

lemma take_word_plain: "plain w \<Longrightarrow> take_word (w @ CHR '' '' # s) = (w, CHR '' '' # s)"
proof (induction w)
  case (Cons c w)
  then have "visible c" "plain w" using plain_visible [OF Cons.prems] by (auto simp: plain_def)
  with Cons visible_starts [of c] show ?case by simp
qed simp

lemma split_ws_word: "plain w \<Longrightarrow> w \<noteq> [] \<Longrightarrow> split_ws (w @ CHR '' '' # s) = w # split_ws s"
proof -
  assume w: "plain w" "w \<noteq> []"
  then obtain c v where c: "w = c # v" by (cases w) auto
  then have "visible c" "plain v" using w plain_visible [OF w(1)] by (auto simp: plain_def)
  moreover from this have "drop_any spaces (c # v @ CHR '' '' # s) = c # v @ CHR '' '' # s"
    by (intro drop_any_keeps) (simp add: visible_starts)
  moreover have "split_ws (CHR '' '' # s) = split_ws s" by (simp add: split_ws.simps drop_any_space)
  ultimately show ?thesis
    by (simp add: c split_ws.simps [of "c # v @ CHR '' '' # s"] take_word_plain)
qed

lemma split_ws_Nil [simp]: "split_ws [] = []"
  using drop_any_keeps [of spaces "[]"] by (simp add: split_ws.simps)

lemma split_unwords: "\<forall>w \<in> set ws. plain w \<and> w \<noteq> [] \<Longrightarrow> split_ws (unwords ws) = ws"
  by (induction ws) (simp_all add: unwords_def split_ws_word)

definition speaks_of_resume :: "string \<Rightarrow> bool" where
  "speaks_of_resume w \<longleftrightarrow> starts_with ''resume='' w \<or> starts_with ''resume_offset='' w"

lemma resume_others:
  "\<forall>w \<in> set ws. \<not> speaks_of_resume w \<Longrightarrow> foldl resume_step acc ws = acc"
  by (induction ws arbitrary: acc) (auto simp: resume_step_def speaks_of_resume_def strip_prefix_def)

lemma digit_plain: "is_digit c \<Longrightarrow> 32 < (of_char c :: nat) \<and> (of_char c :: nat) < 128"
  by (auto simp: is_digit_def)

lemma show_plain: "plain (show_u64 n)"
  using show_nat_digits [of "unat n"] digit_plain by (auto simp: plain_def list_all_iff show_u64_def)

text \<open>
  The kernel arguments that turn hibernation on are read back from the command line as the file
  system and the offset they name, whatever other arguments stand before or after them.
\<close>

theorem resume_arguments_read_back:
  assumes "\<forall>w \<in> set (before @ after). plain w \<and> w \<noteq> [] \<and> \<not> speaks_of_resume w" "plain fs_uuid"
  shows "resume_from_cmdline (unwords (before @ kargs fs_uuid (show_u64 offset) @ after)) =
    (Some (''UUID='' @ fs_uuid), Some offset)"
proof -
  have "plain (''resume=UUID='' @ fs_uuid)" "plain (''resume_offset='' @ show_u64 offset)"
    using assms(2) show_plain [of offset] by (simp_all add: plain_def)
  then have "split_ws (unwords (before @ kargs fs_uuid (show_u64 offset) @ after)) =
      before @ kargs fs_uuid (show_u64 offset) @ after"
    using assms(1) by (intro split_unwords) (auto simp: kargs_def)
  then show ?thesis
    using assms(1) resume_others [of before] resume_others [of after]
    by (simp add: resume_from_cmdline_def kargs_def)
      (simp add: resume_step_def strip_prefix_def starts_with_def)
qed

theorem resume_arguments_read_back_witness:
  "resume_from_cmdline (unwords ([''quiet''] @ kargs ''ab-12'' (show_u64 533760) @ [''rhgb''])) =
    (Some ''UUID=ab-12'', Some 533760)"
  using resume_arguments_read_back [of "[''quiet'']" "[''rhgb'']" "''ab-12''" 533760]
  by (simp add: plain_def speaks_of_resume_def starts_with_def)

text \<open>
  Of several \<open>resume=\<close> arguments only the last is deleted, so the earlier ones stay on the
  command line when hibernation is turned off or its arguments are replaced.
\<close>

theorem only_the_last_resume_is_deleted:
  assumes "plain u" "plain v" "u \<noteq> v"
  shows "karg_removal (unwords [''resume='' @ u, ''resume='' @ v]) = [''kargs'', ''--delete-if-present=resume='' @ v]"
proof -
  have "plain (''resume='' @ u)" "plain (''resume='' @ v)" using assms by (simp_all add: plain_def)
  then have "split_ws (unwords [''resume='' @ u, ''resume='' @ v]) = [''resume='' @ u, ''resume='' @ v]"
    by (intro split_unwords) simp
  then show ?thesis
    by (simp add: karg_removal_def deletions_def resume_from_cmdline_def)
      (simp add: resume_step_def strip_prefix_def starts_with_def)
qed

theorem only_the_last_resume_is_deleted_witness:
  "karg_removal (unwords [''resume=A'', ''resume=B'']) = [''kargs'', ''--delete-if-present=resume=B'']"
  using only_the_last_resume_is_deleted [of "''A''" "''B''"] by (simp add: plain_def)

section \<open>Sizes as they are typed and proposed\<close>

lemma lower_digit: "is_digit c \<Longrightarrow> lower_ascii c = c"
  by (simp add: is_digit_def lower_ascii_def Let_def)

lemma lower_digits: "list_all is_digit s \<Longrightarrow> to_ascii_lowercase s = s"
  by (auto simp: to_ascii_lowercase_def list_all_iff lower_digit intro: map_idI)

lemma suffix_snoc: "strip_suffix [c] (s @ [d]) = (if c = d then Some s else None)"
  by (simp add: strip_suffix_def strip_prefix_def starts_with_def)

lemma show_edges: "list_all is_digit (show_u64 n) \<and> show_u64 n \<noteq> []"
  by (simp add: show_u64_def show_nat_digits)

lemma unit_of_digits:
  assumes "list_all is_digit s"
  shows "unit_of (s @ ''g'') = Some (s, 1024) \<and> unit_of (s @ ''m'') = Some (s, 1) \<and> unit_of s = None"
proof -
  have no: "strip_suffix (u @ [c]) (t @ [d]) = None" if "c \<noteq> d" for u t and c d :: char
    using that by (simp add: strip_suffix_def strip_prefix_def starts_with_def)
  have "strip_suffix ''gib'' (s @ ''g'') = None" "strip_suffix ''gib'' (s @ ''m'') = None"
    "strip_suffix ''mib'' (s @ ''m'') = None" "strip_suffix ''g'' (s @ ''m'') = None"
    using no [of "CHR ''b''" "CHR ''g''" "''gi''" s] no [of "CHR ''b''" "CHR ''m''" "''gi''" s]
      no [of "CHR ''b''" "CHR ''m''" "''mi''" s] no [of "CHR ''g''" "CHR ''m''" "[]" s] by simp_all
  moreover have "strip_suffix ''g'' (s @ ''g'') = Some s" "strip_suffix ''m'' (s @ ''m'') = Some s"
    by (simp_all add: suffix_snoc)
  moreover have "unit_of s = None"
  proof (cases s rule: rev_cases)
    case Nil
    then show ?thesis by (simp add: unit_of_def strip_suffix_def strip_prefix_def starts_with_def)
  next
    case (snoc t d)
    with assms have "is_digit d" by simp
    then have "CHR ''b'' \<noteq> d" "CHR ''g'' \<noteq> d" "CHR ''m'' \<noteq> d" by (auto simp: is_digit_def)
    with snoc no [of "CHR ''b''" d "''gi''" t] no [of "CHR ''b''" d "''mi''" t] show ?thesis
      by (simp add: unit_of_def suffix_snoc)
  qed
  ultimately show ?thesis by (simp add: unit_of_def)
qed

lemma plain_snoc: "plain s \<Longrightarrow> 32 < (of_char c :: nat) \<Longrightarrow> (of_char c :: nat) < 128 \<Longrightarrow> plain (s @ [c])"
  by (simp add: plain_def)

lemma typed_size_read:
  "parse_mib (show_u64 n @ ''G'') = Inr (Some (sat_mul n 1024)) \<and>
   parse_mib (show_u64 n @ ''M'') = Inr (Some n) \<and>
   parse_mib (show_u64 n) = (if n = 0 then Inr None else Inl NoUnit)"
proof -
  let ?s = "show_u64 n"
  have d: "list_all is_digit ?s" "?s \<noteq> []" using show_edges by blast+
  have trims: "trim (?s @ ''G'') = ?s @ ''G''" "trim (?s @ ''M'') = ?s @ ''M''" "trim ?s = ?s"
    using show_plain [of n] by (simp_all add: plain_trimmed plain_snoc)
  have lower: "to_ascii_lowercase (?s @ ''G'') = ?s @ ''g''" "to_ascii_lowercase (?s @ ''M'') = ?s @ ''m''"
    "to_ascii_lowercase ?s = ?s"
  proof -
    have "lower_ascii (CHR ''G'') = CHR ''g''" "lower_ascii (CHR ''M'') = CHR ''m''" by code_simp+
    then show "to_ascii_lowercase (?s @ ''G'') = ?s @ ''g''" "to_ascii_lowercase (?s @ ''M'') = ?s @ ''m''"
      using lower_digits [OF d(1)] by (simp_all add: to_ascii_lowercase_def)
    show "to_ascii_lowercase ?s = ?s" using d(1) by (rule lower_digits)
  qed
  have words: "?s @ [c] \<notin> set [''none'', ''no'', ''off'', ''0'']" if "c = CHR ''g'' \<or> c = CHR ''m''" for c
    using that by (auto simp: append_eq_Cons_conv)
  have "?s \<noteq> ''none'' \<and> ?s \<noteq> ''no'' \<and> ?s \<noteq> ''off''" using d by (auto simp: is_digit_def)
  moreover have "?s = ''0'' \<longleftrightarrow> n = 0"
  proof
    assume "?s = ''0''"
    moreover have "digits_val ''0'' = 0" by (simp add: digits_val_def digit_val_def)
    ultimately have "unat n = 0" using digits_val_show [of "unat n"] by (simp add: show_u64_def)
    then show "n = 0" by (simp add: unat_eq_0)
  next
    have "digit_char 0 = CHR ''0''" by code_simp
    then show "n = 0 \<Longrightarrow> ?s = ''0''" by (simp add: show_u64_def show_nat.simps [of 0])
  qed
  ultimately have "parse_mib ?s = (if n = 0 then Inr None else Inl NoUnit)"
    using unit_of_digits [OF d(1)] by (simp add: parse_mib_def trims lower)
  moreover have "sat_mul n 1 = n" by (simp add: sat_mul_def unat_u64_lt)
  ultimately show ?thesis
    using unit_of_digits [OF d(1)] words [of "CHR ''g''"] words [of "CHR ''m''"] trims(3)
    by (simp add: parse_mib_def trims lower)
qed

text \<open>
  A size typed with its unit is read as that many mebibytes, saturating where a gibibyte count
  is too large for the type, and a number without a unit, other than zero, is refused.
\<close>

theorem typed_size_is_read:
  "parse_mib (show_u64 n @ ''G'') = Inr (Some (sat_mul n 1024)) \<and>
   parse_mib (show_u64 n @ ''M'') = Inr (Some n) \<and>
   parse_mib (show_u64 n) = (if n = 0 then Inr None else Inl NoUnit)"
  by (rule typed_size_read)

lemma ceil_bounds: "(n :: nat) \<le> (n + 1023) div 1024 * 1024 \<and> (n + 1023) div 1024 * 1024 < n + 1024"
  using div_mult_mod_eq [of "n + 1023" 1024] mod_less_divisor [of 1024 "n + 1023"] by linarith

lemma ceil_cases: "(n + 1023) div 1024 = (if n mod 1024 = 0 then n div 1024 else n div 1024 + 1)" for n :: nat
proof -
  obtain q r where n: "n = r + q * 1024" "r < 1024" by (metis div_mult_mod_eq add.commute mod_less_divisor zero_less_numeral)
  have "(n + 1023) div 1024 = q + (r + 1023) div 1024"
    using div_mult_self1 [of 1024 "r + 1023" q] n(1) by (simp add: algebra_simps)
  moreover have "(r + 1023) div 1024 = (if r = 0 then 0 else 1)"
  proof (cases r)
    case (Suc k)
    then have "(r + 1023) div 1024 = (k + 1024) div 1024" by simp
    also have "\<dots> = 1" using Suc n(2) by (subst div_add_self2) simp_all
    finally show ?thesis using Suc by simp
  qed simp
  ultimately show ?thesis using n by simp
qed

lemma unat_div_ceil: "unat (div_ceil a 1024) = (unat a + 1023) div 1024"
proof -
  have "unat (a div 1024) + unat (1 :: u64) < 2 ^ 64"
    using unat_u64_lt [of a] by (simp add: unat_div)
  from u64_plus_no_wrap [OF this] have "unat (a div 1024 + 1) = unat a div 1024 + 1" by (simp add: unat_div)
  moreover have "a mod 1024 = 0 \<longleftrightarrow> unat a mod 1024 = 0" by (simp add: word_unat_eq_iff unat_mod)
  ultimately show ?thesis by (simp add: div_ceil_def unat_div ceil_cases)
qed

text \<open>
  The proposed swapfile is the machine's memory rounded up to whole gibibytes: at least the
  memory, less than a gibibyte more, a multiple of a gibibyte, and never one that is warned about.
\<close>

theorem proposed_size_holds_the_memory:
  assumes "default_size_mib meminfo = Some d"
  shows "\<exists>r. ram_mib meminfo = Some r \<and> unat r \<le> unat d \<and> unat d < unat r + 1024 \<and> unat d mod 1024 = 0 \<and>
    hib_warnings d (ram_mib meminfo) True = []"
proof -
  obtain r where r: "ram_mib meminfo = Some r" and d: "d = div_ceil r 1024 * 1024"
    using assms by (auto simp: default_size_mib_def round_up_gib_def)
  from r obtain kib where kib: "r = div_ceil kib 1024" by (auto simp: ram_mib_def bind_eq_Some_conv)
  have small: "unat r \<le> 2 ^ 54" using unat_u64_lt [of kib] by (simp add: kib unat_div_ceil)
  have "unat (div_ceil r 1024) * 1024 < 2 ^ 64" using small by (simp add: unat_div_ceil)
  then have u: "unat d = (unat r + 1023) div 1024 * 1024"
    by (simp add: d unat_word_ariths unat_div_ceil)
  then have "unat r \<le> unat d \<and> unat d < unat r + 1024 \<and> unat d mod 1024 = 0" using ceil_bounds [of "unat r"] by simp
  moreover from this have "\<not> d < r" by (simp add: word_less_nat_alt)
  ultimately show ?thesis using r by (simp add: hib_warnings_def)
qed

definition demo_meminfo :: string where
  "demo_meminfo = unlines [''MemTotal: 3000000 kB'']"

lemma demo_memory: "ram_mib demo_meminfo = Some 2930"
proof -
  let ?l = "''MemTotal: 3000000 kB''"
  have "str_lines (unlines [?l]) = [?l]"
  proof -
    have "nl \<noteq> c" if "32 \<le> (of_char c :: nat)" for c using that by (auto simp: nl_def)
    then have "nl \<notin> set ?l" by auto
    moreover have "last ?l \<noteq> cr" by code_simp
    ultimately show ?thesis by (intro str_lines_unlines) (simp add: line_ok_def)
  qed
  moreover have "first_word '' 3000000 kB'' = Some ''3000000''"
  proof -
    have "split_ws (CHR '' '' # ''3000000'' @ CHR '' '' # ''kB'') = ''3000000'' # split_ws ''kB''"
      using split_ws_word [of "''3000000''" "''kB''"]
      by (simp add: split_ws.simps [of "CHR '' '' # _"] drop_any_space split_ws.simps [symmetric] plain_def)
    then show ?thesis by (simp add: first_word_def)
  qed
  moreover have "parse_u64 ''3000000'' = Some 3000000"
    by (simp add: parse_u64_def parse_below_def digits_val_def digit_val_def is_digit_def)
  moreover have "strip_prefix ''MemTotal:'' ?l = Some '' 3000000 kB''" by (simp add: strip_prefix_def starts_with_def)
  ultimately show ?thesis unfolding ram_mib_def demo_meminfo_def by (simp add: div_ceil_def)
qed

theorem proposed_size_holds_the_memory_witness:
  "\<exists>r. ram_mib demo_meminfo = Some r \<and> unat r \<le> unat (3072 :: u64) \<and>
    unat (3072 :: u64) < unat r + 1024 \<and> unat (3072 :: u64) mod 1024 = 0 \<and>
    hib_warnings 3072 (ram_mib demo_meminfo) True = []"
  by (rule proposed_size_holds_the_memory)
    (simp add: default_size_mib_def demo_memory round_up_gib_def div_ceil_def)

section \<open>Turning it off gives the fstab back\<close>

lemma edges_trimmed: "visible c \<Longrightarrow> visible d \<Longrightarrow> trimmed (c # s @ [d])"
proof -
  assume c: "visible c" and d: "visible d"
  have "\<forall>w \<in> set (map rev spaces). d \<notin> set w" using d by (auto simp: visible_def)
  then have "\<not> space_first (map rev spaces) (rev (s @ [d]))"
    using space_first_visible [of "map rev spaces" d "[]" "rev s"] by simp
  then show ?thesis using trimmed_visible [OF c, of "[]" "s @ [d]"] by simp
qed

lemma visible_code: "32 < (of_char c :: nat) \<Longrightarrow> (of_char c :: nat) < 128 \<Longrightarrow> visible c"
  using plain_visible [of "[c]" c] by (simp add: plain_def)

lemma trimmed_text: "s \<noteq> [] \<Longrightarrow> plain [hd s, last s] \<Longrightarrow> trim s = s"
proof (cases s)
  case (Cons c t)
  assume p: "plain [hd s, last s]"
  then have v: "visible (hd s)" "visible (last s)" by (simp_all add: plain_def visible_code)
  show ?thesis
  proof (cases t rule: rev_cases)
    case Nil
    then show ?thesis using v Cons trimmed_visible [of c "[]" "[]"] by simp
  next
    case (snoc u d)
    then show ?thesis using v Cons edges_trimmed [of c d u] by simp
  qed
qed simp

lemma sentinels: "trim fstab_open = fstab_open" "trim fstab_close = fstab_close" "fstab_open \<noteq> fstab_close"
  "line_ok fstab_open" "line_ok fstab_close" "fstab_open \<noteq> []"
proof -
  show "trim fstab_open = fstab_open" "trim fstab_close = fstab_close"
    by (simp_all add: trimmed_text fstab_open_def fstab_close_def plain_def)
  show "fstab_open \<noteq> fstab_close" "fstab_open \<noteq> []" by (simp_all add: fstab_open_def fstab_close_def)
  show "line_ok fstab_open" "line_ok fstab_close" by code_simp+
qed

lemma body_trimmed: "l \<in> set (fstab_body fs_uuid) \<Longrightarrow> trim l = l"
proof (rule trimmed_text)
  assume "l \<in> set (fstab_body fs_uuid)"
  then show "l \<noteq> []" "plain [hd l, last l]" by (auto simp: fstab_body_def plain_def)
qed

lemma body_quiet:
  assumes "l \<in> set (fstab_body fs_uuid)"
  shows "trim l \<noteq> fstab_open \<and> trim l \<noteq> fstab_close"
proof -
  have "trim l = l" using assms by (rule body_trimmed)
  with assms show ?thesis by (auto simp: fstab_body_def fstab_open_def fstab_close_def)
qed

lemma body_ok:
  assumes "nl \<notin> set fs_uuid" "l \<in> set (fstab_body fs_uuid)"
  shows "line_ok l"
proof -
  have nls: "nl \<noteq> c" if "32 \<le> (of_char c :: nat)" for c using that by (auto simp: nl_def)
  have "nl \<notin> set l" using assms nls by (auto simp: fstab_body_def)
  moreover have "trimmed l" using trimmed_trim [of l] body_trimmed [OF assms(2)] by simp
  ultimately show ?thesis using trimmed_no_cr [of l] by (auto simp: line_ok_def)
qed

lemma step_out: "trim l \<noteq> fstab_open \<Longrightarrow> strip_step (out, False) l = (out @ l @ [nl], False)"
  by (simp add: strip_step_def)

lemma fold_out:
  "\<forall>l \<in> set ls. trim l \<noteq> fstab_open \<Longrightarrow> foldl strip_step (out, False) ls = (out @ unlines ls, False)"
  by (induction ls arbitrary: out) (simp_all add: step_out)

lemma fold_in:
  "\<forall>l \<in> set ls. trim l \<noteq> fstab_open \<and> trim l \<noteq> fstab_close \<Longrightarrow> foldl strip_step (out, True) ls = (out, True)"
  by (induction ls) (simp_all add: strip_step_def)

lemma pop_one: "c \<noteq> nl \<Longrightarrow> rev (pop_blank (rev (s @ [c, nl, nl]))) = s @ [c, nl]"
  by simp

text \<open>
  Taking the block out of an fstab it was put into gives back every line before and after it,
  and nothing else: the file as it was, where it did not end in a blank line before.
\<close>

theorem strip_takes_back_the_block:
  assumes "\<forall>l \<in> set (before @ after). line_ok l \<and> trim l \<noteq> fstab_open"
    and "before \<noteq> []" "last before \<noteq> []" "nl \<notin> set fs_uuid"
  shows "strip_fstab (unlines before @ fstab_lines fs_uuid @ unlines after) = unlines (before @ after)"
proof -
  let ?block = "fstab_open # fstab_body fs_uuid @ [fstab_close]"
  let ?ls = "before @ [] # ?block @ after"
  have "\<forall>l \<in> set ?ls. line_ok l"
    using assms(1) body_ok [OF assms(4)] sentinels by (auto simp: line_ok_def)
  then have lines: "str_lines (unlines before @ fstab_lines fs_uuid @ unlines after) = ?ls"
    using str_lines_unlines [of ?ls] by (simp add: fstab_lines_def)
  obtain ls s c where "before = ls @ [s @ [c]]"
    using assms(2,3) by (metis append_butlast_last_id)
  with assms(1) have shape: "unlines before = (unlines ls @ s) @ [c, nl]" "c \<noteq> nl"
    by (auto simp: line_ok_def)
  have "foldl strip_step ([], False) (before @ [[]]) = ((unlines ls @ s) @ [c, nl, nl], False)"
    using assms(1) sentinels(6) fold_out [of "before @ [[]]" "[]"] shape(1) trim_empty by auto
  then have "foldl strip_step ([], False) ((before @ [[]]) @ [fstab_open]) = (unlines before, True)"
    using pop_one [OF shape(2), of "unlines ls @ s"] sentinels(1) shape(1)
    unfolding foldl_append by (simp add: strip_step_def)
  then have "foldl strip_step ([], False) ((before @ [[]]) @ ?block) = (unlines before, False)"
    using fold_in [of "fstab_body fs_uuid" "unlines before"] body_quiet sentinels(2,3)
    by (simp add: strip_step_def)
  then show ?thesis
    using fold_out [of after "unlines before"] assms(1) by (simp add: strip_fstab_def lines)
qed

theorem strip_takes_back_the_block_witness:
  "strip_fstab (unlines [''a''] @ fstab_lines ''b'' @ unlines [''c'']) = unlines [''a'', ''c'']"
proof -
  have "line_ok ''a''" "line_ok ''c''" "trim ''a'' = ''a''" "trim ''c'' = ''c''"
    by (simp_all add: plain_line plain_trimmed plain_def)
  moreover have "nl \<notin> set ''b''" using plain_nl [of "''b''"] by (simp add: plain_def)
  ultimately show ?thesis
    using strip_takes_back_the_block [of "[''a'']" "[''c'']" "''b''"] by (simp add: fstab_open_def)
qed

text \<open>
  A block whose closing line is missing takes every line below it along, whoever wrote it.
\<close>

theorem unclosed_block_takes_the_rest:
  assumes "\<forall>l \<in> set (before @ after). line_ok l \<and> trim l \<noteq> fstab_open \<and> trim l \<noteq> fstab_close"
    and "before \<noteq> []" "last before \<noteq> []"
  shows "strip_fstab (unlines (before @ [fstab_open] @ after)) = unlines before"
proof -
  obtain ls s c where "before = ls @ [s @ [c]]"
    using assms(2,3) by (metis append_butlast_last_id)
  with assms(1) have shape: "unlines before = (unlines ls @ s) @ [c, nl]" "c \<noteq> nl"
    by (auto simp: line_ok_def)
  have "str_lines (unlines (before @ [fstab_open] @ after)) = before @ [fstab_open] @ after"
    using assms(1) sentinels by (intro str_lines_unlines) auto
  moreover have "foldl strip_step ([], False) before = (unlines before, False)"
    using fold_out [of before "[]"] assms(1) by simp
  moreover have "rev (pop_blank (rev (unlines before))) = unlines before" using shape by simp
  ultimately show ?thesis
    using fold_in [of after "unlines before"] assms(1) sentinels(1)
    by (simp add: strip_fstab_def) (simp add: strip_step_def)
qed

theorem unclosed_block_takes_the_rest_witness:
  "strip_fstab (unlines ([''a''] @ [fstab_open] @ [''c''])) = unlines [''a'']"
proof -
  have "line_ok ''a''" "line_ok ''c''" "trim ''a'' = ''a''" "trim ''c'' = ''c''"
    by (simp_all add: plain_line plain_trimmed plain_def)
  then show ?thesis
    using unclosed_block_takes_the_rest [of "[''a'']" "[''c'']"] by (simp add: fstab_open_def fstab_close_def)
qed

section \<open>The grading\<close>

lemma verdict_of_if:
  "verdict_of s =
     (case st_file_offset s of
        None \<Rightarrow> if st_resume s = None \<and> st_resume_offset s = None then NotSet
          else if st_present s \<and> \<not> st_asked s then Unasked else Broken FileMissingOrUnusable
      | Some actual \<Rightarrow> if st_resume s = None \<and> st_resume_offset s = None then Broken NothingNamesTheFile
          else grade_claimed s actual)"
  by (auto simp: verdict_of_def split: bool.split option.split)

lemma label_fine:
  "label_fault s = None \<longleftrightarrow> st_selinux_type s = None \<or>
     st_selinux_type s = Some swapfile_type \<and> st_mount_selinux_type s \<notin> {None, Some ''unlabeled_t''}"
  by (cases "st_selinux_type s"; cases "st_mount_selinux_type s") (auto simp: label_fault_def)

lemma grade_ready:
  "grade_claimed s actual = Ready m \<longleftrightarrow>
     st_resume_offset s = Some actual \<and> st_active s \<and> label_fault s = None \<and> st_kernel_allows s \<and> m = st_file_mib s \<and>
     \<not> (\<exists>file ram. st_file_mib s = Some file \<and> st_ram_mib s = Some ram \<and> file < ram)"
  by (cases "st_resume_offset s"; cases "label_fault s"; cases "st_file_mib s"; cases "st_ram_mib s")
    (auto simp: grade_claimed_def)


text \<open>
  \<open>Broken\<close> is never said of the file being absent when the privileged reading did not run: a
  machine that claims to resume, has the file and could not be asked is \<open>Unasked\<close>.
\<close>

theorem unasked_is_not_broken:
  assumes "st_present s" "\<not> st_asked s" "st_file_offset s = None"
  shows "verdict_of s = Unasked \<or> verdict_of s = NotSet"
  using assms by (auto simp: verdict_of_if)

definition no_status :: status where
  "no_status = \<lparr>st_resume = None, st_resume_offset = None, st_file_offset = None, st_file_mib = None, st_active = False,
     st_swaps_file_mib = None, st_ram_mib = None, st_kernel_allows = False, st_lockdown = None, st_present = False,
     st_asked = False, st_selinux_type = None, st_mount_selinux_type = None, st_lid_dropin = False\<rparr>"

theorem unasked_is_not_broken_witness:
  "verdict_of (no_status\<lparr>st_present := True, st_resume := Some ''UUID=a''\<rparr>) = Unasked \<or>
   verdict_of (no_status\<lparr>st_present := True, st_resume := Some ''UUID=a''\<rparr>) = NotSet"
  by (rule unasked_is_not_broken) (simp_all add: no_status_def)

text \<open>
  The grading never looks for \<open>resume=\<close> itself where \<open>resume_offset=\<close> is there: a machine whose
  command line names no file system to resume from is graded ready when the offset matches.
\<close>

theorem ready_without_resume:
  "verdict_of (no_status\<lparr>st_resume_offset := Some 533760, st_file_offset := Some 533760, st_file_mib := Some 16384,
     st_ram_mib := Some 16000, st_active := True, st_kernel_allows := True, st_present := True, st_asked := True\<rparr>) =
   Ready (Some 16384)"
  by (simp add: verdict_of_def grade_claimed_def label_fault_def no_status_def)

text \<open>
  The lid is graded against a hibernation that works: \<open>Ok\<close> only where the machine is ready.
\<close>

theorem lid_ok_only_when_ready:
  "lid_verdict_of (verdict_of s) lid = LidOk \<longleftrightarrow> lid \<and> (\<exists>m. verdict_of s = Ready m)"
  by (auto simp: lid_verdict_of_def split: verdict.splits if_splits)

end
