(* ===== verification/Partition.thy ===== *)
theory Partition
  imports Hibernate
begin

text \<open>
  The partition layout, \<open>src/partition.rs\<close>: the sizes an install can name, the room left for a
  swapfile, the plan, the table it writes and the tools it needs. Sums are the 64-bit sums of the
  release build, which wrap.
\<close>

section \<open>Sizes\<close>

definition esp_mib :: u64 where "esp_mib = 600"
definition boot_mib :: u64 where "boot_mib = 2048"
definition min_esp_mib :: u64 where "min_esp_mib = 256"
definition min_boot_mib :: u64 where "min_boot_mib = 1024"
definition min_disk_gib :: u64 where "min_disk_gib = 16"
definition min_root_mib :: u64 where "min_root_mib = min_disk_gib * 1024 - esp_mib - boot_mib"

record sizes =
  sz_esp_mib :: u64
  sz_boot_mib :: u64

definition default_sizes :: sizes where
  "default_sizes = \<lparr>sz_esp_mib = esp_mib, sz_boot_mib = boot_mib\<rparr>"

datatype which_size = WhichEsp | WhichBoot

datatype layout_error =
    BadSize which_size size_error | CannotBeNone which_size | BelowFloor which_size u64 | DiskTooSmall u64 sizes u64

definition resolve_one :: "string \<Rightarrow> which_size \<Rightarrow> u64 \<Rightarrow> layout_error + u64" where
  "resolve_one txt what floor_mib =
     (case parse_mib txt of
        Inl e \<Rightarrow> Inl (BadSize what e)
      | Inr None \<Rightarrow> Inl (CannotBeNone what)
      | Inr (Some mib) \<Rightarrow> if mib < floor_mib then Inl (BelowFloor what floor_mib) else Inr mib)"

fun resolve_size :: "string \<Rightarrow> which_size \<Rightarrow> layout_error + u64" where
  "resolve_size txt WhichEsp = resolve_one txt WhichEsp min_esp_mib"
| "resolve_size txt WhichBoot = resolve_one txt WhichBoot min_boot_mib"

definition resolve_sizes :: "string option \<Rightarrow> string option \<Rightarrow> layout_error + sizes" where
  "resolve_sizes esp boot =
     (case (case esp of Some txt \<Rightarrow> resolve_size txt WhichEsp | None \<Rightarrow> Inr esp_mib) of
        Inl e \<Rightarrow> Inl e
      | Inr e \<Rightarrow>
          (case (case boot of Some txt \<Rightarrow> resolve_size txt WhichBoot | None \<Rightarrow> Inr boot_mib) of
             Inl err \<Rightarrow> Inl err
           | Inr b \<Rightarrow> Inr \<lparr>sz_esp_mib = e, sz_boot_mib = b\<rparr>))"

definition minimum_mib :: "sizes \<Rightarrow> u64" where
  "minimum_mib sizes = min_root_mib + sz_esp_mib sizes + sz_boot_mib sizes"

definition spare_mib :: "u64 \<Rightarrow> sizes \<Rightarrow> u64" where
  "spare_mib disk_mib sizes = sat_sub disk_mib (minimum_mib sizes)"

section \<open>The plan\<close>

record partition =
  pt_label :: string
  pt_size_mib :: "u64 option"
  pt_type_code :: string
  pt_purpose :: string

definition plan_partitions :: "u64 \<Rightarrow> bool \<Rightarrow> sizes \<Rightarrow> layout_error + partition list" where
  "plan_partitions disk_bytes encrypt sizes =
     (let disk_mib = disk_bytes div (1024 * 1024)
      in if disk_mib < minimum_mib sizes then Inl (DiskTooSmall disk_bytes sizes (minimum_mib sizes))
         else Inr
           [\<lparr>pt_label = ''EFI-SYSTEM'', pt_size_mib = Some (sz_esp_mib sizes), pt_type_code = ''uefi'',
              pt_purpose = ''bootloader, read by the firmware''\<rparr>,
            \<lparr>pt_label = ''boot'', pt_size_mib = Some (sz_boot_mib sizes), pt_type_code = ''linux'',
              pt_purpose = ''kernels and initramfs, outside any encryption''\<rparr>,
            \<lparr>pt_label = ''root'', pt_size_mib = None, pt_type_code = ''linux'',
              pt_purpose = (if encrypt then ''LUKS, holding a btrfs root'' else ''btrfs root'')\<rparr>])"

text \<open>The lines \<open>sfdisk\<close> is given for the plan, from \<open>format_script\<close>.\<close>

definition table_line :: "partition \<Rightarrow> string" where
  "table_line p =
     (case pt_size_mib p of Some mib \<Rightarrow> ''size='' @ show_u64 mib @ ''MiB, '' | None \<Rightarrow> []) @
     ''type='' @ pt_type_code p @ '', name='' @ [CHR 0x22] @ pt_label p @ [CHR 0x22]"

definition partition_table :: "partition list \<Rightarrow> string list" where
  "partition_table plan = ''label: gpt'' # map table_line plan"

text \<open>The tools that are missing: \<open>there\<close> says whether a path exists.\<close>

definition missing_tools :: "(string \<Rightarrow> bool) \<Rightarrow> (string \<times> string) list \<Rightarrow> string list \<Rightarrow> string list" where
  "missing_tools there required dirs =
     map (\<lambda>(tool, package). tool @ ''  (dnf install '' @ package @ '')'')
       (filter (\<lambda>(tool, package). \<not> list_ex (\<lambda>d. there (d @ ''/'' @ tool)) dirs) required)"

section \<open>What a plan promises\<close>

text \<open>Sizes of partitions as people name them: far below where a 64-bit sum wraps.\<close>

definition sane :: "sizes \<Rightarrow> bool" where
  "sane sizes \<longleftrightarrow> unat (sz_esp_mib sizes) + unat (sz_boot_mib sizes) < 2 ^ 63"

lemma min_root: "unat min_root_mib = 13736"
  by (simp add: min_root_mib_def min_disk_gib_def esp_mib_def boot_mib_def)

lemma minimum_exact: "sane sizes \<Longrightarrow> unat (minimum_mib sizes) = 13736 + unat (sz_esp_mib sizes) + unat (sz_boot_mib sizes)"
  using u64_plus_no_wrap [of min_root_mib "sz_esp_mib sizes"]
    u64_plus_no_wrap [of "min_root_mib + sz_esp_mib sizes" "sz_boot_mib sizes"]
  by (simp add: sane_def minimum_mib_def min_root)

lemma resolved_one: "resolve_one txt what floor_mib = Inr mib \<Longrightarrow> floor_mib \<le> mib"
  by (auto simp: resolve_one_def split: sum.splits option.splits if_splits)

text \<open>
  Sizes that resolve are at or above their floors, and a size that was not named is the default.
\<close>

theorem resolved_sizes_clear_their_floors:
  assumes "resolve_sizes esp boot = Inr sizes"
  shows "min_esp_mib \<le> sz_esp_mib sizes \<and> min_boot_mib \<le> sz_boot_mib sizes \<and>
    (if esp = None then sz_esp_mib sizes = esp_mib else True) \<and> (if boot = None then sz_boot_mib sizes = boot_mib else True)"
proof -
  obtain e where e: "(case esp of Some txt \<Rightarrow> resolve_size txt WhichEsp | None \<Rightarrow> Inr esp_mib) = Inr e"
    using assms by (auto simp: resolve_sizes_def split: sum.splits)
  moreover from assms e obtain b where b: "(case boot of Some txt \<Rightarrow> resolve_size txt WhichBoot | None \<Rightarrow> Inr boot_mib) = Inr b"
    and "sizes = \<lparr>sz_esp_mib = e, sz_boot_mib = b\<rparr>" by (auto simp: resolve_sizes_def split: sum.splits)
  moreover have "min_esp_mib \<le> e"
    using e resolved_one by (cases esp) (auto simp: min_esp_mib_def esp_mib_def)
  moreover have "min_boot_mib \<le> b"
    using b resolved_one by (cases boot) (auto simp: min_boot_mib_def boot_mib_def)
  ultimately show ?thesis by auto
qed



text \<open>
  An absurd size wraps the sum: an ESP typed with more than eighteen quintillion mebibytes is
  accepted, and the plan lays it out on a disk of sixteen gibibytes.
\<close>

theorem huge_size_is_laid_out:
  "resolve_sizes (Some (show_u64 18446744073709551615 @ ''M'')) None =
     Inr \<lparr>sz_esp_mib = 18446744073709551615, sz_boot_mib = boot_mib\<rparr> \<and>
   (\<exists>ps. plan_partitions 17179869184 False \<lparr>sz_esp_mib = 18446744073709551615, sz_boot_mib = boot_mib\<rparr> = Inr ps \<and>
      pt_size_mib (hd ps) = Some 18446744073709551615)"
  using typed_size_read [of 18446744073709551615]
  by (simp add: resolve_sizes_def resolve_one_def min_esp_mib_def plan_partitions_def minimum_mib_def
    min_root_mib_def min_disk_gib_def esp_mib_def boot_mib_def)

theorem resolved_sizes_clear_their_floors_witness:
  "min_esp_mib \<le> (512 :: u64) \<and> min_boot_mib \<le> boot_mib \<and>
    (if Some (show_u64 512 @ ''M'') = None then (512 :: u64) = esp_mib else True) \<and>
    (if (None :: string option) = None then boot_mib = boot_mib else True)"
proof -
  have "resolve_sizes (Some (show_u64 512 @ ''M'')) None = Inr \<lparr>sz_esp_mib = 512, sz_boot_mib = boot_mib\<rparr>"
    using typed_size_read [of 512] by (simp add: resolve_sizes_def resolve_one_def min_esp_mib_def)
  from resolved_sizes_clear_their_floors [OF this] show ?thesis by simp
qed

text \<open>
  Encryption changes what goes into the third partition and nothing about the disk: both
  installs are refused or accepted alike and write the same partition table.
\<close>

theorem encryption_keeps_the_layout:
  "map_sum id partition_table (plan_partitions disk_bytes True sizes) =
   map_sum id partition_table (plan_partitions disk_bytes False sizes)"
  by (simp add: plan_partitions_def Let_def partition_table_def table_line_def)

end
