(* ===== verification/Calendar.thy ===== *)
theory Calendar
  imports Text_Numbers
begin

text \<open>
  The timestamp of the lock file, \<open>rfc3339\<close> in \<open>src/lock.rs\<close>: the closed formula for a date from
  a number of days is the calendar that goes from one day to the next. The code's 64-bit signed
  numbers are natural numbers here: no day of a 64-bit count of seconds is near their bounds.
\<close>

section \<open>The formula\<close>

definition civil_from_days :: "nat \<Rightarrow> nat \<times> nat \<times> nat" where
  "civil_from_days days =
     (let z = days + 719468;
          era = z div 146097;
          doe = z mod 146097;
          yoe = (doe - doe div 1460 + doe div 36524 - doe div 146096) div 365;
          y = yoe + era * 400;
          doy = doe - (365 * yoe + yoe div 4 - yoe div 100);
          mp = (5 * doy + 2) div 153;
          d = doy - (153 * mp + 2) div 5 + 1;
          m = (if mp < 10 then mp + 3 else mp - 9)
      in (if m \<le> 2 then y + 1 else y, m, d))"

definition rfc3339 :: "u64 \<Rightarrow> string" where
  "rfc3339 secs =
     (let days = unat secs div 86400; rem = unat secs mod 86400
      in case civil_from_days days of (y, m, d) \<Rightarrow>
           show_padded 4 y @ ''-'' @ show_padded 2 m @ ''-'' @ show_padded 2 d @ ''T'' @
           show_padded 2 (rem div 3600) @ '':'' @ show_padded 2 (rem mod 3600 div 60) @ '':'' @
           show_padded 2 (rem mod 60) @ ''Z'')"

section \<open>The calendar\<close>

definition leap :: "nat \<Rightarrow> bool" where
  "leap y \<longleftrightarrow> y mod 4 = 0 \<and> (y mod 100 \<noteq> 0 \<or> y mod 400 = 0)"

definition month_length :: "nat \<Rightarrow> nat \<Rightarrow> nat" where
  "month_length y m =
     (if m = 2 then (if leap y then 29 else 28) else if m \<in> {4, 6, 9, 11} then 30 else 31)"

fun next_day :: "nat \<times> nat \<times> nat \<Rightarrow> nat \<times> nat \<times> nat" where
  "next_day (y, m, d) =
     (if d < month_length y m then (y, m, d + 1)
      else if m < 12 then (y, m + 1, 1) else (y + 1, 1, 1))"

section \<open>Years that begin in March\<close>

text \<open>The days before a year, counted from a first of March, so that a leap day ends its year.\<close>

definition before_year :: "nat \<Rightarrow> nat" where
  "before_year y = 365 * y + y div 4 - y div 100 + y div 400"

definition year_length :: "nat \<Rightarrow> nat" where
  "year_length y = (if leap (y + 1) then 366 else 365)"

lemma div_Suc_if: "0 < n \<Longrightarrow> Suc y div n = y div n + (if Suc y mod n = 0 then 1 else 0)" for n :: nat
  by (auto simp: div_Suc)

lemma before_year_Suc: "before_year (y + 1) = before_year y + year_length y"
proof -
  define a b c where abc: "a = y div 4" "b = y div 100" "c = y div 400"
  have le: "b \<le> a" unfolding abc by (rule div_le_mono2) simp_all
  have d: "Suc y mod 100 = 0 \<Longrightarrow> Suc y mod 4 = 0" "Suc y mod 400 = 0 \<Longrightarrow> Suc y mod 100 = 0"
    by (auto simp: mod_eq_0_iff_dvd intro: dvd_trans [of _ 100] dvd_trans [of _ 400])
  have now: "before_year y = 365 * y + a - b + c" by (simp add: before_year_def abc)
  have f: "Suc y div 4 = y div 4 + (if Suc y mod 4 = 0 then 1 else 0)"
    "Suc y div 100 = y div 100 + (if Suc y mod 100 = 0 then 1 else 0)"
    "Suc y div 400 = y div 400 + (if Suc y mod 400 = 0 then 1 else 0)"
    using div_Suc_if by auto
  have "before_year (y + 1) = 365 * Suc y + (a + (if Suc y mod 4 = 0 then 1 else 0)) -
      (b + (if Suc y mod 100 = 0 then 1 else 0)) + (c + (if Suc y mod 400 = 0 then 1 else 0))"
    by (simp only: before_year_def abc Suc_eq_plus1 [symmetric] f)
  moreover have "leap (y + 1) \<longleftrightarrow> Suc y mod 4 = 0 \<and> (Suc y mod 100 \<noteq> 0 \<or> Suc y mod 400 = 0)"
    by (simp add: leap_def)
  ultimately show ?thesis
    using le d unfolding now year_length_def
    by (cases "Suc y mod 4 = 0"; cases "Suc y mod 100 = 0"; cases "Suc y mod 400 = 0") simp_all
qed

lemma year_length_pos: "365 \<le> year_length y" "year_length y \<le> 366"
  by (simp_all add: year_length_def)

lemma before_year_mono: "y \<le> y' \<Longrightarrow> before_year y \<le> before_year y'"
  by (induction rule: dec_induct) (auto simp: before_year_Suc [simplified])

text \<open>A day lies in one year only.\<close>

lemma year_unique:
  assumes "before_year y \<le> z" "z < before_year (y + 1)" "before_year y' \<le> z" "z < before_year (y' + 1)"
  shows "y = y'"
proof (rule ccontr)
  assume "y \<noteq> y'"
  then consider "y + 1 \<le> y'" | "y' + 1 \<le> y" by linarith
  then show False using assms before_year_mono [of "y + 1" y'] before_year_mono [of "y' + 1" y] by cases auto
qed

section \<open>The formula finds the year\<close>

text \<open>Within a cycle of four years, then within a century, then within an era.\<close>

lemma in_four_years:
  fixes s x :: nat
  assumes "s < 1461" "x \<le> 96"
  shows "\<exists>j. (s - (x + s) div 1460) div 365 = j \<and> j < 4 \<and> 365 * j \<le> s \<and> (s < 365 * (j + 1) \<or> j = 3 \<and> s = 1460)"
proof (cases "x + s < 1460")
  case True
  then have "(x + s) div 1460 = 0" by simp
  moreover have "s div 365 < 4 \<and> 365 * (s div 365) \<le> s \<and> s < 365 * (s div 365 + 1)"
    using True div_mult_mod_eq [of s 365] mod_less_divisor [of 365 s] by (simp add: less_mult_imp_div_less)
  ultimately show ?thesis by auto
next
  case False
  have "(x + s) div 1460 = 1" using False assms(1,2) by (intro div_nat_eqI) simp_all
  moreover have "(s - 1) div 365 = 3" using False assms by (intro div_nat_eqI) simp_all
  ultimately show ?thesis using False assms by (intro exI [of _ 3]) auto
qed

lemma in_century:
  fixes r c :: nat
  assumes c: "c \<le> 3" and r: "r < 36524 \<or> c = 3 \<and> r < 36525"
  shows "\<exists>y. (r - (24 * c + r) div 1460) div 365 = y \<and> y < 100 \<and> 365 * y + y div 4 \<le> r \<and>
    (r < 365 * (y + 1) + (y + 1) div 4 \<or> y = 99)"
proof -
  define k s where ks: "k = r div 1461" "s = r mod 1461"
  then have rk: "r = 1461 * k + s" "s < 1461" by simp_all
  have k: "k \<le> 24" using rk r by linarith
  define x where "x = 24 * c + k"
  have x: "x \<le> 96" using c k by (simp add: x_def)
  have "24 * c + r = (x + s) + k * 1460" by (simp add: rk x_def)
  then have q: "(24 * c + r) div 1460 = k + (x + s) div 1460" by simp
  obtain j where j: "(s - (x + s) div 1460) div 365 = j" "j < 4" "365 * j \<le> s"
    "s < 365 * (j + 1) \<or> j = 3 \<and> s = 1460"
    using in_four_years [OF rk(2) x] by auto
  have t: "(x + s) div 1460 \<le> s"
  proof (cases "x + s < 1460")
    case False
    then have "1364 \<le> s" using x by simp
    moreover have "(x + s) div 1460 < 2" using rk(2) x by (intro less_mult_imp_div_less) simp
    ultimately show ?thesis by simp
  qed simp
  have "r - (24 * c + r) div 1460 = (s - (x + s) div 1460) + 365 * (4 * k)"
    by (subst q) (use t rk in simp)
  then have y: "(r - (24 * c + r) div 1460) div 365 = 4 * k + j"
    using j(1) by (simp only: div_mult_self2 zero_neq_numeral [symmetric] not_False_eq_True)
  have d: "(4 * k + j) div 4 = k" using j(2) by simp
  have d1: "(4 * k + j + 1) div 4 = (if j = 3 then k + 1 else k)" using j(2) by (auto simp: div_Suc mod_Suc)
  have "4 * k + j < 100" using k j(2) by linarith
  moreover have "365 * (4 * k + j) + (4 * k + j) div 4 \<le> r" using j(3) by (simp add: d rk)
  moreover have "r < 365 * (4 * k + j + 1) + (4 * k + j + 1) div 4"
    using j(4) by (auto simp: d1 rk)
  ultimately show ?thesis using y by blast
qed

text \<open>The days before a year of an era of four hundred years.\<close>

lemma century_correction:
  fixes c r :: nat
  assumes c: "c \<le> 3" and r: "r < 36524 \<or> c = 3 \<and> r < 36525"
  defines "doe \<equiv> 36524 * c + r"
  shows "doe - doe div 1460 + doe div 36524 - doe div 146096 =
    36500 * c + (r - (24 * c + r) div 1460)"
proof -
  have a: "doe div 1460 = 25 * c + (24 * c + r) div 1460"
  proof -
    have "doe = (24 * c + r) + (25 * c) * 1460" by (simp add: doe_def)
    then show ?thesis by simp
  qed
  have le: "(24 * c + r) div 1460 \<le> r"
  proof (cases "24 * c + r < 1460")
    case False
    then have "1388 \<le> r" using c by simp
    moreover have "(24 * c + r) div 1460 < 27" using c r by (intro less_mult_imp_div_less) auto
    ultimately show ?thesis by simp
  qed simp
  show ?thesis
  proof (cases "doe = 146096")
    case True
    then have "c = 3" "r = 36524" using c r by (auto simp: doe_def)
    then show ?thesis by (simp add: doe_def)
  next
    case False
    then have "doe < 146096" using c r by (auto simp: doe_def)
    moreover have "r < 36524" using False c r by (auto simp: doe_def)
    then have "doe div 36524 = c" by (simp add: doe_def)
    ultimately show ?thesis using a le False \<open>r < 36524\<close> by (simp add: doe_def)
  qed
qed

definition year_of_era :: "nat \<Rightarrow> nat" where
  "year_of_era doe = (doe - doe div 1460 + doe div 36524 - doe div 146096) div 365"

lemma in_era:
  assumes "doe < 146097"
  shows "before_year (year_of_era doe) \<le> doe" "doe < before_year (year_of_era doe + 1)" "year_of_era doe < 400"
proof -
  define c r where cr: "c = min 3 (doe div 36524)" "r = doe - 36524 * c"
  have le: "36524 * c \<le> doe"
  proof -
    have "36524 * c \<le> 36524 * (doe div 36524)" by (simp add: cr)
    also have "\<dots> \<le> doe" by simp
    finally show ?thesis .
  qed
  then have doe: "doe = 36524 * c + r" by (simp add: cr)
  have c: "c \<le> 3" by (simp add: cr)
  have r: "r < 36524 \<or> c = 3 \<and> r < 36525"
  proof (cases "doe div 36524 \<le> 3")
    case True
    then have "r = doe mod 36524" by (simp add: cr minus_mult_div_eq_mod)
    then show ?thesis by simp
  next
    case False
    then have "c = 3" by (simp add: cr min_def)
    then show ?thesis using assms doe by linarith
  qed
  obtain y where y: "(r - (24 * c + r) div 1460) div 365 = y" "y < 100" "365 * y + y div 4 \<le> r"
    "r < 365 * (y + 1) + (y + 1) div 4 \<or> y = 99"
    using in_century [OF c r] by auto
  have sw: "36500 * c + q = q + 365 * (100 * c)" for q by simp
  have "doe - doe div 1460 + doe div 36524 - doe div 146096 = (r - (24 * c + r) div 1460) + 365 * (100 * c)"
    using century_correction [OF c r, folded doe] by (rule trans) (rule sw)
  then have e: "year_of_era doe = y + 100 * c"
    using y(1) by (simp only: year_of_era_def div_mult_self2)
  have b: "before_year (y + 100 * c) = 36524 * c + 365 * y + y div 4"
  proof -
    have "y + 100 * c < 400" using y(2) c by linarith
    moreover have "(y + 100 * c) div 4 = 25 * c + y div 4"
      using div_mult_self1 [of 4 y "25 * c"] by (simp add: mult.commute)
    ultimately show ?thesis using y(2) by (simp add: before_year_def)
  qed
  show "before_year (year_of_era doe) \<le> doe" unfolding e b using y(3) doe by linarith
  show "year_of_era doe < 400" unfolding e using y(2) c by linarith
  show "doe < before_year (year_of_era doe + 1)"
  proof (cases "y = 99")
    case True
    have "before_year (100 * (c + 1)) = 36524 * (c + 1) + (c + 1) div 4" by (simp add: before_year_def)
    moreover have "year_of_era doe + 1 = 100 * (c + 1)" by (simp add: e True)
    ultimately show ?thesis using r c assms doe by (auto simp: le_Suc_eq)
  next
    case False
    then have "y + 1 < 100" using y(2) by simp
    have "(y + 1 + 100 * c) div 4 = 25 * c + (y + 1) div 4"
      using div_mult_self1 [of 4 "y + 1" "25 * c"] by (simp add: mult.commute)
    moreover have "y + 1 + 100 * c < 400" using \<open>y + 1 < 100\<close> c by linarith
    moreover have "(y + 1 + 100 * c) div 100 = c" using \<open>y + 1 < 100\<close> by (intro div_nat_eqI) simp_all
    ultimately have "before_year (y + 1 + 100 * c) = 36524 * c + 365 * (y + 1) + (y + 1) div 4"
      by (simp add: before_year_def)
    moreover have "year_of_era doe + 1 = y + 1 + 100 * c" by (simp add: e)
    ultimately show ?thesis using y(4) False doe by simp
  qed
qed

section \<open>The formula is the calendar\<close>

definition march_year :: "nat \<Rightarrow> nat" where
  "march_year z = year_of_era (z mod 146097) + z div 146097 * 400"

definition month_day :: "nat \<Rightarrow> nat \<times> nat" where
  "month_day doy =
     (let mp = (5 * doy + 2) div 153
      in (if mp < 10 then mp + 3 else mp - 9, doy - (153 * mp + 2) div 5 + 1))"

definition of_march :: "nat \<Rightarrow> nat \<Rightarrow> nat \<times> nat \<times> nat" where
  "of_march y doy = (case month_day doy of (m, d) \<Rightarrow> (if m \<le> 2 then y + 1 else y, m, d))"

lemma before_year_era: "before_year (y + e * 400) = e * 146097 + before_year y"
proof -
  define a b c where abc: "a = y div 4" "b = y div 100" "c = y div 400"
  have le: "b \<le> a" unfolding abc by (rule div_le_mono2) simp_all
  have "(y + e * 400) div 4 = 100 * e + a" "(y + e * 400) div 100 = 4 * e + b" "(y + e * 400) div 400 = e + c"
    using div_mult_self2 [of 4 y "100 * e"] div_mult_self2 [of 100 y "4 * e"] div_mult_self2 [of 400 y e]
    by (simp_all add: abc mult.commute)
  then have "before_year (y + e * 400) = 365 * (y + e * 400) + (100 * e + a) - (4 * e + b) + (e + c)"
    by (simp only: before_year_def)
  moreover have "before_year y = 365 * y + a - b + c" by (simp add: before_year_def abc)
  ultimately show ?thesis using le by simp
qed

lemma march_year_holds: "before_year (march_year z) \<le> z" "z < before_year (march_year z + 1)"
proof -
  have doe: "z mod 146097 < 146097" by simp
  have z: "z = z div 146097 * 146097 + z mod 146097" by simp
  have y: "march_year z + 1 = (year_of_era (z mod 146097) + 1) + z div 146097 * 400" by (simp add: march_year_def)
  show "before_year (march_year z) \<le> z"
    using in_era(1) [OF doe] z by (simp only: march_year_def before_year_era)
  show "z < before_year (march_year z + 1)"
    using in_era(2) [OF doe] z by (simp only: y before_year_era)
qed

lemma march_year_eqI: "before_year y \<le> z \<Longrightarrow> z < before_year (y + 1) \<Longrightarrow> march_year z = y"
  by (rule year_unique [OF march_year_holds])

lemma civil_of_march:
  "civil_from_days n = of_march (march_year (n + 719468)) (n + 719468 - before_year (march_year (n + 719468)))"
proof -
  define z where "z = n + 719468"
  have doe: "z mod 146097 < 146097" by simp
  note y = in_era [OF doe]
  have b: "before_year (year_of_era (z mod 146097)) = 365 * year_of_era (z mod 146097) +
      year_of_era (z mod 146097) div 4 - year_of_era (z mod 146097) div 100"
    using y(3) by (simp add: before_year_def)
  have "z - before_year (march_year z) = z mod 146097 - before_year (year_of_era (z mod 146097))"
    using div_mult_mod_eq [of z 146097] y(1) by (simp only: march_year_def before_year_era) linarith
  then show ?thesis
    by (simp only: civil_from_days_def Let_def z_def [symmetric] year_of_era_def [symmetric] b [symmetric]
        march_year_def [symmetric] of_march_def month_day_def prod.case)
qed

text \<open>From one day of a year that begins in March to the next.\<close>

definition common_length :: "nat \<Rightarrow> nat" where
  "common_length m = (if m = 2 then 28 else if m \<in> {4, 6, 9, 11} then 30 else 31)"

definition steps_on :: "nat \<Rightarrow> bool" where
  "steps_on i =
     (case month_day i of (m, d) \<Rightarrow>
        (m = 2 \<longrightarrow> d < 28) \<and>
        month_day (i + 1) =
          (if d < common_length m then (m, d + 1)
           else if m < 12 then (m + 1, 1) else (1, 1)) \<and>
        m \<le> 12)"

lemma every_day_steps_on: "list_all steps_on [0..<364]"
proof -
  have "list_all steps_on ([0, 1] @ [2..<182])" "list_all steps_on [182..<364]"
    by (simp_all add: upt_rec_numeral steps_on_def month_day_def common_length_def)
  moreover have "[0..<364] = ([0, 1] @ [2..<182]) @ [182..<364]"
    using upt_add_eq_append [of 0 182 182] upt_conv_Cons [of 0 182] upt_conv_Cons [of 1 182] by (simp add: numeral_2_eq_2)
  ultimately show ?thesis by (simp only: list_all_append)
qed

lemma next_within_year:
  assumes "doy + 1 < year_length y"
  shows "next_day (of_march y doy) = of_march y (doy + 1)"
proof (cases "doy < 364")
  case True
  then have s: "steps_on doy" using every_day_steps_on by (simp add: list_all_iff)
  obtain m d where md: "month_day doy = (m, d)" by fastforce
  have nxt: "month_day (doy + 1) = (if d < common_length m then (m, d + 1) else if m < 12 then (m + 1, 1) else (1, 1))"
    and m: "m \<le> 12" and feb: "m = 2 \<Longrightarrow> d < 28"
    using s by (simp_all add: steps_on_def md)
  have len: "d < month_length y' m \<longleftrightarrow> d < common_length m" for y'
    using feb by (cases "m = 2") (simp_all add: month_length_def common_length_def)
  show ?thesis
  proof (cases "d < common_length m")
    case True
    then show ?thesis by (simp add: of_march_def md nxt [simplified] len)
  next
    case False
    then have "m \<noteq> 2" using feb by (auto simp: common_length_def)
    then have "m \<le> 2 \<longleftrightarrow> m + 1 \<le> 2" by auto
    then show ?thesis using False m by (auto simp: of_march_def md nxt [simplified] len)
  qed
next
  case False
  then have "doy = 364" "leap (y + 1)" using assms by (auto simp: year_length_def split: if_splits)
  moreover have "month_day 364 = (2, 28)" "month_day 365 = (2, 29)" by (simp_all add: month_day_def)
  ultimately show ?thesis by (simp add: of_march_def month_length_def)
qed

lemma next_year: "next_day (of_march y (year_length y - 1)) = of_march (y + 1) 0"
proof -
  have "month_day 364 = (2, 28)" "month_day 365 = (2, 29)" "month_day 0 = (3, 1)" by (simp_all add: month_day_def)
  then show ?thesis by (auto simp: of_march_def month_length_def year_length_def)
qed

lemma civil_from_days_Suc: "civil_from_days (n + 1) = next_day (civil_from_days n)"
proof -
  define z y where zy: "z = n + 719468" "y = march_year z"
  have y: "before_year y \<le> z" "z < before_year (y + 1)" using march_year_holds by (simp_all only: zy)
  have z: "n + 1 + 719468 = z + 1" by (simp add: zy)
  have now: "civil_from_days n = of_march y (z - before_year y)" by (simp only: civil_of_march zy)
  show ?thesis
  proof (cases "z + 1 < before_year (y + 1)")
    case True
    then have "march_year (z + 1) = y" using y(1) by (intro march_year_eqI) auto
    then have "civil_from_days (n + 1) = of_march y (z - before_year y + 1)"
      using y(1) by (simp only: civil_of_march z Nat.diff_add_assoc2)
    moreover have "z - before_year y + 1 < year_length y" using True y(1) by (simp only: before_year_Suc)
    ultimately show ?thesis by (simp only: now next_within_year)
  next
    case False
    then have e: "z + 1 = before_year (y + 1)" using y(2) by linarith
    then have "march_year (z + 1) = y + 1"
      using year_length_pos(1) [of "y + 1"] by (intro march_year_eqI) (simp_all only: before_year_Suc)
    then have "civil_from_days (n + 1) = of_march (y + 1) 0" by (simp only: civil_of_march z e diff_self_eq_0)
    moreover have "z - before_year y = year_length y - 1" using e y(1) by (simp only: before_year_Suc)
    ultimately show ?thesis by (simp only: now next_year)
  qed
qed

lemma civil_from_days_iterates: "civil_from_days n = (next_day ^^ n) (1970, 1, 1)"
proof (induction n)
  case 0
  show ?case by (simp add: civil_from_days_def Let_def)
next
  case (Suc n)
  then show ?case using civil_from_days_Suc [of n] by simp
qed

fun real_date :: "nat \<times> nat \<times> nat \<Rightarrow> bool" where
  "real_date (y, m, d) \<longleftrightarrow> 1 \<le> m \<and> m \<le> 12 \<and> 1 \<le> d \<and> d \<le> month_length y m"

lemma real_next_day: "real_date t \<Longrightarrow> real_date (next_day t)"
  by (cases t) (auto simp: month_length_def)

lemma civil_from_days_real: "real_date (civil_from_days n)"
  unfolding civil_from_days_iterates
  by (induction n) (simp_all add: month_length_def real_next_day del: next_day.simps)

text \<open>A later day has a later date, year first.\<close>

definition earlier :: "nat \<times> nat \<times> nat \<Rightarrow> nat \<times> nat \<times> nat \<Rightarrow> bool" where
  "earlier s t = (case (s, t) of ((y, m, d), (y', m', d')) \<Rightarrow>
     y < y' \<or> y = y' \<and> (m < m' \<or> m = m' \<and> d < d'))"

lemma earlier_trans: "earlier s t \<Longrightarrow> earlier t u \<Longrightarrow> earlier s u"
  by (auto simp: earlier_def split: prod.splits)

lemma earlier_irrefl: "\<not> earlier s s"
  by (auto simp: earlier_def split: prod.splits)

lemma earlier_next_day: "earlier t (next_day t)"
  by (cases t) (auto simp: earlier_def)

lemma civil_from_days_mono: "n < n' \<Longrightarrow> earlier (civil_from_days n) (civil_from_days n')"
  by (induction rule: strict_inc_induct) (metis Suc_eq_plus1 civil_from_days_Suc earlier_next_day earlier_trans)+

lemma civil_from_days_inj: "civil_from_days n = civil_from_days n' \<Longrightarrow> n = n'"
  by (metis civil_from_days_mono earlier_irrefl linorder_neqE_nat)

section \<open>What the timestamp says\<close>

text \<open>
  C33. The date of a lock file is the one a calendar reaches from the first of January 1970 by going on
  one day for every 86400 seconds, with the leap years of the Gregorian calendar, and the time of day
  is what is left of the seconds.
\<close>

theorem timestamp_counts_the_days:
  "rfc3339 secs =
     (case (next_day ^^ (unat secs div 86400)) (1970, 1, 1) of (y, m, d) \<Rightarrow>
        show_padded 4 y @ ''-'' @ show_padded 2 m @ ''-'' @ show_padded 2 d @ ''T'' @
        show_padded 2 (unat secs mod 86400 div 3600) @ '':'' @ show_padded 2 (unat secs mod 86400 mod 3600 div 60) @ '':'' @
        show_padded 2 (unat secs mod 86400 mod 60) @ ''Z'')"
  by (simp add: rfc3339_def civil_from_days_iterates Let_def)

text \<open>
  C34. Whatever the clock says, the formula gives a date that exists: a month from 1 to 12 and a day of
  that month in that year; and two days never share a date.
\<close>

theorem every_day_has_its_own_date:
  "real_date (civil_from_days n) \<and> (civil_from_days n = civil_from_days n' \<longleftrightarrow> n = n')"
  using civil_from_days_real civil_from_days_inj by blast

end
