(* ===== verification/LockFile.thy ===== *)
theory LockFile
  imports Calendar OverrideStore
begin

text \<open>
  The lock file \<open>src/lock.rs\<close>: what a loaded lock may pin, which of an image's digests is locked,
  whether a tag moved, the record of a build and what moved between two. \<open>toml\<close> and
  \<open>serde_json\<close> and the commands run on the host are parameters.
\<close>

section \<open>The file's data\<close>

record base_pin =
  bp_reference :: string
  bp_digest :: string

record lock =
  lk_schema :: u32
  lk_locked_at :: string
  lk_base :: base_pin
  lk_rpm :: "(string \<times> string) list"

definition lock_schema :: u32 where "lock_schema = 1"

text \<open>What the code takes from elsewhere: a command's output, and the text formats.\<close>

record lock_env =
  le_host :: "string list \<Rightarrow> string + string"
  le_toml_read :: "string \<Rightarrow> string + lock"
  le_toml_show :: "lock \<Rightarrow> string + string"
  le_json_read :: "string \<Rightarrow> json option"

datatype lock_error =
    HostSays string
  | NoRegistryAnswer string string
  | NoDigestFor string
  | UnexpectedDigest string string
  | CannotSerialize string
  | CannotWriteLock

section \<open>Digests and references\<close>

definition hex_lower :: "char \<Rightarrow> bool" where
  "hex_lower c \<longleftrightarrow> is_digit c \<or> 97 \<le> (of_char c :: nat) \<and> (of_char c :: nat) \<le> 102"

definition hex_upper :: "char \<Rightarrow> bool" where
  "hex_upper c \<longleftrightarrow> 65 \<le> (of_char c :: nat) \<and> (of_char c :: nat) \<le> 70"

definition ascii_upper :: "char \<Rightarrow> bool" where
  "ascii_upper c \<longleftrightarrow> 65 \<le> (of_char c :: nat) \<and> (of_char c :: nat) \<le> 90"

definition is_sha_digest :: "string \<Rightarrow> bool" where
  "is_sha_digest v =
     (case strip_prefix ''sha256:'' v of
        Some hex \<Rightarrow> length hex = 64 \<and> list_all (\<lambda>b. (hex_lower b \<or> hex_upper b) \<and> \<not> ascii_upper b) hex
      | None \<Rightarrow> False)"

definition rsplit_char :: "char \<Rightarrow> string \<Rightarrow> (string \<times> string) option" where
  "rsplit_char c s = map_option (\<lambda>(b, a). (rev a, rev b)) (split_once [c] (rev s))"

definition repo_name :: "string \<Rightarrow> string" where
  "repo_name reference =
     (let r = (case split_once ''@'' reference of Some (repo, _) \<Rightarrow> repo | None \<Rightarrow> reference);
          (prefix, lst) = (case rsplit_char (CHR ''/'') r of Some (p, l) \<Rightarrow> (length p + 1, l) | None \<Rightarrow> (0, r))
      in case split_once '':'' lst of Some (repo, _) \<Rightarrow> take (prefix + length repo) r | None \<Rightarrow> r)"

definition pinned_ref :: "string \<Rightarrow> string \<Rightarrow> string" where
  "pinned_ref reference digest = repo_name reference @ ''@'' @ digest"

definition index_digest :: "string list \<Rightarrow> string \<Rightarrow> string \<Rightarrow> string" where
  "index_digest repo_digests manifest reference =
     (let name = repo_name reference;
          mine = map snd (filter (\<lambda>(repo, _). repo = name) (List.map_filter (split_once ''@'') repo_digests))
      in case find (\<lambda>d. d \<noteq> manifest) mine of Some d \<Rightarrow> d | None \<Rightarrow> manifest)"

definition pin_for :: "lock \<Rightarrow> string \<Rightarrow> string option" where
  "pin_for l declared =
     (if bp_reference (lk_base l) = declared then Some (pinned_ref declared (bp_digest (lk_base l))) else None)"

section \<open>Reading and writing\<close>

definition load_lock :: "lock_env \<Rightarrow> file_text option \<Rightarrow> lock option" where
  "load_lock E f =
     (case read_to_string f of
        None \<Rightarrow> None
      | Some t \<Rightarrow>
          (case le_toml_read E t of
             Inl err \<Rightarrow> None
           | Inr l \<Rightarrow>
               if lk_schema l \<noteq> lock_schema then None
               else if \<not> is_sha_digest (bp_digest (lk_base l)) then None
               else Some l))"

definition lock_header :: string where
  "lock_header = unlines [''# Generated by kuma. Do not edit.'',
     ''# The base digest is what builds actually use; the resolved'',
     ''# package versions are a record to diff, not pins to install.'',
     ''# `kuma update` is what moves this file.'', []]"

text \<open>A write that fails may leave anything of the file: \<open>fails\<close> is what it leaves.\<close>

definition save_lock :: "lock_env \<Rightarrow> file_text option option \<Rightarrow> lock \<Rightarrow> file_text option \<Rightarrow>
    (lock_error + unit) \<times> file_text option" where
  "save_lock E fails l f =
     (case le_toml_show E l of
        Inl err \<Rightarrow> (Inl (CannotSerialize err), f)
      | Inr body \<Rightarrow>
          (case fails of
             Some left \<Rightarrow> (Inl CannotWriteLock, left)
           | None \<Rightarrow> (Inr (), Some (Readable (lock_header @ body)))))"

section \<open>What the machine knows of an image\<close>

definition base_digest :: "lock_env \<Rightarrow> string \<Rightarrow> lock_error + string" where
  "base_digest E reference =
     (case le_host E [''podman'', ''image'', ''inspect'', ''--format'',
           ''{{.Digest}}{{range .RepoDigests}}'' @ [nl] @ ''{{.}}{{end}}'', reference] of
        Inl err \<Rightarrow> Inl (HostSays err)
      | Inr out \<Rightarrow>
          (case filter (\<lambda>l. l \<noteq> []) (map trim (str_lines out)) of
             [] \<Rightarrow> Inl (NoDigestFor reference)
           | manifest # repo_digests \<Rightarrow>
               if \<not> starts_with ''sha256:'' manifest then Inl (UnexpectedDigest manifest reference)
               else Inr (index_digest repo_digests manifest reference)))"

definition registry_manifest :: "lock_env \<Rightarrow> string \<Rightarrow> lock_error + string" where
  "registry_manifest E reference =
     (case le_host E [''timeout'', ''60'', ''podman'', ''manifest'', ''inspect'', reference] of
        Inl err \<Rightarrow> Inl (NoRegistryAnswer reference err)
      | Inr out \<Rightarrow> Inr out)"

definition index_lists :: "lock_env \<Rightarrow> string \<Rightarrow> string \<Rightarrow> bool" where
  "index_lists E index digest =
     (case le_json_read E index of
        None \<Rightarrow> False
      | Some doc \<Rightarrow>
          (case Option.bind (jget doc ''manifests'') as_array of
             None \<Rightarrow> False
           | Some manifests \<Rightarrow> list_ex (\<lambda>m. Option.bind (jget m ''digest'') as_str = Some digest) manifests))"

definition base_moved :: "lock_env \<Rightarrow> string \<Rightarrow> string \<Rightarrow> lock_error + bool" where
  "base_moved E reference digest =
     (case registry_manifest E reference of
        Inl err \<Rightarrow> Inl err
      | Inr tagged \<Rightarrow>
          if index_lists E tagged digest then Inr False
          else (case registry_manifest E (pinned_ref reference digest) of
                  Inr locked \<Rightarrow> Inr (tagged \<noteq> locked)
                | Inl _ \<Rightarrow> Inr True))"

definition parse_rpm_query :: "string \<Rightarrow> (string \<times> string) list" where
  "parse_rpm_query out =
     foldl (\<lambda>m (n, evr). bt_insert n evr m) [] (List.map_filter (\<lambda>l. split_once '' '' (trim l)) (str_lines out))"

definition resolved_rpms :: "lock_env \<Rightarrow> string \<Rightarrow> lock_error + (string \<times> string) list" where
  "resolved_rpms E tag =
     (case le_host E [''podman'', ''run'', ''--rm'', tag, ''rpm'', ''-qa'', ''--qf'',
           ''%{NAME} %{EVR}.%{ARCH}'' @ [CHR 0x5C, CHR ''n'']] of
        Inl err \<Rightarrow> Inl (HostSays err)
      | Inr out \<Rightarrow> Inr (parse_rpm_query out))"

section \<open>The record of a build, and what moved\<close>

definition record_lock :: "lock_env \<Rightarrow> file_text option option \<Rightarrow> u64 \<Rightarrow> string \<Rightarrow> string \<Rightarrow> string \<Rightarrow>
    file_text option \<Rightarrow> lock option \<times> file_text option" where
  "record_lock E fails now declared_base digest tag f =
     (case resolved_rpms E tag of
        Inl err \<Rightarrow> (None, f)
      | Inr rpm \<Rightarrow>
          (let l = \<lparr>lk_schema = lock_schema, lk_locked_at = rfc3339 now,
                    lk_base = \<lparr>bp_reference = declared_base, bp_digest = digest\<rparr>, lk_rpm = rpm\<rparr>
           in case save_lock E fails l f of
                (Inl err, f') \<Rightarrow> (None, f')
              | (Inr _, f') \<Rightarrow> (Some l, f')))"

record lock_diff =
  ld_base_from :: string
  ld_base_to :: string
  ld_changed :: "(string \<times> string \<times> string) list"
  ld_added :: "string list"
  ld_removed :: "string list"

definition diff_is_empty :: "lock_diff \<Rightarrow> bool" where
  "diff_is_empty d \<longleftrightarrow> ld_base_from d = ld_base_to d \<and> ld_changed d = [] \<and> ld_added d = [] \<and> ld_removed d = []"

fun diff_step :: "(string \<times> string) list \<Rightarrow> (string \<times> string \<times> string) list \<times> string list \<Rightarrow> string \<times> string \<Rightarrow>
    (string \<times> string \<times> string) list \<times> string list" where
  "diff_step old (changed, added) (n, v) =
     (case map_of old n of
        Some before \<Rightarrow> if before \<noteq> v then (changed @ [(n, before, v)], added) else (changed, added)
      | None \<Rightarrow> (changed, added @ [n]))"

definition lock_diff :: "lock \<Rightarrow> lock \<Rightarrow> lock_diff" where
  "lock_diff old new =
     (case foldl (diff_step (lk_rpm old)) ([], []) (lk_rpm new) of
        (changed, added) \<Rightarrow>
          \<lparr>ld_base_from = bp_digest (lk_base old), ld_base_to = bp_digest (lk_base new),
           ld_changed = changed, ld_added = added,
           ld_removed = filter (\<lambda>n. map_of (lk_rpm new) n = None) (map fst (lk_rpm old))\<rparr>)"

section \<open>References\<close>

lemma split_once_char_None: "split_once [c] s = None \<longleftrightarrow> c \<notin> set s"
  by (induction s) (auto simp: starts_with_def)

lemma split_once_char_first: "split_once [c] s = Some (a, b) \<Longrightarrow> c \<notin> set a"
  by (induction s arbitrary: a) (auto simp: starts_with_def split: if_splits)

lemma split_once_char_Some:
  "split_once [c] s = Some (a, b) \<longleftrightarrow> s = a @ c # b \<and> c \<notin> set a"
  using split_once_Some [of "[c]" s a b] split_once_char_first [of c s a b] split_once_char [of c a b] by auto

lemma rsplit_char_Some: "rsplit_char c s = Some (a, b) \<longleftrightarrow> s = a @ c # b \<and> c \<notin> set b"
proof -
  have "rsplit_char c s = Some (a, b) \<longleftrightarrow> split_once [c] (rev s) = Some (rev b, rev a)"
    by (auto simp: rsplit_char_def)
  also have "\<dots> \<longleftrightarrow> rev s = rev (a @ c # b) \<and> c \<notin> set b" by (simp add: split_once_char_Some)
  finally show ?thesis by (simp only: rev_is_rev_conv)
qed

lemma rsplit_char_None: "rsplit_char c s = None \<longleftrightarrow> c \<notin> set s"
  by (auto simp: rsplit_char_def split_once_char_None)

lemma takeWhile_absent: "c \<notin> set l \<Longrightarrow> takeWhile (\<lambda>x. x \<noteq> c) l = l"
  by (induction l) auto

definition untagged :: "string \<Rightarrow> string" where
  "untagged r =
     (let (prefix, lst) = (case rsplit_char (CHR ''/'') r of Some (p, l) \<Rightarrow> (length p + 1, l) | None \<Rightarrow> (0, r))
      in case split_once '':'' lst of Some (repo, _) \<Rightarrow> take (prefix + length repo) r | None \<Rightarrow> r)"

definition undigested :: "string \<Rightarrow> string" where
  "undigested reference = (case split_once ''@'' reference of Some (repo, _) \<Rightarrow> repo | None \<Rightarrow> reference)"

lemma repo_name_parts: "repo_name r = untagged (undigested r)"
  by (simp add: repo_name_def untagged_def undigested_def Let_def)

lemma undigested_no_at: "CHR ''@'' \<notin> set (undigested r)"
  by (cases "split_once ''@'' r")
    (auto simp: undigested_def dest: split_once_char_None [THEN iffD1] split_once_char_first)

lemma undigested_at [simp]: "CHR ''@'' \<notin> set r \<Longrightarrow> undigested (r @ CHR ''@'' # d) = r"
  by (simp add: undigested_def split_once_char)

text \<open>The last segment of a path, without its tag.\<close>

lemma untagged_cases:
  obtains (bare) "CHR ''/'' \<notin> set r" "untagged r = takeWhile (\<lambda>c. c \<noteq> CHR '':'') r"
  | (path) p l where "r = p @ CHR ''/'' # l" "CHR ''/'' \<notin> set l"
      "untagged r = p @ CHR ''/'' # takeWhile (\<lambda>c. c \<noteq> CHR '':'') l"
proof -
  have cut: "(case split_once '':'' l of Some (repo, _) \<Rightarrow> take (length p + length repo) (p @ l) | None \<Rightarrow> p @ l)
      = p @ takeWhile (\<lambda>c. c \<noteq> CHR '':'') l" for p l :: string
  proof (cases "split_once '':'' l")
    case None
    then have "takeWhile (\<lambda>c. c \<noteq> CHR '':'') l = l"
      by (intro takeWhile_absent split_once_char_None [THEN iffD1])
    then show ?thesis by (simp only: None option.case)
  next
    case (Some w)
    obtain a b where w: "w = (a, b)" by fastforce
    then have l: "l = a @ CHR '':'' # b" "CHR '':'' \<notin> set a" using Some by (auto simp: split_once_char_Some)
    have "takeWhile (\<lambda>c. c \<noteq> CHR '':'') (a @ CHR '':'' # b) = a"
      using l(2) by (subst takeWhile_append2) auto
    then show ?thesis using Some [unfolded w l(1)] by (simp add: l(1))
  qed
  show ?thesis
  proof (cases "rsplit_char (CHR ''/'') r")
    case None
    then have "untagged r = takeWhile (\<lambda>c. c \<noteq> CHR '':'') r" using cut [of "[]" r] by (cases "split_once '':'' r") (auto simp: untagged_def)
    then show ?thesis using None bare by (simp add: rsplit_char_None)
  next
    case (Some w)
    obtain p l where w: "w = (p, l)" by fastforce
    then have r: "r = p @ CHR ''/'' # l" "CHR ''/'' \<notin> set l" using Some by (auto simp: rsplit_char_Some)
    have "untagged r = p @ CHR ''/'' # takeWhile (\<lambda>c. c \<noteq> CHR '':'') l"
      using cut [of "p @ ''/''" l] Some [unfolded w r(1)]
      by (cases "split_once '':'' l") (auto simp: untagged_def r(1))
    then show ?thesis using r path by blast
  qed
qed

lemma untagged_bare: "CHR ''/'' \<notin> set r \<Longrightarrow> CHR '':'' \<notin> set r \<Longrightarrow> untagged r = r"
  by (simp add: untagged_def rsplit_char_None [THEN iffD2] split_once_char_None [THEN iffD2])

lemma untagged_path:
  "CHR ''/'' \<notin> set l \<Longrightarrow> CHR '':'' \<notin> set l \<Longrightarrow> untagged (p @ CHR ''/'' # l) = p @ CHR ''/'' # l"
  by (simp add: untagged_def rsplit_char_Some [THEN iffD2] split_once_char_None [THEN iffD2])

lemma untagged_again: "untagged (untagged r) = untagged r"
proof (cases r rule: untagged_cases)
  case bare
  then have "untagged (takeWhile (\<lambda>c. c \<noteq> CHR '':'') r) = takeWhile (\<lambda>c. c \<noteq> CHR '':'') r"
    by (intro untagged_bare) (auto dest: set_takeWhileD)
  then show ?thesis by (simp only: bare)
next
  case (path p l)
  then have "untagged (p @ CHR ''/'' # takeWhile (\<lambda>c. c \<noteq> CHR '':'') l) =
      p @ CHR ''/'' # takeWhile (\<lambda>c. c \<noteq> CHR '':'') l"
    by (intro untagged_path) (auto dest: set_takeWhileD)
  then show ?thesis by (simp only: path(3))
qed

lemma untagged_prefix: "set (untagged r) \<subseteq> set r"
  by (cases r rule: untagged_cases) (auto dest: set_takeWhileD)

lemma repo_name_no_at: "CHR ''@'' \<notin> set (repo_name r)"
  using undigested_no_at untagged_prefix by (auto simp: repo_name_parts)

lemma repo_name_pinned: "repo_name (pinned_ref r d) = repo_name r"
proof -
  have "repo_name (pinned_ref r d) = untagged (repo_name r)"
    using repo_name_no_at [of r] by (simp add: pinned_ref_def repo_name_parts [of "_ @ _"])
  then show ?thesis by (simp add: repo_name_parts untagged_again)
qed

text \<open>Pinning what is pinned already changes its digest and nothing else.\<close>

theorem pinned_again: "pinned_ref (pinned_ref r d) d' = pinned_ref r d'"
  unfolding pinned_ref_def [of _ d'] by (simp add: repo_name_pinned)

section \<open>What a lock may pin\<close>

lemma hex_digest:
  assumes "is_sha_digest v"
  shows "\<exists>hex. v = ''sha256:'' @ hex \<and> length hex = 64 \<and> list_all hex_lower hex"
proof -
  obtain hex where h: "strip_prefix ''sha256:'' v = Some hex" "length hex = 64"
    "list_all (\<lambda>b. (hex_lower b \<or> hex_upper b) \<and> \<not> ascii_upper b) hex"
    using assms by (auto simp: is_sha_digest_def split: option.splits)
  have "hex_lower b" if "(hex_lower b \<or> hex_upper b) \<and> \<not> ascii_upper b" for b
    using that by (auto simp: hex_upper_def ascii_upper_def)
  then have "list_all hex_lower hex" using h(3) by (auto simp: list_all_iff)
  then show ?thesis using h by (auto simp: strip_prefix_Some)
qed

lemma load_lock_Some:
  "load_lock E f = Some l \<longleftrightarrow>
   (\<exists>t. read_to_string f = Some t \<and> le_toml_read E t = Inr l \<and> lk_schema l = lock_schema \<and>
      is_sha_digest (bp_digest (lk_base l)))"
  by (auto simp: load_lock_def split: option.splits sum.splits if_splits)

lemma pin_is_a_digest:
  assumes "load_lock E f = Some l" "pin_for l declared = Some p"
  shows "\<exists>hex. p = repo_name declared @ ''@sha256:'' @ hex \<and> length hex = 64 \<and> list_all hex_lower hex"
proof -
  have "is_sha_digest (bp_digest (lk_base l))" using assms(1) by (auto simp: load_lock_Some)
  then show ?thesis
    using assms(2) hex_digest by (auto simp: pin_for_def pinned_ref_def split: if_splits)
qed

section \<open>A record is what the next build pins\<close>

lemma record_lock_written:
  assumes "record_lock E None now base digest tag f = (Some l, f')"
  shows "bp_reference (lk_base l) = base \<and> bp_digest (lk_base l) = digest \<and> lk_schema l = lock_schema \<and>
    (\<exists>body. le_toml_show E l = Inr body \<and> f' = Some (Readable (lock_header @ body)))"
  using assms by (auto simp: record_lock_def save_lock_def Let_def split: sum.splits option.splits)

lemma recorded_lock_loads:
  assumes "\<And>l body. le_toml_show E l = Inr body \<Longrightarrow> le_toml_read E (lock_header @ body) = Inr l"
    and "record_lock E None now base digest tag f = (Some l, f')"
  shows "load_lock E f' = (if is_sha_digest digest then Some l else None) \<and>
    pin_for l base = Some (pinned_ref base digest)"
proof -
  obtain body where b: "le_toml_show E l = Inr body" "f' = Some (Readable (lock_header @ body))"
    and l: "bp_reference (lk_base l) = base" "bp_digest (lk_base l) = digest" "lk_schema l = lock_schema"
    using record_lock_written [OF assms(2)] by auto
  then show ?thesis using assms(1) [OF b(1)] by (auto simp: load_lock_def pin_for_def)
qed

text \<open>A record that could not be taken leaves the old lock as it was.\<close>

lemma failed_record: "record_lock E None now base digest tag f = (None, f') \<Longrightarrow> f' = f"
  by (auto simp: record_lock_def save_lock_def Let_def split: sum.splits option.splits)

section \<open>Has the tag moved\<close>

lemma base_moved_No:
  "base_moved E r d = Inr False \<longleftrightarrow>
   (\<exists>doc. registry_manifest E r = Inr doc \<and>
      (index_lists E doc d \<or> registry_manifest E (pinned_ref r d) = Inr doc))"
  by (auto simp: base_moved_def split: sum.splits if_splits)

lemma base_moved_error: "base_moved E r d = Inl err \<longleftrightarrow> registry_manifest E r = Inl err"
  by (auto simp: base_moved_def split: sum.splits if_splits)

section \<open>The index and the manifest\<close>

definition digests_of :: "string list \<Rightarrow> string \<Rightarrow> string set" where
  "digests_of repo_digests reference =
     {d. \<exists>e \<in> set repo_digests. e = pinned_ref reference d}"

lemma entry_of_repo:
  "split_once ''@'' e = Some (repo_name r, d) \<longleftrightarrow> e = pinned_ref r d"
  using repo_name_no_at [of r] by (simp add: split_once_char_Some pinned_ref_def)

lemma mine_digests:
  "set (map snd (filter (\<lambda>(repo, _). repo = repo_name r) (List.map_filter (split_once ''@'') ds))) = digests_of ds r"
proof -
  have "d \<in> set (map snd (filter (\<lambda>(repo, _). repo = repo_name r) (List.map_filter (split_once ''@'') ds))) \<longleftrightarrow>
      (\<exists>e \<in> set ds. split_once ''@'' e = Some (repo_name r, d))" for d
    by (force simp: List.map_filter_def)
  then show ?thesis by (auto simp: digests_of_def entry_of_repo)
qed

lemma index_digest_found:
  "index_digest ds manifest r \<in> insert manifest (digests_of ds r) \<and>
   (index_digest ds manifest r = manifest \<longleftrightarrow> digests_of ds r \<subseteq> {manifest})"
proof -
  let ?m = "map snd (filter (\<lambda>(repo, _). repo = repo_name r) (List.map_filter (split_once ''@'') ds))"
  show ?thesis
  proof (cases "find (\<lambda>d. d \<noteq> manifest) ?m")
    case None
    then have "index_digest ds manifest r = manifest" by (simp only: index_digest_def Let_def None option.case)
    moreover have "\<forall>d \<in> set ?m. d = manifest" using None unfolding find_None_iff by blast
    ultimately show ?thesis by (auto simp only: mine_digests)
  next
    case (Some d)
    then have "index_digest ds manifest r = d" by (simp only: index_digest_def Let_def Some option.case)
    moreover have "d \<in> set ?m" "d \<noteq> manifest" using Some by (auto dest: find_Some_split)
    ultimately show ?thesis by (auto simp only: mine_digests)
  qed
qed

text \<open>The order in which podman lists the digests does not matter when one of them is not the manifest.\<close>

lemma index_digest_unordered:
  assumes "digests_of ds r \<subseteq> {manifest, d}" "d \<in> digests_of ds r"
  shows "index_digest ds manifest r = d"
  using index_digest_found [of ds manifest r] assms by blast

section \<open>What moved between two builds\<close>

lemma diff_fold:
  "foldl (diff_step old) (ch, ad) new =
   (ch @ List.map_filter (\<lambda>(n, v). case map_of old n of Some b \<Rightarrow> if b \<noteq> v then Some (n, b, v) else None | None \<Rightarrow> None) new,
    ad @ map fst (filter (\<lambda>(n, v). map_of old n = None) new))"
proof (induction new arbitrary: ch ad)
  case (Cons e new)
  obtain n v where "e = (n, v)" by fastforce
  then show ?case by (cases "map_of old n") (simp_all add: Cons.IH List.map_filter_simps)
qed (simp add: List.map_filter_simps)

lemma diff_changed:
  assumes "distinct (map fst (lk_rpm new))"
  shows "(n, a, b) \<in> set (ld_changed (lock_diff old new)) \<longleftrightarrow>
    map_of (lk_rpm old) n = Some a \<and> map_of (lk_rpm new) n = Some b \<and> a \<noteq> b"
proof -
  have "(n, a, b) \<in> set (ld_changed (lock_diff old new)) \<longleftrightarrow>
      (n, b) \<in> set (lk_rpm new) \<and> map_of (lk_rpm old) n = Some a \<and> a \<noteq> b"
    unfolding lock_diff_def diff_fold
    by (force simp: List.map_filter_def split: option.splits if_splits)
  then show ?thesis using assms by auto
qed

lemma diff_added:
  "n \<in> set (ld_added (lock_diff old new)) \<longleftrightarrow> map_of (lk_rpm old) n = None \<and> map_of (lk_rpm new) n \<noteq> None"
  unfolding lock_diff_def diff_fold by (force simp: map_of_eq_None_iff)

lemma diff_removed:
  "n \<in> set (ld_removed (lock_diff old new)) \<longleftrightarrow> map_of (lk_rpm old) n \<noteq> None \<and> map_of (lk_rpm new) n = None"
  unfolding lock_diff_def diff_fold by (force simp: map_of_eq_None_iff)

lemma diff_empty_iff:
  assumes "distinct (map fst (lk_rpm new))"
  shows "diff_is_empty (lock_diff old new) \<longleftrightarrow>
    bp_digest (lk_base old) = bp_digest (lk_base new) \<and> map_of (lk_rpm old) = map_of (lk_rpm new)"
proof -
  let ?d = "lock_diff old new"
  have "(\<forall>n. map_of (lk_rpm old) n = map_of (lk_rpm new) n) \<longleftrightarrow>
      set (ld_changed ?d) = {} \<and> set (ld_added ?d) = {} \<and> set (ld_removed ?d) = {}" (is "?L \<longleftrightarrow> ?R")
  proof
    assume ?L
    then have "(n, a, b) \<notin> set (ld_changed ?d)" "n \<notin> set (ld_added ?d)" "n \<notin> set (ld_removed ?d)" for n a b
      by (auto simp: diff_changed [OF assms] diff_added diff_removed)
    then show ?R by (intro conjI) (simp_all only: set_eq_iff empty_iff split_paired_All, simp_all)
  next
    assume r: ?R
    show ?L
    proof
      fix n
      show "map_of (lk_rpm old) n = map_of (lk_rpm new) n"
      proof (cases "map_of (lk_rpm old) n")
        case None
        then show ?thesis using r diff_added [of n old new] by auto
      next
        case (Some a)
        then obtain b where b: "map_of (lk_rpm new) n = Some b" using r diff_removed [of n old new] by auto
        then have "(n, a, b) \<notin> set (ld_changed ?d)" using r by simp
        then show ?thesis using Some b by (simp add: diff_changed [OF assms])
      qed
    qed
  qed
  moreover have "ld_base_from ?d = bp_digest (lk_base old)" "ld_base_to ?d = bp_digest (lk_base new)"
    by (simp_all add: lock_diff_def case_prod_unfold)
  ultimately show ?thesis by (simp only: diff_is_empty_def fun_eq_iff set_empty)
qed

section \<open>The package list\<close>

text \<open>Names in the order of a \<open>BTreeMap\<close>, and entries that rpm's own separator keeps apart.\<close>

definition rpms_ok :: "(string \<times> string) list \<Rightarrow> bool" where
  "rpms_ok m \<longleftrightarrow> sorted_wrt (<) (map fst m) \<and>
     list_all (\<lambda>(n, v). plain n \<and> n \<noteq> [] \<and> plain v \<and> v \<noteq> [] \<and> CHR '' '' \<notin> set n) m"

lemma bt_insert_last: "\<forall>k' \<in> set (map fst m). k' < k \<Longrightarrow> bt_insert k v m = m @ [(k, v)]"
  by (induction m) (auto simp: less_le_not_le)

lemma bt_insert_keys: "set (map fst (bt_insert k v m)) = insert k (set (map fst m))"
  by (induction k v m rule: bt_insert.induct) auto

lemma bt_insert_in: "(a, b) \<in> set (bt_insert k v m) \<Longrightarrow> a = k \<or> (\<exists>w. (a, w) \<in> set m)"
  by (induction k v m rule: bt_insert.induct) (auto split: if_splits)

lemma bt_insert_sorted: "sorted_wrt (<) (map fst m) \<Longrightarrow> sorted_wrt (<) (map fst (bt_insert k v m))"
  by (induction k v m rule: bt_insert.induct) (auto dest!: bt_insert_in)

lemma rpm_line_ok:
  assumes "plain n" "n \<noteq> []" "plain v" "v \<noteq> []" "CHR '' '' \<notin> set n"
  shows "line_ok (n @ CHR '' '' # v) \<and> split_once '' '' (trim (n @ CHR '' '' # v)) = Some (n, v)"
proof -
  obtain c t where n: "n = c # t" "visible c" using assms(2) plain_visible [OF assms(1)] by (cases n) auto
  obtain t' c' where v: "v = t' @ [c']" "visible c'" using assms(4) plain_visible [OF assms(3)] by (cases v rule: rev_cases) auto
  have "\<not> space_first spaces ([] @ c # t @ CHR '' '' # t')"
    using n(2) by (subst space_first_visible) (simp_all add: visible_def)
  then have "trimmed ((n @ CHR '' '' # t') @ c' # [])" using n(1) v(2) by (subst trimmed_visible) simp_all
  then have "trimmed (n @ CHR '' '' # v)" by (simp add: v(1))
  have sp: "nl \<noteq> CHR '' ''" by code_simp
  have "line_ok (n @ CHR '' '' # v)"
    using plain_nl [OF assms(1)] plain_nl [OF assms(3)] plain_line [OF assms(3)] assms(4) sp by (auto simp: line_ok_def)
  then show ?thesis using \<open>trimmed (n @ CHR '' '' # v)\<close> split_once_char [OF assms(5)] by simp
qed

lemma rpm_fold:
  assumes "sorted_wrt (<) (map fst (m' @ m))"
  shows "foldl (\<lambda>m (n, evr). bt_insert n evr m) m' m = m' @ m"
  using assms
proof (induction m arbitrary: m')
  case (Cons e m)
  obtain n v where e: "e = (n, v)" by fastforce
  have "bt_insert n v m' = m' @ [e]" using Cons.prems by (auto simp: e sorted_wrt_append bt_insert_last)
  then show ?case using Cons.IH [of "m' @ [e]"] Cons.prems by (simp add: e)
qed simp

lemma rpm_query_reads_back:
  assumes "rpms_ok m"
  shows "parse_rpm_query (unlines (map (\<lambda>(n, v). n @ CHR '' '' # v) m)) = m"
proof -
  have ok: "line_ok (n @ CHR '' '' # v) \<and> split_once '' '' (trim (n @ CHR '' '' # v)) = Some (n, v)"
    if "(n, v) \<in> set m" for n v
    using assms that rpm_line_ok by (auto simp: rpms_ok_def list_all_iff)
  then have "str_lines (unlines (map (\<lambda>(n, v). n @ CHR '' '' # v) m)) = map (\<lambda>(n, v). n @ CHR '' '' # v) m"
    by (intro str_lines_unlines) auto
  moreover have "List.map_filter (\<lambda>l. split_once '' '' (trim l)) (map (\<lambda>(n, v). n @ CHR '' '' # v) m) = m"
  proof -
    have "m' = List.map_filter (\<lambda>l. split_once '' '' (trim l)) (map (\<lambda>(n, v). n @ CHR '' '' # v) m')"
      if "set m' \<subseteq> set m" for m'
      using that ok by (induction m') (auto simp: List.map_filter_simps)
    then show ?thesis by simp
  qed
  ultimately show ?thesis
    using rpm_fold [of "[]" m] assms by (simp add: parse_rpm_query_def rpms_ok_def)
qed

lemma parsed_rpms_sorted: "sorted_wrt (<) (map fst (parse_rpm_query out))"
proof -
  have "sorted_wrt (<) (map fst (foldl (\<lambda>m (n, evr). bt_insert n evr m) m' es))"
    if "sorted_wrt (<) (map fst m')" for m' and es :: "(string \<times> string) list"
    using that by (induction es arbitrary: m') (auto simp: bt_insert_sorted)
  then show ?thesis by (simp add: parse_rpm_query_def)
qed

lemma parsed_rpms_distinct: "distinct (map fst (parse_rpm_query out))"
  using parsed_rpms_sorted by (simp add: strict_sorted_iff)

section \<open>Properties\<close>

text \<open>
  C32. Whatever a lock file says, a pin taken from it after loading is the repository of the declared
  base, \<open>@sha256:\<close> and sixty-four lower-case hexadecimal digits: the digest field adds no other
  character to the \<open>FROM\<close> line, so no build step can ride in on it.
\<close>

theorem pin_adds_only_a_digest:
  assumes "load_lock E f = Some l" "pin_for l declared = Some p"
  shows "\<exists>hex. p = repo_name declared @ ''@sha256:'' @ hex \<and> length hex = 64 \<and> list_all hex_lower hex"
  by (rule pin_is_a_digest [OF assms])

definition sample_digest :: string where
  "sample_digest = ''sha256:'' @ replicate 64 (CHR ''a'')"

definition sample_lock :: lock where
  "sample_lock = \<lparr>lk_schema = 1, lk_locked_at = [], lk_base = \<lparr>bp_reference = ''q:44'', bp_digest = sample_digest\<rparr>, lk_rpm = []\<rparr>"

definition sample_env :: lock_env where
  "sample_env = \<lparr>le_host = (\<lambda>_. Inr []), le_toml_read = (\<lambda>_. Inr sample_lock),
     le_toml_show = (\<lambda>l. if l = sample_lock then Inr [] else Inl ''no''), le_json_read = (\<lambda>_. None)\<rparr>"

lemma sample_digest_ok: "is_sha_digest sample_digest"
  by (simp add: is_sha_digest_def sample_digest_def strip_prefix_def starts_with_def list_all_iff hex_lower_def
      ascii_upper_def is_digit_def)

lemma sample_loads: "load_lock sample_env (Some (Readable [])) = Some sample_lock"
  using sample_digest_ok by (simp add: load_lock_def sample_env_def sample_lock_def lock_schema_def)

theorem pin_adds_only_a_digest_witness:
  "\<exists>hex. pinned_ref ''q:44'' sample_digest = repo_name ''q:44'' @ ''@sha256:'' @ hex \<and> length hex = 64 \<and> list_all hex_lower hex"
  by (rule pin_adds_only_a_digest [OF sample_loads]) (simp add: pin_for_def sample_lock_def)

text \<open>
  The lock that a successful build writes is the lock that the next one reads, and it pins the base
  that was built by the digest that was built. The hypothesis is that the toml reader takes back
  what the writer gave, under four comment lines. The exception is the code's: a digest of any
  other shape than sixty-four digits is written, and is no lock when it is read.
\<close>

theorem recorded_build_is_pinned:
  assumes "\<And>l body. le_toml_show E l = Inr body \<Longrightarrow> le_toml_read E (lock_header @ body) = Inr l"
    and "record_lock E None now base digest tag f = (Some l, f')"
  shows "Option.bind (load_lock E f') (\<lambda>l'. pin_for l' base) =
    (if is_sha_digest digest then Some (pinned_ref base digest) else None)"
  using recorded_lock_loads [OF assms] by simp

definition echo_env :: lock_env where
  "echo_env = \<lparr>le_host = (\<lambda>_. Inr []), le_toml_read = (\<lambda>_. Inr (sample_lock\<lparr>lk_locked_at := rfc3339 0\<rparr>)),
     le_toml_show = (\<lambda>l. if l = sample_lock\<lparr>lk_locked_at := rfc3339 0\<rparr> then Inr [] else Inl ''no''),
     le_json_read = (\<lambda>_. None)\<rparr>"

lemma echo_rpms: "resolved_rpms echo_env t = Inr []"
  by (simp add: resolved_rpms_def echo_env_def parse_rpm_query_def str_lines_def List.map_filter_simps)

lemma echo_records:
  "record_lock echo_env None 0 ''q:44'' sample_digest ''t'' None =
   (Some (sample_lock\<lparr>lk_locked_at := rfc3339 0\<rparr>), Some (Readable lock_header))"
  by (simp add: record_lock_def echo_rpms save_lock_def) (simp add: echo_env_def sample_lock_def lock_schema_def)

theorem recorded_build_is_pinned_witness:
  "Option.bind (load_lock echo_env (Some (Readable lock_header))) (\<lambda>l'. pin_for l' ''q:44'') =
   (if is_sha_digest sample_digest then Some (pinned_ref ''q:44'' sample_digest) else None)"
  by (rule recorded_build_is_pinned [OF _ echo_records]) (simp add: echo_env_def split: if_splits)

text \<open>
  The report of what moved between two builds is exact: a package is listed as changed with its two
  versions, as added or as removed exactly when it is, and the report is empty exactly when the base
  digest and every version are the same.
\<close>

theorem diff_tells_every_change:
  assumes "distinct (map fst (lk_rpm new))"
  shows "((n, a, b) \<in> set (ld_changed (lock_diff old new)) \<longleftrightarrow>
      map_of (lk_rpm old) n = Some a \<and> map_of (lk_rpm new) n = Some b \<and> a \<noteq> b) \<and>
    (n \<in> set (ld_added (lock_diff old new)) \<longleftrightarrow> map_of (lk_rpm old) n = None \<and> map_of (lk_rpm new) n \<noteq> None) \<and>
    (n \<in> set (ld_removed (lock_diff old new)) \<longleftrightarrow> map_of (lk_rpm old) n \<noteq> None \<and> map_of (lk_rpm new) n = None) \<and>
    (diff_is_empty (lock_diff old new) \<longleftrightarrow>
      bp_digest (lk_base old) = bp_digest (lk_base new) \<and> map_of (lk_rpm old) = map_of (lk_rpm new))"
  by (intro conjI diff_changed [OF assms] diff_added diff_removed diff_empty_iff [OF assms])

theorem diff_tells_every_change_witness:
  "((''fish'', ''1'', ''2'') \<in> set (ld_changed (lock_diff (sample_lock\<lparr>lk_rpm := [(''fish'', ''1'')]\<rparr>)
        (sample_lock\<lparr>lk_rpm := [(''fish'', ''2'')]\<rparr>))))"
  by (subst diff_tells_every_change [THEN conjunct1]) simp_all

text \<open>
  Asking the registry answers "not moved" exactly when the tag's document lists the locked digest or
  is the document of the locked reference; it fails only when the tag itself cannot be asked about,
  never because the locked reference cannot.
\<close>

theorem moved_answer_is_exact:
  "(base_moved E r d = Inr False \<longleftrightarrow> (\<exists>doc. registry_manifest E r = Inr doc \<and>
      (index_lists E doc d \<or> registry_manifest E (pinned_ref r d) = Inr doc))) \<and>
   (base_moved E r d = Inl err \<longleftrightarrow> registry_manifest E r = Inl err)"
  by (simp only: base_moved_No base_moved_error)

end
