(* ===== verification/BootEntries.thy ===== *)
theory BootEntries
  imports Hibernate LockFile
begin

text \<open>
  The titles of the boot menu, \<open>src/bootentries.rs\<close>: what an entry names, what the deployment behind
  it calls itself, and the pass that rewrites the titles that are stale. The entries directory is the
  list of its files; the deployments are a function from their directory and a path below it.
\<close>

section \<open>Fields of an entry\<close>

definition is_field :: "string \<Rightarrow> string \<Rightarrow> bool" where
  "is_field line key =
     (case strip_prefix key (trim_start line) of Some rest \<Rightarrow> space_first spaces rest | None \<Rightarrow> False)"

definition field :: "string \<Rightarrow> string \<Rightarrow> string option" where
  "field body key =
     map_option (\<lambda>l. trim (drop (length key) (trim_start l))) (find (\<lambda>l. is_field l key) (str_lines body))"

definition ostree_karg :: "string \<Rightarrow> string option" where
  "ostree_karg options = find_map (strip_prefix ''ostree='') (split_ws options)"

definition karg_index :: "string \<Rightarrow> u32 option" where
  "karg_index karg = parse_u32 (last (split_char (CHR ''/'') karg))"

definition unquoted :: "string \<Rightarrow> string" where
  "unquoted v =
     (case Option.bind (strip_prefix [CHR 0x22] v) (strip_suffix [CHR 0x22]) of
        Some w \<Rightarrow> w
      | None \<Rightarrow>
          (case Option.bind (strip_prefix [CHR 0x27] v) (strip_suffix [CHR 0x27]) of
             Some w \<Rightarrow> w
           | None \<Rightarrow> v))"

definition pretty_name :: "string \<Rightarrow> string option" where
  "pretty_name os_release =
     Option.bind (find (starts_with ''PRETTY_NAME='') (map trim (str_lines os_release)))
       (\<lambda>line. let u = unquoted (trim (drop (length ''PRETTY_NAME='') line))
               in if u \<noteq> [] then Some u else None)"

section \<open>What an entry should say\<close>

type_synonym deployments = "string \<Rightarrow> string \<Rightarrow> file_text option"

definition deployment_name :: "deployments \<Rightarrow> string \<Rightarrow> string option" where
  "deployment_name sysroot karg =
     (let dir = dropWhile (\<lambda>c. c = CHR ''/'') karg
      in find_map pretty_name (List.map_filter (\<lambda>rel. read_to_string (sysroot dir rel))
           [''usr/lib/os-release'', ''etc/os-release'']))"

definition rsplit_once :: "string \<Rightarrow> string \<Rightarrow> (string \<times> string) option" where
  "rsplit_once sep s = map_option (\<lambda>(b, a). (rev a, rev b)) (split_once (rev sep) (rev s))"

definition suffix_index :: "string \<Rightarrow> u32 option" where
  "suffix_index title =
     Option.bind (strip_suffix '')'' (trim_end title))
       (\<lambda>t. Option.bind (rsplit_once ''(ostree:'' t) (\<lambda>(_, tail). parse_u32 tail))"

definition without_slot :: "string \<Rightarrow> string" where
  "without_slot title =
     (case rsplit_once '' (ostree:'' (trim_end title) of
        Some (head, tail) \<Rightarrow>
          if parse_u32 (rev (dropWhile (\<lambda>c. c = CHR '')'') (rev tail))) \<noteq> None then head else title
      | None \<Rightarrow> title)"

definition wanted :: "string \<Rightarrow> deployments \<Rightarrow> (string \<times> string) option" where
  "wanted body sysroot =
     Option.bind (field body ''title'') (\<lambda>current.
       Option.bind (Option.bind (field body ''options'') ostree_karg) (\<lambda>karg.
         Option.bind (deployment_name sysroot karg) (\<lambda>pretty.
           (case suffix_index current of
              Some _ \<Rightarrow> map_option (\<lambda>i. (current, pretty @ '' (ostree:'' @ show_u32 i @ '')'')) (karg_index karg)
            | None \<Rightarrow> Some (current, pretty)))))"

section \<open>The entries directory\<close>

type_synonym entries = "(string \<times> file_text) list"

record retitle =
  rt_entry :: string
  rt_from :: string
  rt_to :: string

definition is_conf :: "string \<Rightarrow> bool" where
  "is_conf name =
     (case rsplit_char (CHR ''.'') name of Some (stem, ext) \<Rightarrow> stem \<noteq> [] \<and> ext = ''conf'' | None \<Rightarrow> False)"

text \<open>The directory that cannot be listed has no entries.\<close>

definition conf_files :: "entries option \<Rightarrow> string list" where
  "conf_files d = (case d of None \<Rightarrow> [] | Some fs \<Rightarrow> sort (filter is_conf (map fst fs)))"

definition stale_entry :: "entries \<Rightarrow> deployments \<Rightarrow> string \<Rightarrow> retitle option" where
  "stale_entry fs sysroot name =
     Option.bind (read_to_string (map_of fs name)) (\<lambda>body.
       Option.bind (wanted body sysroot) (\<lambda>(from, to).
         if from \<noteq> to then Some \<lparr>rt_entry = name, rt_from = from, rt_to = to\<rparr> else None))"

definition stale_titles :: "entries option \<Rightarrow> deployments \<Rightarrow> retitle list" where
  "stale_titles d sysroot =
     (case d of None \<Rightarrow> [] | Some fs \<Rightarrow> List.map_filter (stale_entry fs sysroot) (conf_files d))"

section \<open>The pass\<close>

definition retitled :: "string \<Rightarrow> string \<Rightarrow> string" where
  "retitled title body =
     unlines (map (\<lambda>l. if is_field l ''title'' then ''title '' @ title else l) (str_lines body))"

text \<open>
  The first step of a write that fails, and the temporary file it leaves: a failed rename removes it
  unless that fails too.
\<close>

datatype title_step = ReadEntry | CreateTmp | WriteTmp | SetMode | RenameTmp

type_synonym title_disk = "string \<Rightarrow> (title_step \<times> file_text option) option"

definition tmp_name :: "string \<Rightarrow> string" where
  "tmp_name name = ''.'' @ name @ ''.kuma''"

definition left_behind :: "string \<Rightarrow> file_text option \<Rightarrow> entries \<Rightarrow> entries" where
  "left_behind name left fs =
     (case left of Some t \<Rightarrow> AList.update (tmp_name name) t fs | None \<Rightarrow> AList.delete (tmp_name name) fs)"

definition write_title :: "title_disk \<Rightarrow> string \<Rightarrow> string \<Rightarrow> entries \<Rightarrow> (title_step + unit) \<times> entries" where
  "write_title D name title fs =
     (case read_to_string (map_of fs name) of
        None \<Rightarrow> (Inl ReadEntry, fs)
      | Some body \<Rightarrow>
          (case D name of
             None \<Rightarrow>
               (Inr (), AList.update name (Readable (retitled title body)) (AList.delete (tmp_name name) fs))
           | Some (step, left) \<Rightarrow>
               if step \<in> {ReadEntry, CreateTmp} then (Inl step, fs) else (Inl step, left_behind name left fs)))"

fun apply_titles :: "title_disk \<Rightarrow> retitle list \<Rightarrow> retitle list \<Rightarrow> title_step option \<Rightarrow> entries \<Rightarrow>
    (title_step + retitle list) \<times> entries" where
  "apply_titles D [] moved failed fs =
     ((case failed of Some err \<Rightarrow> Inl err | None \<Rightarrow> Inr moved), fs)"
| "apply_titles D (r # rs) moved failed fs =
     (case write_title D (rt_entry r) (rt_to r) fs of
        (Inr _, fs') \<Rightarrow> apply_titles D rs (moved @ [r]) failed fs'
      | (Inl err, fs') \<Rightarrow> apply_titles D rs moved (if failed = None then Some err else failed) fs')"

definition apply_stale :: "title_disk \<Rightarrow> deployments \<Rightarrow> entries \<Rightarrow> (title_step + retitle list) \<times> entries" where
  "apply_stale D sysroot fs = apply_titles D (stale_titles (Some fs) sysroot) [] None fs"

section \<open>A rewritten title reads back, and nothing else moves\<close>

lemma str_lines_unlines_cr: "\<forall>l \<in> set ls. nl \<notin> set l \<Longrightarrow> str_lines (unlines ls) = map strip_cr ls"
  by (simp add: str_lines_def split_unlines)

lemma space_cr [simp]: "CHR '' '' \<noteq> cr" "cr \<noteq> CHR '' ''" "CHR '' '' \<noteq> nl" "nl \<noteq> CHR '' ''"
  by code_simp+

lemma visible_t: "visible (CHR ''t'')"
  by (rule visibleI) (simp add: white_spaces_def)

lemma trim_start_visible: "visible c \<Longrightarrow> trim_start (c # s) = c # s"
  using drop_any_keeps space_first_visible [of spaces c "[]" s] by (simp add: trim_start_def visible_def)

lemma title_line_start: "\<exists>s. strip_cr (''title '' @ t) = ''title '' @ s"
  by (cases t rule: rev_cases) (auto simp: strip_cr_def butlast_append)

lemma is_field_first:
  assumes "is_field l ''title''" "k \<noteq> []" "hd k \<noteq> CHR ''t''"
  shows "\<not> is_field l k"
  using assms by (cases k) (auto simp: is_field_def strip_prefix_Some split: option.splits)

lemma title_line_other:
  assumes "k \<noteq> []" "hd k \<noteq> CHR ''t''"
  shows "\<not> is_field (strip_cr (''title '' @ t)) k"
proof -
  obtain s where s: "strip_cr (''title '' @ t) = CHR ''t'' # CHR ''i'' # s"
    using title_line_start [of t] by auto
  show ?thesis
    unfolding s using assms by (cases k) (auto simp: is_field_def trim_start_visible [OF visible_t] strip_prefix_Some split: option.splits)
qed

definition clean_lines :: "string \<Rightarrow> bool" where
  "clean_lines body = list_all line_ok (str_lines body)"

lemma retitled_lines:
  assumes "nl \<notin> set t" "clean_lines body"
  shows "str_lines (retitled t body) =
    map (\<lambda>l. if is_field l ''title'' then strip_cr (''title '' @ t) else l) (str_lines body)"
proof -
  have "nl \<notin> set ''title ''" by code_simp
  then have "\<forall>l \<in> set (map (\<lambda>l. if is_field l ''title'' then ''title '' @ t else l) (str_lines body)). nl \<notin> set l"
    using assms(1) str_lines_no_nl by auto
  then have "str_lines (retitled t body) =
      map strip_cr (map (\<lambda>l. if is_field l ''title'' then ''title '' @ t else l) (str_lines body))"
    unfolding retitled_def by (rule str_lines_unlines_cr)
  also have "\<dots> = map (\<lambda>l. if is_field l ''title'' then strip_cr (''title '' @ t) else l) (str_lines body)"
    using assms(2) by (auto simp: clean_lines_def list_all_iff)
  finally show ?thesis .
qed

lemma other_fields_survive:
  assumes "nl \<notin> set t" "clean_lines body" "k \<noteq> []" "hd k \<noteq> CHR ''t''"
  shows "field (retitled t body) k = field body k"
proof -
  have "find (\<lambda>l. is_field l k) (map (\<lambda>l. if is_field l ''title'' then strip_cr (''title '' @ t) else l) ls) =
      find (\<lambda>l. is_field l k) ls" for ls
    using title_line_other [OF assms(3,4)] is_field_first [OF _ assms(3,4)] by (induction ls) auto
  then show ?thesis by (simp only: field_def retitled_lines [OF assms(1,2)])
qed

lemma options_survive: "nl \<notin> set t \<Longrightarrow> clean_lines body \<Longrightarrow> field (retitled t body) ''options'' = field body ''options''"
  by (rule other_fields_survive) simp_all

lemma is_title_line: "is_field (''title '' @ s) ''title''"
  by (simp add: is_field_def trim_start_visible [OF visible_t] strip_prefix_def starts_with_def)

lemma title_reads_trimmed:
  assumes "nl \<notin> set t" "clean_lines body" "field body ''title'' \<noteq> None" "line_ok t"
  shows "field (retitled t body) ''title'' = Some (trim t)"
proof -
  have ok: "strip_cr (''title '' @ t) = ''title '' @ t"
    using assms(1,4) by (cases "t = []") (auto simp: strip_cr_def line_ok_def)
  have "find (\<lambda>l. is_field l ''title'') (map (\<lambda>l. if is_field l ''title'' then ''title '' @ t else l) ls) =
      Some (''title '' @ t)" if "find (\<lambda>l. is_field l ''title'') ls \<noteq> None" for ls
    using that is_title_line [of t] by (induction ls) auto
  moreover have "find (\<lambda>l. is_field l ''title'') (str_lines body) \<noteq> None" using assms(3) by (auto simp: field_def)
  ultimately have f: "find (\<lambda>l. is_field l ''title'') (str_lines (retitled t body)) = Some (''title '' @ t)"
    by (simp only: retitled_lines [OF assms(1,2)] ok)
  show ?thesis by (simp add: field_def f trim_start_visible [OF visible_t] trim_eq drop_any_space)
qed

lemma title_reads_back:
  assumes "nl \<notin> set t" "clean_lines body" "field body ''title'' \<noteq> None" "trimmed t" "line_ok t"
  shows "field (retitled t body) ''title'' = Some t"
  using title_reads_trimmed [OF assms(1-3,5)] assms(4) by simp

section \<open>A pass settles the titles\<close>

text \<open>
  A name the pass can settle on: trimmed, on one line, and not one that looks like it names a slot.
\<close>

definition settles :: "string \<Rightarrow> bool" where
  "settles p \<longleftrightarrow> trimmed p \<and> line_ok p \<and> suffix_index p = None"

lemma slot_chars [simp]: "\<not> is_digit (CHR '')'')" "\<not> is_digit (CHR ''('')" "\<not> is_digit (CHR '':'')"
  "\<not> is_digit cr" "\<not> is_digit nl"
  by code_simp+

lemma visible_paren: "visible (CHR '')'')" "visible (CHR ''('')"
  by (rule visibleI, simp add: white_spaces_def)+

definition slot_title :: "string \<Rightarrow> u32 \<Rightarrow> string" where
  "slot_title p i = p @ '' (ostree:'' @ show_u32 i @ '')''"

lemma no_space_ends_a_word: "list_all (\<lambda>w. length w \<le> 1 \<or> last w \<noteq> CHR '' '') spaces"
  by code_simp

lemma not_space_first_space:
  assumes "\<not> space_first spaces p" "p \<noteq> []"
  shows "\<not> space_first spaces (p @ '' '')"
proof
  assume "space_first spaces (p @ '' '')"
  then obtain w u where w: "w \<in> set spaces" "w \<noteq> []" "p @ '' '' = w @ u" by (auto simp: space_first_def starts_with_iff)
  show False
  proof (cases u rule: rev_cases)
    case Nil
    then have "w = p @ '' ''" using w(3) by simp
    then have "\<not> length w \<le> 1" "last w = CHR '' ''" using assms(2) by (cases p, auto)+
    then show ?thesis using w(1) no_space_ends_a_word by (auto simp: list_all_iff)
  next
    case (snoc u' c)
    then have "p = w @ u'" using w(3) by simp
    then show ?thesis using w(1,2) assms(1) by (auto simp: space_first_def)
  qed
qed

lemma slot_title_trimmed:
  assumes "trimmed p" "p \<noteq> []"
  shows "trimmed (slot_title p i)"
proof -
  have "\<not> space_first spaces (p @ '' '')" using assms by (intro not_space_first_space) (simp_all add: trimmed_def)
  then have "\<not> space_first spaces ((p @ '' '') @ CHR ''('' # ''ostree:'' @ show_u32 i)"
    using visible_paren(2) by (subst space_first_visible) (simp_all add: visible_def)
  then have "trimmed ((p @ '' (ostree:'' @ show_u32 i) @ CHR '')'' # [])"
    by (subst trimmed_visible [OF visible_paren(1)]) simp
  then show ?thesis by (simp add: slot_title_def)
qed

lemma split_once_skip:
  "c \<notin> set ds \<Longrightarrow> split_once (c # r) (ds @ (c # r) @ z) = Some (ds, z)"
  by (induction ds) (auto simp: starts_with_def)

lemma trim_end_visible: "visible c \<Longrightarrow> trim_end (s @ [c]) = s @ [c]"
  using drop_any_keeps [of "map rev spaces" "c # rev s"] space_first_visible [of "map rev spaces" c "[]" "rev s"]
  by (simp add: trim_end_def visible_def)

lemma slot_title_index: "suffix_index (slot_title p i) = Some i"
proof -
  have "trim_end (slot_title p i) = slot_title p i"
    using trim_end_visible [OF visible_paren(1), of "p @ '' (ostree:'' @ show_u32 i"] by (simp add: slot_title_def)
  moreover have "strip_suffix '')'' (slot_title p i) = Some (p @ '' (ostree:'' @ show_u32 i)"
    by (simp add: strip_suffix_def slot_title_def strip_prefix_def starts_with_def)
  moreover have "rsplit_once ''(ostree:'' (p @ '' (ostree:'' @ show_u32 i) = Some (p @ '' '', show_u32 i)"
  proof -
    have "CHR '':'' \<notin> set (rev (show_u32 i))" using show_u32_no_char [of "CHR '':''" i] by simp
    then have "split_once (CHR '':'' # ''eertso('') (rev (show_u32 i) @ (CHR '':'' # ''eertso('') @ CHR '' '' # rev p)
        = Some (rev (show_u32 i), CHR '' '' # rev p)"
      by (rule split_once_skip)
    then show ?thesis by (simp add: rsplit_once_def)
  qed
  ultimately show ?thesis by (simp add: suffix_index_def parse_show_u32)
qed

lemma slot_title_line: "line_ok p \<Longrightarrow> line_ok (slot_title p i)"
proof -
  assume p: "line_ok p"
  have "nl \<notin> set '' (ostree:''" "nl \<notin> set '')''" "last '')'' \<noteq> cr" by code_simp+
  then show ?thesis using p show_u32_no_char [of nl i] by (auto simp: slot_title_def line_ok_def)
qed

text \<open>What the deployment calls itself decides the title, and the old title only whether it names its slot.\<close>

lemma wanted_parts:
  "wanted body sysroot = Some (current, new) \<longleftrightarrow>
   field body ''title'' = Some current \<and>
   (\<exists>options karg pretty. field body ''options'' = Some options \<and> ostree_karg options = Some karg \<and>
      deployment_name sysroot karg = Some pretty \<and>
      (case suffix_index current of
         None \<Rightarrow> new = pretty
       | Some _ \<Rightarrow> (\<exists>i. karg_index karg = Some i \<and> new = slot_title pretty i)))"
  by (auto simp: wanted_def slot_title_def bind_eq_Some_conv split: option.splits)

lemma pretty_name_ne: "pretty_name r = Some p \<Longrightarrow> p \<noteq> []"
  by (auto simp: pretty_name_def bind_eq_Some_conv Let_def split: if_splits)

lemma find_map_in: "find_map f xs = Some y \<Longrightarrow> \<exists>x \<in> set xs. f x = Some y"
  by (induction xs) (auto split: option.splits)

lemma deployment_name_ne: "deployment_name sysroot karg = Some p \<Longrightarrow> p \<noteq> []"
  by (auto simp: deployment_name_def Let_def dest!: find_map_in pretty_name_ne)

lemma new_title_ok:
  assumes "wanted body sysroot = Some (current, new)"
    and "\<And>karg p. deployment_name sysroot karg = Some p \<Longrightarrow> settles p"
  shows "trimmed new \<and> line_ok new"
proof -
  obtain karg p where p: "deployment_name sysroot karg = Some p" "new = p \<or> (\<exists>i. new = slot_title p i)"
    using assms(1) by (auto simp: wanted_parts split: option.splits)
  then show ?thesis
    using assms(2) [OF p(1)] deployment_name_ne [OF p(1)] slot_title_trimmed slot_title_line
    by (auto simp: settles_def)
qed

lemma retitled_is_wanted:
  assumes w: "wanted body sysroot = Some (current, new)"
    and ok: "\<And>karg p. deployment_name sysroot karg = Some p \<Longrightarrow> settles p" and c: "clean_lines body"
  shows "wanted (retitled new body) sysroot = Some (new, new)"
proof -
  have n: "trimmed new" "line_ok new" "nl \<notin> set new"
    using new_title_ok [OF w ok] by (auto simp: line_ok_def)
  obtain options karg pretty where o: "field body ''options'' = Some options" "ostree_karg options = Some karg"
    "deployment_name sysroot karg = Some pretty"
    "case suffix_index current of None \<Rightarrow> new = pretty
     | Some _ \<Rightarrow> (\<exists>i. karg_index karg = Some i \<and> new = slot_title pretty i)"
    and t: "field body ''title'' = Some current"
    using w by (auto simp: wanted_parts)
  have "field (retitled new body) ''title'' = Some new"
    using title_reads_back [OF n(3) c _ n(1,2)] t by simp
  moreover have "field (retitled new body) ''options'' = Some options"
    using options_survive [OF n(3) c] o(1) by simp
  moreover have "case suffix_index new of None \<Rightarrow> new = pretty
     | Some _ \<Rightarrow> (\<exists>i. karg_index karg = Some i \<and> new = slot_title pretty i)"
  proof (cases "suffix_index current")
    case None
    then have "new = pretty" using o(4) by simp
    then show ?thesis using ok [OF o(3)] by (simp add: settles_def)
  next
    case (Some j)
    then obtain i where "karg_index karg = Some i" "new = slot_title pretty i" using o(4) by auto
    then show ?thesis by (simp add: slot_title_index)
  qed
  ultimately show ?thesis using o(2,3) unfolding wanted_parts by blast
qed

section \<open>No title brings a line of its own\<close>

lemma set_trim: "set (trim s) \<subseteq> set s"
  using trim_infix [of s] by (metis set_append Un_upper1 Un_upper2 order_trans)

lemma set_strip: "strip_prefix p s = Some t \<Longrightarrow> set t \<subseteq> set s" "strip_suffix p s = Some t \<Longrightarrow> set t \<subseteq> set s"
proof -
  show a: "strip_prefix p s = Some t \<Longrightarrow> set t \<subseteq> set s" for p s t by (auto simp: strip_prefix_Some)
  show "strip_suffix p s = Some t \<Longrightarrow> set t \<subseteq> set s"
    using a by (auto simp: strip_suffix_def simp del: set_rev dest!: a) (metis set_rev subsetD)
qed

lemma set_unquoted: "set (unquoted v) \<subseteq> set v"
proof -
  have "set w \<subseteq> set v" if "Option.bind (strip_prefix p v) (strip_suffix q) = Some w" for p q w
    using that by (auto simp: bind_eq_Some_conv dest!: set_strip)
  then show ?thesis by (auto simp: unquoted_def split: option.split)
qed

lemma find_mem: "find P xs = Some x \<Longrightarrow> x \<in> set xs"
  by (auto dest: find_Some_split)

lemma pretty_name_no_nl:
  assumes "pretty_name r = Some p"
  shows "nl \<notin> set p"
proof -
  obtain line where l: "find (starts_with ''PRETTY_NAME='') (map trim (str_lines r)) = Some line"
    "p = unquoted (trim (drop (length ''PRETTY_NAME='') line))"
    using assms by (auto simp: pretty_name_def bind_eq_Some_conv Let_def split: if_splits)
  from find_mem [OF l(1)] obtain l' where l': "l' \<in> set (str_lines r)" "line = trim l'" by auto
  have "set p \<subseteq> set (trim (drop (length ''PRETTY_NAME='') line))" unfolding l(2) by (rule set_unquoted)
  also have "\<dots> \<subseteq> set (drop (length ''PRETTY_NAME='') line)" by (rule set_trim)
  also have "\<dots> \<subseteq> set line" by (rule set_drop_subset)
  also have "\<dots> \<subseteq> set l'" unfolding l'(2) by (rule set_trim)
  finally show ?thesis using str_lines_no_nl [OF l'(1)] by auto
qed

lemma wanted_no_nl:
  assumes "wanted body sysroot = Some (current, new)"
  shows "nl \<notin> set new"
proof -
  obtain karg p where p: "deployment_name sysroot karg = Some p" "new = p \<or> (\<exists>i. new = slot_title p i)"
    using assms by (auto simp: wanted_parts split: option.splits)
  have "nl \<notin> set p" using p(1) by (auto simp: deployment_name_def Let_def dest!: find_map_in pretty_name_no_nl)
  moreover have "nl \<notin> set '' (ostree:''" "nl \<notin> set '')''" by code_simp+
  ultimately show ?thesis using p(2) show_u32_no_char [of nl] by (auto simp: slot_title_def)
qed

section \<open>The directory after a pass\<close>

lemma tmp_not_conf: "\<not> is_conf (tmp_name n)"
proof -
  have "rsplit_char (CHR ''.'') (''.'' @ n @ ''.kuma'') = Some (''.'' @ n, ''kuma'')"
    by (subst rsplit_char_Some) simp
  then show ?thesis by (simp add: is_conf_def tmp_name_def)
qed

lemma left_behind_conf: "is_conf n \<Longrightarrow> map_of (left_behind e left fs) n = map_of fs n"
  using tmp_not_conf [of e] by (auto simp: left_behind_def update_conv' delete_conv' split: option.split)

lemma write_title_ok:
  assumes "D e = None" "map_of fs e = Some (Readable body)" "is_conf e" "write_title D e t fs = (r, fs')"
  shows "r = Inr () \<and> (is_conf n \<longrightarrow>
    map_of fs' n = (if n = e then Some (Readable (retitled t body)) else map_of fs n))"
  using assms tmp_not_conf [of e] by (auto simp: write_title_def update_conv' delete_conv')

lemma write_title_failed:
  assumes "D e \<noteq> None" "write_title D e t fs = (r, fs')" "is_conf n"
  shows "(\<exists>err. r = Inl err) \<and> map_of fs' n = map_of fs n"
  using assms by (auto simp: write_title_def left_behind_conf split: option.splits if_splits)

lemma apply_titles_exact:
  assumes "apply_titles D rs moved failed fs = (res, fs')" "distinct (map rt_entry rs)"
    and "\<forall>r \<in> set rs. is_conf (rt_entry r) \<and> (\<exists>b. map_of fs (rt_entry r) = Some (Readable b))"
  shows "(\<forall>r \<in> set rs. D (rt_entry r) = None \<longrightarrow>
      (\<forall>b. map_of fs (rt_entry r) = Some (Readable b) \<longrightarrow>
        map_of fs' (rt_entry r) = Some (Readable (retitled (rt_to r) b)))) \<and>
    (\<forall>n. is_conf n \<longrightarrow> n \<notin> rt_entry ` set rs \<or> D n \<noteq> None \<longrightarrow> map_of fs' n = map_of fs n) \<and>
    ((\<exists>m. res = Inr m) \<longleftrightarrow> failed = None \<and> (\<forall>r \<in> set rs. D (rt_entry r) = None))"
  using assms
proof (induction rs arbitrary: moved failed fs)
  case Nil
  then show ?case by (auto split: option.splits)
next
  case (Cons r rs)
  let ?e = "rt_entry r"
  obtain b where b: "is_conf ?e" "map_of fs ?e = Some (Readable b)" using Cons.prems(3) by auto
  obtain w fs1 where w: "write_title D ?e (rt_to r) fs = (w, fs1)" by fastforce
  have later: "map_of fs1 (rt_entry s) = map_of fs (rt_entry s)" if "s \<in> set rs" for s
  proof -
    have "rt_entry s \<noteq> ?e" using Cons.prems(2) that by (metis distinct.simps(2) image_eqI list.simps(9) set_map)
    moreover have "is_conf (rt_entry s)" using Cons.prems(3) that by auto
    ultimately show ?thesis
      using write_title_ok [OF _ b(2,1) w, of "rt_entry s"] write_title_failed [OF _ w, of "rt_entry s"]
      by (cases "D ?e") auto
  qed
  have ih: "(\<forall>r \<in> set rs. D (rt_entry r) = None \<longrightarrow>
      (\<forall>b. map_of fs (rt_entry r) = Some (Readable b) \<longrightarrow>
        map_of fs' (rt_entry r) = Some (Readable (retitled (rt_to r) b)))) \<and>
    (\<forall>n. is_conf n \<longrightarrow> n \<notin> rt_entry ` set rs \<or> D n \<noteq> None \<longrightarrow> map_of fs' n = map_of fs1 n) \<and>
    ((\<exists>m. res = Inr m) \<longleftrightarrow> failed' = None \<and> (\<forall>r \<in> set rs. D (rt_entry r) = None))"
    if "apply_titles D rs moved' failed' fs1 = (res, fs')" for moved' failed'
  proof -
    have "\<forall>r \<in> set rs. is_conf (rt_entry r) \<and> (\<exists>b. map_of fs1 (rt_entry r) = Some (Readable b))"
      using Cons.prems(3) later by simp
    then have "(\<forall>r \<in> set rs. D (rt_entry r) = None \<longrightarrow>
      (\<forall>b. map_of fs1 (rt_entry r) = Some (Readable b) \<longrightarrow>
        map_of fs' (rt_entry r) = Some (Readable (retitled (rt_to r) b)))) \<and>
      (\<forall>n. is_conf n \<longrightarrow> n \<notin> rt_entry ` set rs \<or> D n \<noteq> None \<longrightarrow> map_of fs' n = map_of fs1 n) \<and>
      ((\<exists>m. res = Inr m) \<longleftrightarrow> failed' = None \<and> (\<forall>r \<in> set rs. D (rt_entry r) = None))"
      using Cons.IH [OF that] Cons.prems(2) by simp
    then show ?thesis using later by simp
  qed
  have out: "?e \<notin> rt_entry ` set rs" using Cons.prems(2) by auto
  show ?case
  proof (cases "D ?e")
    case None
    have ok: "w = Inr ()" "\<And>n. is_conf n \<Longrightarrow> map_of fs1 n = (if n = ?e then Some (Readable (retitled (rt_to r) b)) else map_of fs n)"
      using write_title_ok [OF None b(2,1) w] by auto
    have "apply_titles D rs (moved @ [r]) failed fs1 = (res, fs')" using Cons.prems(1) by (simp add: w ok(1))
    from ih [OF this] show ?thesis using ok(2) b out None by simp
  next
    case (Some x)
    then have bad: "\<exists>err. w = Inl err" "\<And>n. is_conf n \<Longrightarrow> map_of fs1 n = map_of fs n"
      using write_title_failed [OF _ w] b(1) by auto
    then obtain err where "w = Inl err" by blast
    then have "apply_titles D rs moved (if failed = None then Some err else failed) fs1 = (res, fs')"
      using Cons.prems(1) by (simp add: w)
    from ih [OF this] show ?thesis using bad(2) b Some by auto
  qed
qed

section \<open>The pass as a whole\<close>

lemma stale_in:
  assumes "distinct (map fst fs)"
  shows "r \<in> set (stale_titles (Some fs) sysroot) \<longleftrightarrow> is_conf (rt_entry r) \<and> stale_entry fs sysroot (rt_entry r) = Some r"
proof -
  have name: "rt_entry r = n" if "stale_entry fs sysroot n = Some r" for n
    using that by (auto simp: stale_entry_def bind_eq_Some_conv split: if_splits)
  have known: "n \<in> set (map fst fs)" if "stale_entry fs sysroot n = Some r" for n
    using that by (cases "map_of fs n") (auto simp: stale_entry_def dest: map_of_SomeD intro: rev_image_eqI)
  have "r \<in> set (stale_titles (Some fs) sysroot) \<longleftrightarrow> (\<exists>n \<in> set (conf_files (Some fs)). stale_entry fs sysroot n = Some r)"
    by (force simp: stale_titles_def List.map_filter_def)
  moreover have "set (conf_files (Some fs)) = {n \<in> set (map fst fs). is_conf n}" by (auto simp: conf_files_def)
  ultimately show ?thesis using name known by blast
qed

lemma stale_distinct:
  assumes "distinct (map fst fs)"
  shows "distinct (map rt_entry (stale_titles (Some fs) sysroot))"
proof -
  have "map rt_entry (List.map_filter (stale_entry fs sysroot) ns) = filter (\<lambda>n. stale_entry fs sysroot n \<noteq> None) ns" for ns
  proof (induction ns)
    case (Cons n ns)
    have "rt_entry r = n" if "stale_entry fs sysroot n = Some r" for r
      using that by (auto simp: stale_entry_def bind_eq_Some_conv split: if_splits)
    then show ?case using Cons by (cases "stale_entry fs sysroot n") (simp_all add: List.map_filter_simps)
  qed (simp add: List.map_filter_simps)
  then show ?thesis using assms by (simp add: stale_titles_def conf_files_def)
qed

lemma stale_entry_Some:
  "stale_entry fs sysroot n = Some r \<longleftrightarrow>
   (\<exists>body from to. map_of fs n = Some (Readable body) \<and> wanted body sysroot = Some (from, to) \<and> from \<noteq> to \<and>
      r = \<lparr>rt_entry = n, rt_from = from, rt_to = to\<rparr>)"
proof -
  have "read_to_string f = Some b \<longleftrightarrow> f = Some (Readable b)" for f b
    by (cases f rule: read_to_string.cases) auto
  then show ?thesis by (auto simp: stale_entry_def bind_eq_Some_conv split: if_splits)
qed

lemma apply_stale_exact:
  assumes "apply_stale D sysroot fs = (res, fs')" "distinct (map fst fs)" "is_conf n"
  shows "map_of fs' n =
    (case stale_entry fs sysroot n of
       Some r \<Rightarrow> if D n = None then map_option (\<lambda>f. case f of Readable b \<Rightarrow> Readable (retitled (rt_to r) b) | Unreadable \<Rightarrow> Unreadable) (map_of fs n)
         else map_of fs n
     | None \<Rightarrow> map_of fs n)" (is ?after)
    and "(\<exists>m. res = Inr m) \<longleftrightarrow> (\<forall>r \<in> set (stale_titles (Some fs) sysroot). D (rt_entry r) = None)" (is ?fine)
proof -
  let ?rs = "stale_titles (Some fs) sysroot"
  have readable: "\<forall>r \<in> set ?rs. is_conf (rt_entry r) \<and> (\<exists>b. map_of fs (rt_entry r) = Some (Readable b))"
    using stale_in [OF assms(2)] by (auto simp: stale_entry_Some)
  note exact = apply_titles_exact [OF assms(1) [unfolded apply_stale_def] stale_distinct [OF assms(2)] readable]
  show ?fine using exact by blast
  show ?after
  proof (cases "stale_entry fs sysroot n")
    case None
    then have "n \<notin> rt_entry ` set ?rs" using stale_in [OF assms(2)] by auto
    then show ?thesis using exact assms(3) None by simp
  next
    case (Some r)
    then have r: "rt_entry r = n" by (auto simp: stale_entry_Some)
    then have "r \<in> set ?rs" using stale_in [OF assms(2)] Some assms(3) by simp
    moreover obtain b where "map_of fs n = Some (Readable b)" using Some by (auto simp: stale_entry_Some)
    ultimately show ?thesis using exact assms(3) Some r by (cases "D n") auto
  qed
qed

definition entry_body :: "entries \<Rightarrow> string \<Rightarrow> string option" where
  "entry_body fs n = read_to_string (map_of fs n)"

lemma boot_lines_survive:
  assumes "apply_stale D sysroot fs = (res, fs')" "distinct (map fst fs)" "is_conf n"
    and "entry_body fs n = Some body" "clean_lines body" "k \<noteq> []" "hd k \<noteq> CHR ''t''"
  shows "\<exists>body'. entry_body fs' n = Some body' \<and> field body' k = field body k"
proof -
  have b: "map_of fs n = Some (Readable body)"
    using assms(4) by (cases "map_of fs n" rule: read_to_string.cases) (auto simp: entry_body_def)
  have after: "map_of fs' n = Some (Readable body) \<or>
      (\<exists>from to. wanted body sysroot = Some (from, to) \<and> map_of fs' n = Some (Readable (retitled to body)))"
    using apply_stale_exact(1) [OF assms(1-3)] b by (auto simp: stale_entry_Some split: option.splits)
  then show ?thesis
  proof
    assume "\<exists>from to. wanted body sysroot = Some (from, to) \<and> map_of fs' n = Some (Readable (retitled to body))"
    then obtain t cur where "wanted body sysroot = Some (cur, t)" "map_of fs' n = Some (Readable (retitled t body))" by blast
    then show ?thesis
      using other_fields_survive [OF wanted_no_nl assms(5-7)] by (simp add: entry_body_def)
  qed (simp add: entry_body_def)
qed

lemma finished_pass_is_settled:
  assumes "apply_stale D sysroot fs = (Inr moved, fs')" "distinct (map fst fs)" "is_conf n"
    and "entry_body fs n = Some body" "clean_lines body"
    and "\<And>karg p. deployment_name sysroot karg = Some p \<Longrightarrow> settles p"
  shows "stale_entry fs' sysroot n = None"
proof -
  have b: "map_of fs n = Some (Readable body)"
    using assms(4) by (cases "map_of fs n" rule: read_to_string.cases) (auto simp: entry_body_def)
  show ?thesis
  proof (cases "stale_entry fs sysroot n")
    case None
    then have "map_of fs' n = map_of fs n" using apply_stale_exact(1) [OF assms(1-3)] by simp
    then show ?thesis using None by (simp add: stale_entry_def)
  next
    case (Some r)
    then obtain cur t where w: "wanted body sysroot = Some (cur, t)" "rt_to r = t"
      using b by (auto simp: stale_entry_Some)
    have "r \<in> set (stale_titles (Some fs) sysroot)" "rt_entry r = n"
      using stale_in [OF assms(2)] Some assms(3) by (auto simp: stale_entry_Some)
    then have "D n = None" using apply_stale_exact(2) [OF assms(1-3)] by auto
    then have "map_of fs' n = Some (Readable (retitled t body))"
      using apply_stale_exact(1) [OF assms(1-3)] Some b w(2) by simp
    then show ?thesis
      using retitled_is_wanted [OF w(1) assms(6,5)] by (simp add: stale_entry_def)
  qed
qed

section \<open>Properties\<close>

text \<open>
  C30. Whatever the pass rewrites and whichever write fails at whichever step, every entry is still there
  and every field of it but the ones whose key begins like \<open>title\<close> reads as before: the kernel, the
  initial ram disk and the options that decide what the entry boots. The hypothesis is that no line of
  the entry ends in a second carriage return.
\<close>

theorem boot_lines_are_never_touched:
  assumes "apply_stale D sysroot fs = (res, fs')" "distinct (map fst fs)" "is_conf n"
    and "entry_body fs n = Some body" "clean_lines body" "k \<noteq> []" "hd k \<noteq> CHR ''t''"
  shows "\<exists>body'. entry_body fs' n = Some body' \<and> field body' k = field body k"
  by (rule boot_lines_survive [OF assms])


text \<open>
  One entry that cannot be written does not stop the others, and is itself as it was: after the pass
  a stale entry has its title exactly when its own writes succeed, and the pass reports success
  exactly when every stale entry was written.
\<close>

theorem failing_entry_stops_no_other:
  assumes "apply_stale D sysroot fs = (res, fs')" "distinct (map fst fs)" "is_conf n"
    and "stale_entry fs sysroot n = Some r" "map_of fs n = Some (Readable body)"
  shows "map_of fs' n = Some (Readable (if D n = None then retitled (rt_to r) body else body)) \<and>
    ((\<exists>m. res = Inr m) \<longleftrightarrow> (\<forall>s \<in> set (stale_titles (Some fs) sysroot). D (rt_entry s) = None))"
  using apply_stale_exact [OF assms(1-3)] assms(4,5) by simp

text \<open>
  A deployment whose name has spaces inside its quotes never has a settled title: the entry is
  written with them, read without them, and is stale again at once, so the pass rewrites it at every
  shutdown and the health check reports it for ever.
\<close>

theorem padded_name_never_settles:
  assumes "wanted body sysroot = Some (current, p)" "suffix_index current = None"
    and "\<not> trimmed p" "line_ok p" "suffix_index (trim p) = None" "clean_lines body"
  shows "wanted (retitled p body) sysroot = Some (trim p, p) \<and> trim p \<noteq> p"
proof -
  obtain options karg where o: "field body ''options'' = Some options" "ostree_karg options = Some karg"
    "deployment_name sysroot karg = Some p" and t: "field body ''title'' = Some current"
    using assms(1,2) by (auto simp: wanted_parts)
  have nl: "nl \<notin> set p" by (rule wanted_no_nl [OF assms(1)])
  have "field (retitled p body) ''title'' = Some (trim p)"
    using title_reads_trimmed [OF nl assms(6) _ assms(4)] t by simp
  moreover have "field (retitled p body) ''options'' = Some options" using options_survive [OF nl assms(6)] o(1) by simp
  ultimately have "wanted (retitled p body) sysroot = Some (trim p, p)"
    using o(2,3) assms(5) by (simp add: wanted_parts)
  moreover have "trim p \<noteq> p" using assms(3) trimmed_trim [of p] by metis
  ultimately show ?thesis by simp
qed

section \<open>A small machine\<close>

definition small_entry :: "string \<Rightarrow> string" where
  "small_entry t = unlines [''title '' @ t, ''options ostree=/d rw'']"

definition small_machine :: "string \<Rightarrow> deployments" where
  "small_machine p dir rel = Some (Readable (unlines [''PRETTY_NAME='' @ p]))"

lemma small_lines: "plain t \<Longrightarrow> str_lines (small_entry t) = [''title '' @ t, ''options ostree=/d rw'']"
proof -
  assume t: "plain t"
  have "nl \<notin> set ''title ''" "line_ok ''options ostree=/d rw''" by code_simp+
  then have "line_ok (''title '' @ t)" "line_ok ''options ostree=/d rw''"
    using plain_line [OF t] plain_nl [OF t] by (auto simp: line_ok_def)
  then show ?thesis unfolding small_entry_def by (intro str_lines_unlines) simp
qed

lemma visible_o: "visible (CHR ''o'')"
  by (rule visibleI) (simp add: white_spaces_def)

lemma is_options_line: "is_field ''options ostree=/d rw'' ''options''"
  by (simp add: is_field_def trim_start_visible [OF visible_o] strip_prefix_def starts_with_def)

lemma small_title: "plain t \<Longrightarrow> field (small_entry t) ''title'' = Some t"
  using is_title_line [of t] plain_trimmed [of t]
  by (simp add: field_def small_lines trim_start_visible [OF visible_t] trim_eq drop_any_space)
    (metis trim_eq trim_trimmed)

lemma small_karg: "plain t \<Longrightarrow> Option.bind (field (small_entry t) ''options'') ostree_karg = Some ''/d''"
proof -
  assume t: "plain t"
  have p: "plain ''ostree=/d''" by (simp add: plain_def)
  have "visible (CHR ''w'')" by (rule visibleI) (simp add: white_spaces_def)
  moreover have "\<not> space_first spaces ([] @ CHR ''o'' # ''stree=/d r'')"
    using visible_o by (subst space_first_visible) (simp_all add: visible_def)
  ultimately have "trimmed (''ostree=/d r'' @ CHR ''w'' # [])" by (subst trimmed_visible) simp_all
  then have "trim (CHR '' '' # ''ostree=/d rw'') = ''ostree=/d rw''"
    using trim_trimmed [of "''ostree=/d rw''"] by (simp add: trim_eq drop_any_space)
  have "\<not> is_field (''title '' @ t) ''options''"
    by (simp add: is_field_def trim_start_visible [OF visible_t] strip_prefix_def starts_with_def)
  then have "field (small_entry t) ''options'' = Some ''ostree=/d rw''"
    using is_options_line \<open>trim (CHR '' '' # ''ostree=/d rw'') = ''ostree=/d rw''\<close> by (simp add: field_def small_lines [OF t] trim_start_visible [OF visible_o])
  moreover have "split_ws ''ostree=/d rw'' = ''ostree=/d'' # split_ws ''rw''"
    using split_ws_word [OF p, of "''rw''"] by simp
  ultimately show ?thesis by (simp add: ostree_karg_def strip_prefix_def starts_with_def)
qed

lemma visible_PKQ: "visible (CHR ''P'')" "visible (CHR ''K'')" "visible (CHR 0x22)" "visible (CHR ''a'')"
  by (rule visibleI, simp add: white_spaces_def)+

lemma small_pretty: "pretty_name (unlines [''PRETTY_NAME='' @ v]) = Some u"
  if "trimmed v" "trimmed (''PRETTY_NAME='' @ v)" "line_ok (''PRETTY_NAME='' @ v)" "unquoted v = u" "u \<noteq> []"
proof -
  have "str_lines (unlines [''PRETTY_NAME='' @ v]) = [''PRETTY_NAME='' @ v]"
    using that(3) by (intro str_lines_unlines) simp
  then show ?thesis
    using that by (simp add: pretty_name_def Let_def starts_with_def)
qed

lemma pretty_Kuma: "pretty_name (unlines [''PRETTY_NAME='' @ ''Kuma'']) = Some ''Kuma''"
proof (rule small_pretty)
  have "plain ''Kuma''" "plain (''PRETTY_NAME='' @ ''Kuma'')" by (simp_all add: plain_def)
  then show "trimmed ''Kuma''" "trimmed (''PRETTY_NAME='' @ ''Kuma'')" "line_ok (''PRETTY_NAME='' @ ''Kuma'')"
    using plain_trimmed plain_line by blast+
  show "unquoted ''Kuma'' = ''Kuma''" by (simp add: unquoted_def strip_prefix_def starts_with_def)
qed simp

definition padded :: string where "padded = [CHR 0x22] @ ''Kuma '' @ [CHR 0x22]"

lemma pretty_padded: "pretty_name (unlines [''PRETTY_NAME='' @ padded]) = Some ''Kuma ''"
proof (rule small_pretty)
  show "trimmed padded" using edges_trimmed [OF visible_PKQ(3,3), of "''Kuma ''"] by (simp add: padded_def)
  show "trimmed (''PRETTY_NAME='' @ padded)"
    using edges_trimmed [OF visible_PKQ(1,3), of "''RETTY_NAME='' @ [CHR 0x22] @ ''Kuma ''"] by (simp add: padded_def)
  have "nl \<notin> set (''PRETTY_NAME='' @ padded)" "CHR 0x22 \<noteq> cr" unfolding padded_def by code_simp+
  then show "line_ok (''PRETTY_NAME='' @ padded)" by (simp add: line_ok_def padded_def)
  show "unquoted padded = ''Kuma ''"
    by (simp add: unquoted_def padded_def strip_prefix_def strip_suffix_def starts_with_def)
qed simp

lemma small_name: "pretty_name (unlines [''PRETTY_NAME='' @ v]) = Some u \<Longrightarrow> deployment_name (small_machine v) karg = Some u"
  by (simp add: deployment_name_def small_machine_def List.map_filter_simps)

lemma no_slot: "visible d \<Longrightarrow> d \<noteq> CHR '')'' \<Longrightarrow> suffix_index (s @ [d]) = None"
  using trim_end_visible [of d s] by (simp add: suffix_index_def strip_suffix_def strip_prefix_def starts_with_def)

lemma visible_d: "visible (CHR ''d'')"
  by (rule visibleI) (simp add: white_spaces_def)

lemma small_wanted:
  assumes "pretty_name (unlines [''PRETTY_NAME='' @ v]) = Some u"
  shows "wanted (small_entry ''Old'') (small_machine v) = Some (''Old'', u)"
proof -
  have p: "plain ''Old''" by (simp add: plain_def)
  have "suffix_index ''Old'' = None" using no_slot [OF visible_d, of "''Ol''"] by simp
  then show ?thesis by (simp only: wanted_def small_title [OF p] small_karg [OF p] small_name [OF assms] bind.bind_lunit option.case)
qed

definition small_dir :: entries where
  "small_dir = [(''a.conf'', Readable (small_entry ''Old''))]"

lemma small_dir_facts:
  "distinct (map fst small_dir)" "is_conf ''a.conf''" "entry_body small_dir ''a.conf'' = Some (small_entry ''Old'')"
  "map_of small_dir ''a.conf'' = Some (Readable (small_entry ''Old''))" "clean_lines (small_entry ''Old'')"
proof -
  show "is_conf ''a.conf''" by code_simp
  have "line_ok ''title Old''" "line_ok ''options ostree=/d rw''" by code_simp+
  then show "clean_lines (small_entry ''Old'')"
    using small_lines [of "''Old''"] by (simp add: clean_lines_def plain_def)
qed (simp_all add: small_dir_def entry_body_def)

theorem boot_lines_are_never_touched_witness:
  "\<exists>body'. entry_body (snd (apply_stale (\<lambda>_. None) (small_machine ''Kuma'') small_dir)) ''a.conf'' = Some body' \<and>
     field body' ''options'' = field (small_entry ''Old'') ''options''"
  by (rule boot_lines_are_never_touched
      [OF surjective_pairing small_dir_facts(1,2,3,5)]) simp_all

lemma settles_Kuma: "settles ''Kuma''"
proof -
  have "plain ''Kuma''" by (simp add: plain_def)
  then show ?thesis
    using plain_trimmed plain_line no_slot [OF visible_PKQ(4), of "''Kum''"] by (simp add: settles_def)
qed


theorem failing_entry_stops_no_other_witness:
  "map_of (snd (apply_stale (\<lambda>_. Some (RenameTmp, None)) (small_machine ''Kuma'') small_dir)) ''a.conf'' =
     Some (Readable (small_entry ''Old''))"
proof -
  have "stale_entry small_dir (small_machine ''Kuma'') ''a.conf'' = Some \<lparr>rt_entry = ''a.conf'', rt_from = ''Old'', rt_to = ''Kuma''\<rparr>"
    using small_wanted [OF pretty_Kuma] small_dir_facts(4) by (simp add: stale_entry_Some)
  from failing_entry_stops_no_other [OF surjective_pairing small_dir_facts(1,2) this small_dir_facts(4)]
  show ?thesis by simp
qed

theorem padded_name_never_settles_witness:
  "wanted (retitled ''Kuma '' (small_entry ''Old'')) (small_machine padded) = Some (trim ''Kuma '', ''Kuma '')"
proof -
  have p: "plain ''Kuma''" by (simp add: plain_def)
  then have t: "trim ''Kuma '' = ''Kuma''" using trim_last_space [of "''Kuma''"] by simp
  then have nt: "\<not> trimmed ''Kuma ''" using trim_trimmed [of "''Kuma ''"] by auto
  have "line_ok ''Kuma ''" by code_simp
  moreover have "suffix_index ''Old'' = None" "suffix_index (trim ''Kuma '') = None"
    using no_slot [OF visible_d, of "''Ol''"] no_slot [OF visible_PKQ(4), of "''Kum''"] by (simp_all add: t)
  ultimately show ?thesis
    using padded_name_never_settles [OF small_wanted [OF pretty_padded] _ nt _ _ small_dir_facts(5)] by blast
qed

end
