(* ===== verification/Declaration.thy ===== *)
theory Declaration
  imports LockFile
begin

text \<open>
  The declaration \<open>src/config.rs\<close>: its sections with their defaults, and \<open>Config::validate\<close>, the
  checks every value passes before it reaches a generated file. The toml reader that gives the
  sections their values is not modelled; a \<open>BTreeMap\<close> is the list of its entries in order.
\<close>

section \<open>The sections\<close>

datatype desktop = DesktopNone | Niri | Cosmic

record system_decl =
  sy_base :: "string option"
  sy_firmware :: "string list option"
  sy_desktop :: desktop
  sy_ca_certificates :: "(string \<times> string) list"
  sy_shell :: "string option"
  sy_brew :: bool
  sy_timezone :: "string option"
  sy_hostname :: "string option"
  sy_locale :: "string option"

record user_decl =
  ud_name :: string
  ud_shell :: "string option"
  ud_groups :: "string list"
  ud_password_hash :: "string option"
  ud_ssh_keys :: "string list"
  ud_autologin :: bool

record packages_decl =
  pk_rpm :: "string list"
  pk_flatpak :: "string list"
  pk_brew :: "string list"

record services_decl =
  sv_enable :: "string list"
  sv_disable :: "string list"

record snapshots_decl =
  sn_enable :: bool
  sn_target :: string
  sn_interval :: string
  sn_keep_recent :: u32
  sn_keep_daily :: u32

record backup_decl =
  bk_enable :: bool
  bk_repo :: string
  bk_secret :: string
  bk_interval :: string
  bk_keep_daily :: u32
  bk_keep_weekly :: u32
  bk_keep_monthly :: u32
  bk_exclude :: "string list"
  bk_network_connections :: bool

record nostr_decl =
  no_enable :: bool
  no_relays :: "string list"
  no_relay_enable :: bool
  no_inactivity_lock_secs :: "u64 option"
  no_serve :: bool

record config =
  cf_schema_version :: u32
  cf_system :: system_decl
  cf_user :: "user_decl option"
  cf_packages :: packages_decl
  cf_services :: services_decl
  cf_snapshots :: snapshots_decl
  cf_backup :: backup_decl
  cf_overrides :: "(string \<times> app_override) list"
  cf_nostr :: nostr_decl

definition config_schema :: u32 where "config_schema = 1"

definition default_snapshots :: snapshots_decl where
  "default_snapshots = \<lparr>sn_enable = False, sn_target = ''/var/home'', sn_interval = ''hourly'',
     sn_keep_recent = 24, sn_keep_daily = 7\<rparr>"

definition default_backup :: backup_decl where
  "default_backup = \<lparr>bk_enable = False, bk_repo = [], bk_secret = ''backup'', bk_interval = ''daily'',
     bk_keep_daily = 7, bk_keep_weekly = 4, bk_keep_monthly = 6, bk_exclude = [], bk_network_connections = False\<rparr>"

definition default_relays :: "string list" where
  "default_relays = [''wss://relay.nip46.com'']"

definition default_groups :: "string list" where
  "default_groups = [''wheel'']"

section \<open>Relays\<close>

datatype relay_fault = NoScheme | Plaintext | OtherScheme string

definition relay_host :: "string \<Rightarrow> string" where
  "relay_host rest =
     (let authority = hd (split_char (CHR ''/'') rest)
      in case strip_prefix ''['' authority of
           Some bracketed \<Rightarrow> hd (split_char (CHR '']'') bracketed)
         | None \<Rightarrow> hd (split_char (CHR '':'') authority))"

definition validate_relay :: "string \<Rightarrow> relay_fault + unit" where
  "validate_relay relay =
     (case split_once ''://'' relay of
        None \<Rightarrow> Inl NoScheme
      | Some (scheme, rest) \<Rightarrow>
          if scheme = ''wss'' then Inr ()
          else if scheme = ''ws'' then
            (if relay_host rest \<in> set [''127.0.0.1'', ''::1'', ''localhost''] then Inr () else Inl Plaintext)
          else Inl (OtherScheme scheme))"

section \<open>Validation\<close>

datatype config_error =
    UnsupportedSchema u32
  | BadEntry string name_error
  | FirmwareWithBase
  | UnknownFirmware string
  | BadPasswordHash
  | BadSshKey
  | NotPem string
  | PrivateKey string
  | BadOverride string override_error
  | BadTarget string
  | SnapshotsKeepNothing
  | RepoEmpty
  | RepoPassword
  | BackupNeedsSnapshots
  | BackupKeepsNothing
  | RelativeExclude string
  | NostrNeedsDesktop
  | BadRelay string relay_fault
  | ShortFuse u64

definition contains :: "string \<Rightarrow> string \<Rightarrow> bool" where
  "contains s sub \<longleftrightarrow> split_once sub s \<noteq> None"

definition entry_check :: "string \<Rightarrow> string \<Rightarrow> string \<Rightarrow> config_error + unit" where
  "entry_check fld extra v = map_sum (BadEntry fld) id (validate_name v extra)"

definition check_opt :: "('a \<Rightarrow> config_error + unit) \<Rightarrow> 'a option \<Rightarrow> config_error + unit" where
  "check_opt f v = (case v of Some x \<Rightarrow> f x | None \<Rightarrow> Inr ())"

definition fails_when :: "bool \<Rightarrow> config_error \<Rightarrow> config_error + unit" where
  "fails_when b e = (if b then Inl e else Inr ())"

definition firmware_packages :: "string list" where
  "firmware_packages =
     [''alsa-sof-firmware'', ''intel-vsc-firmware'', ''iwlwifi-dvm-firmware'', ''iwlwifi-mld-firmware'',
      ''iwlwifi-mvm-firmware'', ''amd-gpu-firmware'', ''amd-ucode-firmware'', ''atheros-firmware'',
      ''brcmfmac-firmware'', ''cirrus-audio-firmware'', ''intel-audio-firmware'', ''intel-gpu-firmware'',
      ''mt7xxx-firmware'', ''nvidia-gpu-firmware'', ''nxpwireless-firmware'', ''qcom-wwan-firmware'',
      ''realtek-firmware'', ''tiwilink-firmware'']"

definition well_formed_hash :: "string \<Rightarrow> bool" where
  "well_formed_hash hash \<longleftrightarrow>
     (let fields = split_char (CHR ''$'') (case strip_prefix ''$'' hash of Some r \<Rightarrow> r | None \<Rightarrow> [])
      in starts_with ''$'' hash \<and> 3 \<le> length fields \<and> list_all (\<lambda>f. f \<noteq> []) fields)"

definition system_checks :: "system_decl \<Rightarrow> (config_error + unit) list" where
  "system_checks s =
     [check_opt (entry_check ''system.base'' ''/:.-_@'') (sy_base s)] @
     (case sy_firmware s of None \<Rightarrow> []
      | Some firmware \<Rightarrow>
          fails_when (sy_base s \<noteq> None) FirmwareWithBase #
          map (\<lambda>p. fails_when (p \<notin> set firmware_packages) (UnknownFirmware p)) firmware) @
     [check_opt (entry_check ''system.timezone'' ''/-_+'') (sy_timezone s),
      check_opt (entry_check ''system.hostname'' ''-.'') (sy_hostname s),
      check_opt (entry_check ''system.locale'' ''_.-@'') (sy_locale s),
      check_opt (entry_check ''system.shell'' ''-'') (sy_shell s)]"

definition user_checks :: "user_decl \<Rightarrow> (config_error + unit) list" where
  "user_checks u =
     [entry_check ''user.name'' ''-_'' (ud_name u), check_opt (entry_check ''user.shell'' ''-'') (ud_shell u)] @
     map (entry_check ''user.groups'' ''-_'') (ud_groups u) @
     (case ud_password_hash u of None \<Rightarrow> []
      | Some hash \<Rightarrow> [entry_check ''user.password_hash'' ''$./='' hash, fails_when (\<not> well_formed_hash hash) BadPasswordHash]) @
     map (\<lambda>key. fails_when (\<not> list_ex (\<lambda>p. starts_with p key) [''ssh-'', ''ecdsa-'', ''sk-''] \<or> nl \<in> set key) BadSshKey)
       (ud_ssh_keys u)"

definition certificate_checks :: "string \<times> string \<Rightarrow> (config_error + unit) list" where
  "certificate_checks = (\<lambda>(name, pem).
     [entry_check ''system.ca_certificates'' ''.-_'' name,
      fails_when (\<not> contains pem ''-----BEGIN CERTIFICATE-----'' \<or> \<not> contains pem ''-----END CERTIFICATE-----'') (NotPem name),
      fails_when (contains pem ''PRIVATE KEY'') (PrivateKey name)])"

definition list_checks :: "packages_decl \<Rightarrow> services_decl \<Rightarrow> (config_error + unit) list" where
  "list_checks p s =
     map (entry_check ''packages.rpm'' ''.-_+:'') (pk_rpm p) @
     map (entry_check ''packages.flatpak'' ''.-_'') (pk_flatpak p) @
     map (entry_check ''packages.brew'' ''.-_+@/'') (pk_brew p) @
     map (entry_check ''services'' ''.-_@'') (sv_enable s @ sv_disable s)"

definition calendar_extra :: string where "calendar_extra = ''*-: ,./~''"

definition snapshot_checks :: "snapshots_decl \<Rightarrow> (config_error + unit) list" where
  "snapshot_checks s =
     (if \<not> sn_enable s then []
      else
        [fails_when (\<not> starts_with ''/'' (sn_target s) \<or> contains (sn_target s) ''..'') (BadTarget (sn_target s)),
         entry_check ''snapshots.target'' ''/.-_'' (sn_target s),
         entry_check ''snapshots.interval'' calendar_extra (sn_interval s),
         fails_when (sn_keep_recent s = 0 \<and> sn_keep_daily s = 0) SnapshotsKeepNothing])"

definition repo_userinfo :: "string \<Rightarrow> string option" where
  "repo_userinfo repo =
     (case split_once ''@'' repo of
        None \<Rightarrow> None
      | Some (before, _) \<Rightarrow>
          Some (case split_once (rev ''://'') (rev before) of
                  Some (b, _) \<Rightarrow> rev b
                | None \<Rightarrow> (case split_once '':'' before of Some (_, rest) \<Rightarrow> rest | None \<Rightarrow> before)))"

definition backup_checks :: "backup_decl \<Rightarrow> bool \<Rightarrow> (config_error + unit) list" where
  "backup_checks b snapshots_on =
     (if \<not> bk_enable b then []
      else
        [fails_when (bk_repo b = []) RepoEmpty,
         fails_when (case repo_userinfo (bk_repo b) of Some u \<Rightarrow> CHR '':'' \<in> set u | None \<Rightarrow> False) RepoPassword,
         entry_check ''backup.repo'' '':/.-_@+~'' (bk_repo b),
         fails_when (\<not> snapshots_on) BackupNeedsSnapshots,
         entry_check ''backup.secret'' ''.-_'' (bk_secret b),
         entry_check ''backup.interval'' calendar_extra (bk_interval b),
         fails_when (bk_keep_daily b = 0 \<and> bk_keep_weekly b = 0 \<and> bk_keep_monthly b = 0) BackupKeepsNothing] @
        concat (map (\<lambda>p. [fails_when (\<not> starts_with ''/'' p \<and> \<not> starts_with ''~'' p) (RelativeExclude p),
          entry_check ''backup.exclude'' ''/.-_~* '' p]) (bk_exclude b)))"

definition nostr_checks :: "nostr_decl \<Rightarrow> desktop \<Rightarrow> (config_error + unit) list" where
  "nostr_checks n d =
     (if \<not> no_enable n then []
      else
        fails_when (d = DesktopNone) NostrNeedsDesktop #
        map (\<lambda>r. map_sum (BadRelay r) id (validate_relay r)) (no_relays n) @
        [check_opt (\<lambda>secs. fails_when (secs \<noteq> 0 \<and> secs < 3600) (ShortFuse secs)) (no_inactivity_lock_secs n)])"

definition validate_config :: "config \<Rightarrow> config_error + unit" where
  "validate_config c =
     first_error
       ([fails_when (cf_schema_version c \<noteq> config_schema) (UnsupportedSchema (cf_schema_version c))] @
        system_checks (cf_system c) @
        (case cf_user c of Some u \<Rightarrow> user_checks u | None \<Rightarrow> []) @
        list_checks (cf_packages c) (cf_services c) @
        concat (map certificate_checks (sy_ca_certificates (cf_system c))) @
        map (\<lambda>(app, over). map_sum (BadOverride app) id (validate_override app over)) (cf_overrides c) @
        snapshot_checks (cf_snapshots c) @
        backup_checks (cf_backup c) (sn_enable (cf_snapshots c)) @
        nostr_checks (cf_nostr c) (sy_desktop (cf_system c)))"

section \<open>What a valid declaration holds\<close>

lemma fails_when_ok [simp]: "fails_when b e = Inr () \<longleftrightarrow> \<not> b"
  by (simp add: fails_when_def)

lemma entry_check_ok: "entry_check fld extra v = Inr () \<longleftrightarrow> validate_name v extra = Inr ()"
  by (simp add: entry_check_def map_sum_ok)

lemma check_opt_ok: "check_opt f v = Inr () \<longleftrightarrow> (\<forall>x. v = Some x \<longrightarrow> f x = Inr ())"
  by (cases v) (auto simp: check_opt_def)

lemma validate_config_ok:
  "validate_config c = Inr () \<longleftrightarrow>
   cf_schema_version c = config_schema \<and>
   (\<forall>r \<in> set (system_checks (cf_system c)). r = Inr ()) \<and>
   (\<forall>u. cf_user c = Some u \<longrightarrow> (\<forall>r \<in> set (user_checks u). r = Inr ())) \<and>
   (\<forall>r \<in> set (list_checks (cf_packages c) (cf_services c)). r = Inr ()) \<and>
   (\<forall>e \<in> set (sy_ca_certificates (cf_system c)). \<forall>r \<in> set (certificate_checks e). r = Inr ()) \<and>
   (\<forall>(app, over) \<in> set (cf_overrides c). validate_override app over = Inr ()) \<and>
   (\<forall>r \<in> set (snapshot_checks (cf_snapshots c)). r = Inr ()) \<and>
   (\<forall>r \<in> set (backup_checks (cf_backup c) (sn_enable (cf_snapshots c))). r = Inr ()) \<and>
   (\<forall>r \<in> set (nostr_checks (cf_nostr c) (sy_desktop (cf_system c))). r = Inr ())"
  unfolding validate_config_def first_error_ok set_append ball_Un conj_assoc
  by (cases "cf_user c") (simp_all add: map_sum_ok case_prod_unfold)

text \<open>
  The characters that end a quoted word or a line, or mean something to a shell outside quotes. The
  dollar sign is one of them, but a password hash is written with it, between single quotes.
\<close>

definition shell_special :: string where
  "shell_special = [CHR 0x27, CHR 0x22, CHR 0x60, CHR 0x5C, CHR 0x0A, CHR 0x0D, CHR 0x09] @ '';&|<>(){}[]#!?%^''"

definition harmless :: "string \<Rightarrow> bool" where
  "harmless v \<longleftrightarrow> v \<noteq> [] \<and> \<not> starts_with ''-'' v \<and> (\<forall>c \<in> set v. c \<notin> set shell_special)"

lemma special_not_alnum: "list_all (\<lambda>c. \<not> ascii_alnum c) shell_special"
  by code_simp

lemma name_harmless:
  assumes "validate_name v extra = Inr ()" "list_all (\<lambda>c. c \<notin> set shell_special) extra"
  shows "harmless v"
  using assms special_not_alnum by (auto simp: validate_name_ok harmless_def list_all_iff)

lemma safe_alphabets:
  "list_all (list_all (\<lambda>c. c \<notin> set shell_special))
     [''/:.-_@'', ''/-_+'', ''-.'', ''_.-@'', ''-'', ''-_'', ''$./='', ''.-_+:'', ''.-_'', ''.-_+@/'', ''.-_@'',
      ''/.-_'', calendar_extra, '':/.-_@+~'', ''/.-_~* '']"
  by code_simp

text \<open>The values of a declaration that generated shell, unit files and build steps are made of.\<close>

definition opt_list :: "'a option \<Rightarrow> 'a list" where
  "opt_list x = (case x of Some y \<Rightarrow> [y] | None \<Rightarrow> [])"

definition system_values :: "system_decl \<Rightarrow> string list" where
  "system_values s =
     opt_list (sy_base s) @ opt_list (sy_timezone s) @ opt_list (sy_hostname s) @ opt_list (sy_locale s) @
     opt_list (sy_shell s) @ map fst (sy_ca_certificates s)"

definition user_values :: "user_decl \<Rightarrow> string list" where
  "user_values u = ud_name u # opt_list (ud_shell u) @ ud_groups u @ opt_list (ud_password_hash u)"

definition list_values :: "packages_decl \<Rightarrow> services_decl \<Rightarrow> string list" where
  "list_values p s = pk_rpm p @ pk_flatpak p @ pk_brew p @ sv_enable s @ sv_disable s"

definition snapshot_values :: "snapshots_decl \<Rightarrow> string list" where
  "snapshot_values s = (if sn_enable s then [sn_target s, sn_interval s] else [])"

definition backup_values :: "backup_decl \<Rightarrow> string list" where
  "backup_values b = (if bk_enable b then [bk_repo b, bk_secret b, bk_interval b] @ bk_exclude b else [])"

definition generated_values :: "config \<Rightarrow> string list" where
  "generated_values c =
     system_values (cf_system c) @ concat (map user_values (opt_list (cf_user c))) @
     list_values (cf_packages c) (cf_services c) @ snapshot_values (cf_snapshots c) @ backup_values (cf_backup c)"

definition named :: "string \<Rightarrow> bool" where
  "named v \<longleftrightarrow> list_ex (\<lambda>extra. validate_name v extra = Inr ())
     [''/:.-_@'', ''/-_+'', ''-.'', ''_.-@'', ''-'', ''-_'', ''$./='', ''.-_+:'', ''.-_'', ''.-_+@/'', ''.-_@'',
      ''/.-_'', calendar_extra, '':/.-_@+~'', ''/.-_~* '']"

lemma named_harmless: "named v \<Longrightarrow> harmless v"
  using safe_alphabets by (auto simp: named_def intro: name_harmless)

lemma certificate_ok:
  "(\<forall>r \<in> set (certificate_checks e). r = Inr ()) \<longleftrightarrow>
   validate_name (fst e) ''.-_'' = Inr () \<and> contains (snd e) ''-----BEGIN CERTIFICATE-----'' \<and>
   contains (snd e) ''-----END CERTIFICATE-----'' \<and> \<not> contains (snd e) ''PRIVATE KEY''"
  by (cases e) (auto simp: certificate_checks_def entry_check_ok)

lemma system_named:
  assumes "\<forall>r \<in> set (system_checks s). r = Inr ()" "\<forall>e \<in> set (sy_ca_certificates s). \<forall>r \<in> set (certificate_checks e). r = Inr ()"
    and "v \<in> set (system_values s)"
  shows "named v"
proof -
  have "v \<in> fst ` set (sy_ca_certificates s) \<Longrightarrow> named v" using assms(2) by (auto simp: certificate_ok named_def)
  then show ?thesis
    using assms(1,3)
    by (auto simp: system_values_def system_checks_def named_def opt_list_def check_opt_ok entry_check_ok split: option.splits)
qed

lemma user_named: "\<forall>r \<in> set (user_checks u). r = Inr () \<Longrightarrow> v \<in> set (user_values u) \<Longrightarrow> named v"
  by (cases "ud_password_hash u"; cases "ud_shell u")
    (auto simp: user_values_def user_checks_def named_def opt_list_def check_opt_ok entry_check_ok ball_Un)

lemma list_named: "\<forall>r \<in> set (list_checks p s). r = Inr () \<Longrightarrow> v \<in> set (list_values p s) \<Longrightarrow> named v"
  by (auto simp: list_values_def list_checks_def named_def entry_check_ok ball_Un)

lemma snapshot_named: "\<forall>r \<in> set (snapshot_checks s). r = Inr () \<Longrightarrow> v \<in> set (snapshot_values s) \<Longrightarrow> named v"
  by (auto simp: snapshot_values_def snapshot_checks_def named_def entry_check_ok ball_Un split: if_splits)

lemma backup_named: "\<forall>r \<in> set (backup_checks b on). r = Inr () \<Longrightarrow> v \<in> set (backup_values b) \<Longrightarrow> named v"
  by (auto simp: backup_values_def backup_checks_def named_def entry_check_ok ball_Un split: if_splits)

lemma valid_is_harmless:
  assumes "validate_config c = Inr ()" "v \<in> set (generated_values c)"
  shows "harmless v"
proof -
  note ok = assms(1) [unfolded validate_config_ok]
  have "v \<in> set (system_values (cf_system c)) \<or> (\<exists>u. cf_user c = Some u \<and> v \<in> set (user_values u)) \<or>
      v \<in> set (list_values (cf_packages c) (cf_services c)) \<or> v \<in> set (snapshot_values (cf_snapshots c)) \<or>
      v \<in> set (backup_values (cf_backup c))"
    using assms(2) by (cases "cf_user c") (auto simp: generated_values_def opt_list_def)
  then have "named v"
  proof (elim disjE exE conjE)
    show "v \<in> set (system_values (cf_system c)) \<Longrightarrow> named v" using ok by (intro system_named) simp_all
    show "cf_user c = Some u \<Longrightarrow> v \<in> set (user_values u) \<Longrightarrow> named v" for u using ok by (intro user_named) simp_all
    show "v \<in> set (list_values (cf_packages c) (cf_services c)) \<Longrightarrow> named v" using ok by (intro list_named) simp_all
    show "v \<in> set (snapshot_values (cf_snapshots c)) \<Longrightarrow> named v" using ok by (intro snapshot_named) simp_all
    show "v \<in> set (backup_values (cf_backup c)) \<Longrightarrow> named v" 
      using ok by (intro backup_named [of _ "sn_enable (cf_snapshots c)"]) simp_all
  qed
  then show ?thesis by (rule named_harmless)
qed

section \<open>The two relay rules\<close>

text \<open>
  The rule of a declaration and the rule of a pairing URI say the same of every relay but one kind: a
  loopback address in brackets, which the declaration takes and the URI refuses.
\<close>

lemma hd_split_char: "hd (split_char d s) = takeWhile (\<lambda>c. c \<noteq> d) s"
  by (induction s) (auto split: list.splits)

lemma relay_rules_agree:
  assumes "\<And>scheme rest. split_once ''://'' r = Some (scheme, rest) \<Longrightarrow> \<not> starts_with ''['' rest"
  shows "validate_relay r = Inr () \<longleftrightarrow> relay_rule r = None"
proof (cases "split_once ''://'' r")
  case None
  then show ?thesis by (simp add: validate_relay_def relay_rule_def)
next
  case (Some p)
  obtain scheme rest where p: "p = (scheme, rest)" by fastforce
  have "strip_prefix ''['' (hd (split_char (CHR ''/'') rest)) = None"
    unfolding hd_split_char using assms Some p by (cases rest) (auto simp: strip_prefix_def starts_with_def)
  then show ?thesis using Some p by (simp add: validate_relay_def relay_rule_def relay_host_def Let_def)
qed

lemma relay_rule_stricter: "relay_rule r = None \<Longrightarrow> validate_relay r = Inr ()"
proof (rule ccontr)
  assume r: "relay_rule r = None" and bad: "validate_relay r \<noteq> Inr ()"
  then obtain scheme rest where s: "split_once ''://'' r = Some (scheme, rest)" "starts_with ''['' rest"
    using relay_rules_agree by blast
  then obtain t where rest: "rest = CHR ''['' # t" by (auto simp: starts_with_iff)
  have "hd (split_char (CHR '':'') (hd (split_char (CHR ''/'') rest))) \<noteq> ''127.0.0.1''"
    "hd (split_char (CHR '':'') (hd (split_char (CHR ''/'') rest))) \<noteq> ''::1''"
    "hd (split_char (CHR '':'') (hd (split_char (CHR ''/'') rest))) \<noteq> ''localhost''"
    unfolding rest hd_split_char by simp_all
  then show False using r bad s(1) by (auto simp: relay_rule_def validate_relay_def Let_def split: if_splits)
qed

lemma bracketed_only_declared:
  "validate_relay ''ws://[::1]:7777'' = Inr () \<and> relay_rule ''ws://[::1]:7777'' \<noteq> None"
  by code_simp

text \<open>A user name that looks like a loopback host hides the host behind it.\<close>

lemma loopback_user_name: "validate_relay (''ws://localhost:1@'' @ host) = Inr ()"
proof -
  have "split_once ''://'' (''ws://localhost:1@'' @ host) = Some (''ws'', ''localhost:1@'' @ host)"
    by (simp add: starts_with_def)
  then show ?thesis by (simp add: validate_relay_def relay_host_def hd_split_char strip_prefix_def starts_with_def)
qed

section \<open>Defaults\<close>

definition empty_config :: config where
  "empty_config = \<lparr>cf_schema_version = 1,
     cf_system = \<lparr>sy_base = None, sy_firmware = None, sy_desktop = DesktopNone, sy_ca_certificates = [],
       sy_shell = None, sy_brew = False, sy_timezone = None, sy_hostname = None, sy_locale = None\<rparr>,
     cf_user = None, cf_packages = \<lparr>pk_rpm = [], pk_flatpak = [], pk_brew = []\<rparr>,
     cf_services = \<lparr>sv_enable = [], sv_disable = []\<rparr>, cf_snapshots = default_snapshots, cf_backup = default_backup,
     cf_overrides = [],
     cf_nostr = \<lparr>no_enable = False, no_relays = default_relays, no_relay_enable = False,
       no_inactivity_lock_secs = None, no_serve = False\<rparr>\<rparr>"

lemma empty_config_valid: "validate_config empty_config = Inr ()"
  by code_simp

lemma defaults_stay_valid:
  "validate_config (empty_config\<lparr>cf_snapshots := default_snapshots\<lparr>sn_enable := True\<rparr>\<rparr>) = Inr ()"
  by code_simp



section \<open>What a declaration promises\<close>



text \<open>
  A declaration takes exactly the relays a pairing URI takes, and besides them the plain ones whose
  host is a loopback address in brackets.
\<close>

theorem declared_relays_exact:
  "validate_relay r = Inr () \<longleftrightarrow>
   relay_rule r = None \<or>
   (\<exists>rest. split_once ''://'' r = Some (''ws'', rest) \<and> starts_with ''['' rest \<and>
      relay_host rest \<in> {''127.0.0.1'', ''::1'', ''localhost''})"
proof
  assume v: "validate_relay r = Inr ()"
  show "relay_rule r = None \<or> (\<exists>rest. split_once ''://'' r = Some (''ws'', rest) \<and> starts_with ''['' rest \<and>
      relay_host rest \<in> {''127.0.0.1'', ''::1'', ''localhost''})"
  proof (cases "relay_rule r = None")
    case False
    have "\<not> (\<forall>scheme rest. split_once ''://'' r = Some (scheme, rest) \<longrightarrow> \<not> starts_with ''['' rest)"
    proof
      assume "\<forall>scheme rest. split_once ''://'' r = Some (scheme, rest) \<longrightarrow> \<not> starts_with ''['' rest"
      then have "validate_relay r = Inr () \<longleftrightarrow> relay_rule r = None" by (intro relay_rules_agree) simp
      with v False show False by simp
    qed
    then obtain scheme rest where s: "split_once ''://'' r = Some (scheme, rest)" "starts_with ''['' rest" by blast
    have "scheme = ''ws''"
      using False v s(1) by (simp add: validate_relay_def relay_rule_def split: if_split_asm)
    then show ?thesis using v s by (simp add: validate_relay_def split: if_split_asm)
  qed simp
next
  assume "relay_rule r = None \<or> (\<exists>rest. split_once ''://'' r = Some (''ws'', rest) \<and> starts_with ''['' rest \<and>
      relay_host rest \<in> {''127.0.0.1'', ''::1'', ''localhost''})"
  then show "validate_relay r = Inr ()"
  proof (elim disjE exE conjE)
    fix rest
    assume "split_once ''://'' r = Some (''ws'', rest)" "relay_host rest \<in> {''127.0.0.1'', ''::1'', ''localhost''}"
    then show "validate_relay r = Inr ()" by (simp add: validate_relay_def)
  qed (rule relay_rule_stricter)
qed

text \<open>
  The check for a password in the backup repository stops at the first at sign: one behind a user
  name that has an at sign of its own passes.
\<close>

theorem repo_password_passes:
  "validate_config (empty_config\<lparr>cf_snapshots := default_snapshots\<lparr>sn_enable := True\<rparr>,
     cf_backup := default_backup\<lparr>bk_enable := True, bk_repo := ''rest:https://me@corp.com:secret@host/''\<rparr>\<rparr>) = Inr ()"
  by code_simp

end
