(* ===== verification/Emitter.thy ===== *)
theory Emitter
  imports Declaration
begin

text \<open>
  The recorder that the blocks of the Containerfile write through, \<open>src/containerfile/emit.rs\<close>. A
  block is the list of its calls; an assertion of the source that fails is \<open>None\<close>. A text that is a
  constant of the source is named by that constant, a script with placeholders by its constant and
  what they are replaced with, in order, and a text made of several by its parts.
\<close>

section \<open>The recorder\<close>

datatype content =
    Constant string
  | Text string
  | Filled string "(string \<times> string) list"
  | Bytes string
  | Joined "content list"
  | Tree "(string \<times> content) list"

datatype live = Masked | Runs | Conditioned

datatype copy_mode = Plain | Exec | Private

datatype unit_scope = SystemScope | GlobalScope

text \<open>A line of the Containerfile: text with values in it, a constant text by how it begins, a copy, an enable.\<close>

datatype piece =
    Verbatim string
  | Fixed string
  | CopyLine copy_mode string string
  | EnableLine "(unit_scope \<times> string list) list"

datatype call =
    CRaw string
  | CFixed string
  | CStage string content
  | CStageTree string "(string \<times> content) list"
  | CCopy copy_mode string string
  | CEnable "(unit_scope \<times> string list) list"

record emitter =
  em_text :: "piece list"
  em_files :: "(string \<times> content) list"
  em_copied :: "string list"
  em_units :: "(string \<times> live) list"

definition new_emitter :: emitter where
  "new_emitter = \<lparr>em_text = [], em_files = [], em_copied = [], em_units = []\<rparr>"

definition enter_block :: "(string \<times> live) list \<Rightarrow> emitter \<Rightarrow> emitter" where
  "enter_block units e = e\<lparr>em_units := units\<rparr>"

definition is_copy_text :: "string \<Rightarrow> bool" where
  "is_copy_text t = starts_with ''COPY '' (drop_any spaces t)"

definition stage :: "string \<Rightarrow> content \<Rightarrow> emitter \<Rightarrow> emitter option" where
  "stage name c e =
     (case map_of (em_files e) name of
        Some existing \<Rightarrow> if existing = c then Some e else None
      | None \<Rightarrow> Some (e\<lparr>em_files := bt_insert name c (em_files e)\<rparr>))"

definition accounted :: "emitter \<Rightarrow> string \<Rightarrow> bool" where
  "accounted e unit_name \<longleftrightarrow> \<not> starts_with ''kuma-'' unit_name \<or> list_ex (\<lambda>(u, _). u = unit_name) (em_units e)"

definition named_units :: "(unit_scope \<times> string list) list \<Rightarrow> string list" where
  "named_units scopes = concat (map snd scopes)"

fun run_call :: "call \<Rightarrow> emitter \<Rightarrow> emitter option" where
  "run_call (CRaw t) e = (if is_copy_text t then None else Some (e\<lparr>em_text := em_text e @ [Verbatim t]\<rparr>))"
| "run_call (CFixed t) e = (if is_copy_text t then None else Some (e\<lparr>em_text := em_text e @ [Fixed t]\<rparr>))"
| "run_call (CStage name c) e = stage name c e"
| "run_call (CStageTree dir files) e = Some (e\<lparr>em_files := bt_insert dir (Tree files) (em_files e)\<rparr>)"
| "run_call (CCopy mode name dest) e =
     Some (e\<lparr>em_text := em_text e @ [CopyLine mode name dest], em_copied := name # em_copied e\<rparr>)"
| "run_call (CEnable scopes) e =
     (if list_all (accounted e) (named_units scopes)
      then Some (e\<lparr>em_text := em_text e @ [EnableLine scopes]\<rparr>) else None)"

fun run_calls :: "call list \<Rightarrow> emitter \<Rightarrow> emitter option" where
  "run_calls [] e = Some e"
| "run_calls (c # cs) e = (case run_call c e of None \<Rightarrow> None | Some e' \<Rightarrow> run_calls cs e')"

text \<open>The whole walk: every staged file is copied by some block.\<close>

definition reconcile :: "emitter \<Rightarrow> bool" where
  "reconcile e \<longleftrightarrow> list_all (\<lambda>(name, _). name \<in> set (em_copied e)) (em_files e)"

type_synonym block = "(string \<times> live) list \<times> call list"

fun walk :: "block list \<Rightarrow> emitter \<Rightarrow> emitter option" where
  "walk [] e = Some e"
| "walk ((units, calls) # bs) e =
     (case run_calls calls (enter_block units e) of None \<Rightarrow> None | Some e' \<Rightarrow> walk bs e')"

definition plan_blocks :: "block list \<Rightarrow> emitter option" where
  "plan_blocks bs =
     (case walk bs new_emitter of None \<Rightarrow> None | Some e \<Rightarrow> if reconcile e then Some e else None)"

section \<open>When a walk cannot fail\<close>

text \<open>What a list of calls stages and copies, and what it must not do.\<close>

fun staged_of :: "call \<Rightarrow> (string \<times> content) list" where
  "staged_of (CStage n c) = [(n, c)]"
| "staged_of (CStageTree n fs) = [(n, Tree fs)]"
| "staged_of _ = []"

fun copied_of :: "call \<Rightarrow> string list" where
  "copied_of (CCopy m n d) = [n]"
| "copied_of _ = []"

fun call_fine :: "(string \<times> live) list \<Rightarrow> call \<Rightarrow> bool" where
  "call_fine units (CRaw t) = (\<not> is_copy_text t)"
| "call_fine units (CFixed t) = (\<not> is_copy_text t)"
| "call_fine units (CEnable scopes) =
     list_all (\<lambda>u. starts_with ''kuma-'' u \<longrightarrow> u \<in> fst ` set units) (named_units scopes)"
| "call_fine units _ = True"

definition all_calls :: "block list \<Rightarrow> call list" where
  "all_calls bs = concat (map snd bs)"

definition agrees :: "(string \<Rightarrow> content option) \<Rightarrow> call list \<Rightarrow> bool" where
  "agrees F cs \<longleftrightarrow> (\<forall>c \<in> set cs. \<forall>(n, x) \<in> set (staged_of c). F n = Some x)"

definition files_agree :: "(string \<Rightarrow> content option) \<Rightarrow> emitter \<Rightarrow> bool" where
  "files_agree F e \<longleftrightarrow> (\<forall>(n, x) \<in> set (em_files e). F n = Some x)"

text \<open>What a run of calls copied and what it can have staged.\<close>

definition copied_names :: "call list \<Rightarrow> string set" where
  "copied_names cs = set (concat (map copied_of cs))"

definition staged_names :: "call list \<Rightarrow> string set" where
  "staged_names cs = set (map fst (concat (map staged_of cs)))"

definition file_names :: "emitter \<Rightarrow> string set" where
  "file_names e = set (map fst (em_files e))"

definition grows :: "call list \<Rightarrow> emitter \<Rightarrow> emitter \<Rightarrow> bool" where
  "grows cs e e' \<longleftrightarrow> set (em_copied e') = copied_names cs \<union> set (em_copied e) \<and>
     file_names e' \<subseteq> staged_names cs \<union> file_names e"

lemma names_append [simp]:
  "copied_names (cs @ ds) = copied_names cs \<union> copied_names ds"
  "staged_names (cs @ ds) = staged_names cs \<union> staged_names ds"
  by (simp_all add: copied_names_def staged_names_def)

lemma grows_append: "grows cs e e1 \<Longrightarrow> grows ds e1 e2 \<Longrightarrow> grows (cs @ ds) e e2"
  by (simp add: grows_def) blast

lemma grows_Nil: "grows [] e e"
  by (simp add: grows_def copied_names_def staged_names_def)

lemma accounted_fine:
  "em_units e = units \<Longrightarrow> starts_with ''kuma-'' u \<longrightarrow> u \<in> fst ` set units \<Longrightarrow> accounted e u"
  by (auto simp: accounted_def list_ex_iff)

lemma bt_insert_set: "set (bt_insert k v m) \<subseteq> insert (k, v) (set m)"
  by (induction k v m rule: bt_insert.induct) auto

lemma bt_insert_names: "set (map fst (bt_insert n c m)) \<subseteq> insert n (set (map fst m))"
  using bt_insert_keys [of n c m] by simp

lemma stage_agrees:
  assumes "files_agree F e" "F n = Some c"
  shows "\<exists>e'. stage n c e = Some e' \<and> files_agree F e' \<and> em_units e' = em_units e \<and> grows [CStage n c] e e'"
proof (cases "map_of (em_files e) n")
  case None
  have "files_agree F (e\<lparr>em_files := bt_insert n c (em_files e)\<rparr>)"
    using assms bt_insert_set [of n c "em_files e"] by (auto simp: files_agree_def)
  moreover have "grows [CStage n c] e (e\<lparr>em_files := bt_insert n c (em_files e)\<rparr>)"
    using bt_insert_names by (simp add: grows_def file_names_def staged_names_def copied_names_def)
  ultimately show ?thesis by (simp add: stage_def None)
next
  case (Some x)
  then have "(n, x) \<in> set (em_files e)" by (rule map_of_SomeD)
  then have "x = c" using assms by (auto simp: files_agree_def)
  then show ?thesis
    using assms(1) Some by (auto simp: stage_def grows_def staged_names_def copied_names_def)
qed

lemma run_call_fine:
  assumes "files_agree F e" "call_fine (em_units e) c" "\<forall>(n, x) \<in> set (staged_of c). F n = Some x"
  shows "\<exists>e'. run_call c e = Some e' \<and> files_agree F e' \<and> em_units e' = em_units e \<and> grows [c] e e'"
proof (cases c)
  case (CStage n x)
  then show ?thesis using stage_agrees [OF assms(1), of n x] assms(3) by auto
next
  case (CStageTree n fs)
  then show ?thesis
    using assms bt_insert_set [of n "Tree fs" "em_files e"] bt_insert_names [of n "Tree fs" "em_files e"]
    by (auto simp: files_agree_def grows_def file_names_def staged_names_def copied_names_def)
next
  case (CEnable scopes)
  then show ?thesis
    using assms accounted_fine [of e "em_units e"]
    by (auto simp: files_agree_def list_all_iff grows_def file_names_def staged_names_def copied_names_def)
qed (use assms in \<open>auto simp: files_agree_def grows_def file_names_def staged_names_def copied_names_def\<close>)

lemma run_calls_fine:
  assumes "files_agree F e" "list_all (call_fine (em_units e)) cs" "agrees F cs"
  shows "\<exists>e'. run_calls cs e = Some e' \<and> files_agree F e' \<and> em_units e' = em_units e \<and> grows cs e e'"
  using assms
proof (induction cs arbitrary: e)
  case Nil
  then show ?case by (simp add: grows_Nil)
next
  case (Cons c cs)
  obtain e1 where e1: "run_call c e = Some e1" "files_agree F e1" "em_units e1 = em_units e" "grows [c] e e1"
    using run_call_fine [OF Cons.prems(1), of c] Cons.prems(2,3) by (auto simp: agrees_def)
  have "list_all (call_fine (em_units e1)) cs" "agrees F cs"
    using Cons.prems(2,3) e1(3) by (auto simp: agrees_def)
  from Cons.IH [OF e1(2) this] obtain e2 where e2: "run_calls cs e1 = Some e2" "files_agree F e2"
    "em_units e2 = em_units e1" "grows cs e1 e2" by blast
  then have "grows ([c] @ cs) e e2" using grows_append [OF e1(4) e2(4)] by simp
  then show ?case using e1(1,3) e2(1-3) by simp
qed

lemma walk_fine:
  assumes "files_agree F e" "\<forall>(units, cs) \<in> set bs. list_all (call_fine units) cs \<and> agrees F cs"
  shows "\<exists>e'. walk bs e = Some e' \<and> files_agree F e' \<and> grows (all_calls bs) e e'"
  using assms
proof (induction bs arbitrary: e)
  case Nil
  then show ?case by (simp add: grows_Nil all_calls_def)
next
  case (Cons b bs)
  obtain units cs where b: "b = (units, cs)" by fastforce
  have "files_agree F (enter_block units e)" using Cons.prems(1) by (simp add: files_agree_def enter_block_def)
  from run_calls_fine [OF this, of cs] obtain e1 where e1: "run_calls cs (enter_block units e) = Some e1"
    "files_agree F e1" "grows cs (enter_block units e) e1"
    using Cons.prems(2) by (auto simp: b enter_block_def)
  from Cons.IH [OF e1(2)] Cons.prems(2) obtain e2 where e2: "walk bs e1 = Some e2" "files_agree F e2"
    "grows (all_calls bs) e1 e2"
    by (auto simp: b)
  have "grows cs e e1" using e1(3) by (simp add: grows_def enter_block_def file_names_def)
  then have "grows (cs @ all_calls bs) e e2" using e2(3) by (rule grows_append)
  then show ?case using e1(1) e2(1,2) by (simp add: b all_calls_def)
qed

text \<open>
  A walk that raises no copy, enables only units its blocks account for, stages one content per name
  and copies whatever it stages ends with a plan.
\<close>

lemma plan_blocks_fine:
  assumes "\<forall>(units, cs) \<in> set bs. list_all (call_fine units) cs \<and> agrees F cs"
    and "staged_names (all_calls bs) \<subseteq> copied_names (all_calls bs)"
  shows "\<exists>e. plan_blocks bs = Some e \<and> set (em_copied e) = copied_names (all_calls bs) \<and> files_agree F e"
proof -
  have "files_agree F new_emitter" by (simp add: files_agree_def new_emitter_def)
  from walk_fine [OF this assms(1)] obtain e where e: "walk bs new_emitter = Some e" "files_agree F e"
    "grows (all_calls bs) new_emitter e"
    by blast
  then have n: "set (em_copied e) = copied_names (all_calls bs)" "file_names e \<subseteq> staged_names (all_calls bs)"
    by (simp_all add: grows_def new_emitter_def file_names_def)
  then have "fst p \<in> set (em_copied e)" if "p \<in> set (em_files e)" for p
    using that assms(2) by (auto simp: file_names_def)
  then have "reconcile e" by (auto simp: reconcile_def list_all_iff)
  then show ?thesis using e(1,2) n(1) by (simp add: plan_blocks_def)
qed

end
