(* ===== verification/Blocks.thy ===== *)
theory Blocks
  imports Emitter
begin

text \<open>
  The blocks of the Containerfile, \<open>src/containerfile/blocks.rs\<close>, in the order of the registry, with
  the texts they make of the declaration, the base they are built on (\<open>src/compose.rs\<close>), the launcher
  entries (\<open>src/seam.rs\<close>) and the build context they are written into.
\<close>

section \<open>What the build brings in\<close>

text \<open>The hash of the manifest, the version stamps of the binary and the generated theme table.\<close>

record build_env =
  be_sha256 :: "content \<Rightarrow> 8 word list"
  be_version :: string
  be_package_version :: string
  be_theme :: "(string \<times> content) list"

definition bsl :: char where "bsl = CHR 0x5C"
definition apos :: char where "apos = CHR 0x27"
definition dquo :: char where "dquo = CHR 0x22"

definition joined :: "string \<Rightarrow> string list \<Rightarrow> string" where
  "joined sep ws = (case ws of [] \<Rightarrow> [] | w # r \<Rightarrow> w @ concat (map (\<lambda>x. sep @ x) r))"

text \<open>A list of names as a file: one a line, and no line for none.\<close>

definition list_file :: "string list \<Rightarrow> string" where
  "list_file ws = (let l = joined [nl] ws in if l \<noteq> [] then l @ [nl] else l)"

section \<open>The base\<close>

definition firmware_named :: "config \<Rightarrow> string list" where
  "firmware_named c =
     (case sy_firmware (cf_system c) of Some f \<Rightarrow> remdups_adj (sort f) | None \<Rightarrow> firmware_packages)"

definition base_manifest :: "config \<Rightarrow> content" where
  "base_manifest c =
     Filled ''manifest'' [(''{firmware_lines}'', concat (map (\<lambda>p. ''  - '' @ p @ [nl]) (firmware_named c)))]"

definition hex_byte :: "8 word \<Rightarrow> string" where
  "hex_byte b = [hex_digit False (unat b div 16), hex_digit False (unat b mod 16)]"

definition content_tag :: "build_env \<Rightarrow> config \<Rightarrow> string" where
  "content_tag B c = ''localhost/kuma-base:m'' @ concat (map hex_byte (take 6 (be_sha256 B (base_manifest c))))"

definition is_content_tag :: "string \<Rightarrow> bool" where
  "is_content_tag reference =
     (case strip_prefix ''localhost/kuma-base:m'' reference of
        Some h \<Rightarrow> length h = 12 \<and> list_all hex_lower h
      | None \<Rightarrow> False)"

definition base_ref :: "build_env \<Rightarrow> config \<Rightarrow> string" where
  "base_ref B c = (case sy_base (cf_system c) of Some b \<Rightarrow> b | None \<Rightarrow> content_tag B c)"

section \<open>Texts made of the declaration\<close>

definition dnf_layer :: "string \<Rightarrow> string" where
  "dnf_layer body =
     ''RUN --mount=type=cache,target=/var/cache/libdnf5 '' @ [bsl, nl] @ ''    '' @ body @ [nl]"

definition dnf_install :: "string \<Rightarrow> string" where
  "dnf_install packages = dnf_layer (''dnf -y install --setopt=keepcache=1 '' @ packages)"

definition keyring_pam :: "string \<Rightarrow> string" where
  "keyring_pam service =
     ''RUN test -f /usr/lib64/security/pam_gnome_keyring.so '' @ [bsl, nl] @
     ''    && grep -q pam_gnome_keyring /etc/pam.d/'' @ service @ '' /usr/lib/pam.d/'' @ service @ '' 2>/dev/null'' @ [nl]"

definition initial_session :: "string \<Rightarrow> string \<Rightarrow> string" where
  "initial_session command user =
     [nl] @ ''[initial_session]'' @ [nl] @ ''command = '' @ [dquo] @ command @ [dquo, nl] @
     ''user = '' @ [dquo] @ user @ [dquo, nl]"

definition autologin_of :: "config \<Rightarrow> string option" where
  "autologin_of c = (case cf_user c of Some u \<Rightarrow> if ud_autologin u then Some (ud_name u) else None | None \<Rightarrow> None)"

definition greetd_config :: "config \<Rightarrow> content" where
  "greetd_config c =
     (case autologin_of c of
        Some name \<Rightarrow> Joined [Constant ''GREETD_CONFIG'', Text (initial_session ''niri-session'' name)]
      | None \<Rightarrow> Constant ''GREETD_CONFIG'')"

definition autostart_off :: "string \<Rightarrow> string" where
  "autostart_off name =
     ''[Desktop Entry]'' @ [nl] @ ''Type=Application'' @ [nl] @ ''Name='' @ name @ [nl] @ ''Hidden=true'' @ [nl]"

definition snapshot_script :: "config \<Rightarrow> content" where
  "snapshot_script c =
     (let s = cf_snapshots c
      in Filled ''SNAPSHOT_SCRIPT'' [(''{target}'', sn_target s), (''{keep_recent}'', show_u32 (sn_keep_recent s)),
           (''{keep_daily}'', show_u32 (sn_keep_daily s))])"

definition curated_excludes :: "string list" where
  "curated_excludes = [''/linuxbrew'', ''/*/.cache'', ''/*/.local/share/containers'']"

definition exclude_line :: "string \<Rightarrow> string" where
  "exclude_line path = ''    --exclude '' @ [dquo] @ path @ [dquo] @ '' '' @ [bsl, nl]"

definition exclude_path :: "string \<Rightarrow> string" where
  "exclude_path path = (case strip_prefix ''~/'' path of Some rest \<Rightarrow> ''$target/*/'' @ rest | None \<Rightarrow> path)"

definition backup_excludes :: "backup_decl \<Rightarrow> string" where
  "backup_excludes b =
     (let lines = concat (map (\<lambda>s. exclude_line (''$target'' @ s)) curated_excludes) @
                  concat (map (\<lambda>p. exclude_line (exclude_path p)) (bk_exclude b))
      in trim_end (rev (dropWhile (\<lambda>c. c = bsl) (rev (trim_end lines)))))"

definition backup_script :: "config \<Rightarrow> content" where
  "backup_script c =
     (let b = cf_backup c
      in Filled ''BACKUP_SCRIPT''
           [(''{extra_paths}'', if bk_network_connections b then '' /etc/NetworkManager/system-connections'' else []),
            (''{target}'', sn_target (cf_snapshots c)), (''{repo}'', bk_repo b), (''{excludes}'', backup_excludes b),
            (''{keep_daily}'', show_u32 (bk_keep_daily b)), (''{keep_weekly}'', show_u32 (bk_keep_weekly b)),
            (''{keep_monthly}'', show_u32 (bk_keep_monthly b))])"

definition backup_service :: "config \<Rightarrow> content" where
  "backup_service c = Filled ''backup_service'' [(''{secret}'', bk_secret (cf_backup c))]"

definition timer_text :: "string \<Rightarrow> string \<Rightarrow> string \<Rightarrow> string" where
  "timer_text what interval delay =
     ''[Unit]'' @ [nl] @ ''Description='' @ what @ [nl, nl] @ ''[Timer]'' @ [nl] @ ''OnCalendar='' @ interval @ [nl] @
     ''Persistent=true'' @ [nl] @ ''RandomizedDelaySec='' @ delay @ [nl, nl] @
     ''[Install]'' @ [nl] @ ''WantedBy=timers.target'' @ [nl]"

definition backup_timer :: "string \<Rightarrow> string" where
  "backup_timer interval = timer_text ''Scheduled offsite backup'' interval ''1h''"

definition snapshot_timer :: "string \<Rightarrow> string" where
  "snapshot_timer interval = timer_text ''Scheduled btrfs snapshots'' interval ''5m''"

text \<open>The account, as the shell fragment that the converger sources.\<close>

definition assignment :: "string \<Rightarrow> string \<Rightarrow> string" where
  "assignment name v = name @ ''='' @ [apos] @ v @ [apos, nl]"

definition account_file :: "user_decl \<Rightarrow> string" where
  "account_file u =
     assignment ''KUMA_USER'' (ud_name u) @
     (case ud_shell u of Some s \<Rightarrow> assignment ''KUMA_SHELL'' (''/usr/bin/'' @ s) | None \<Rightarrow> []) @
     (if ud_groups u \<noteq> [] then assignment ''KUMA_GROUPS'' (joined '' '' (ud_groups u)) else []) @
     (case ud_password_hash u of Some h \<Rightarrow> assignment ''KUMA_PASSWORD_HASH'' h | None \<Rightarrow> [])"

definition keys_file :: "user_decl \<Rightarrow> string" where
  "keys_file u = joined [nl] (ud_ssh_keys u) @ [nl]"

text \<open>The bunker's command line, and the unit it stands in as the lines before and after it.\<close>

definition local_relay_url :: string where "local_relay_url = ''ws://127.0.0.1:7777''"

definition relay_args :: "nostr_decl \<Rightarrow> string" where
  "relay_args n =
     (if no_relay_enable n then '' --relay '' @ local_relay_url else []) @
     concat (map (\<lambda>r. '' --relay '' @ r) (no_relays n))"

definition inactivity_arg :: "nostr_decl \<Rightarrow> string" where
  "inactivity_arg n =
     (case no_inactivity_lock_secs n of
        Some secs \<Rightarrow> if 0 < secs then '' --inactivity-lock-secs '' @ show_u64 secs else []
      | None \<Rightarrow> [])"

definition exec_start :: "nostr_decl \<Rightarrow> string" where
  "exec_start n = ''ExecStart=/usr/bin/kuma-nostrd'' @ relay_args n @ inactivity_arg n"

definition nostrd_service :: "nostr_decl \<Rightarrow> content" where
  "nostrd_service n = Filled ''nostrd_service'' [(''{relay_args}'', relay_args n), (''{inactivity_arg}'', inactivity_arg n)]"

definition langpack :: "string \<Rightarrow> string option" where
  "langpack locale =
     (let lang = hd (split_char (CHR ''_'') locale)
      in if CHR ''_'' \<in> set locale \<and> 2 \<le> length lang \<and> length lang \<le> 3 \<and>
            list_all (\<lambda>c. 97 \<le> (of_char c :: nat) \<and> (of_char c :: nat) \<le> 122) lang
         then Some lang else None)"

section \<open>The launcher entries\<close>

record seam_entry =
  se_id :: string
  se_name :: string
  se_comment :: string
  se_icon :: string
  se_argv :: "string list"
  se_keywords :: "string list"

definition seam_entry :: "string \<Rightarrow> string \<Rightarrow> string \<Rightarrow> string \<Rightarrow> string list \<Rightarrow> string list \<Rightarrow> seam_entry" where
  "seam_entry i n c ic av k =
     \<lparr>se_id = i, se_name = n, se_comment = c, se_icon = ic, se_argv = av, se_keywords = k\<rparr>"

definition seam_entries :: "seam_entry list" where
  "seam_entries =
     [seam_entry ''kuma-edit'' ''Edit Declaration'' (''Open this machine'' @ [apos] @ ''s kuma.toml in your editor'')
        ''text-editor-symbolic'' [''edit''] [''kuma'', ''declaration'', ''config'', ''toml'', ''system''],
      seam_entry ''kuma-drift'' ''Show Drift'' ''Show drift between kuma.toml and this machine (read-only)''
        ''edit-find-symbolic'' [''diff''] [''kuma'', ''drift'', ''diff'', ''changes'', ''declaration''],
      seam_entry ''kuma-proposals'' ''Review Proposals''
        (''Declare what this machine already runs but kuma.toml doesn'' @ [apos] @ ''t name'')
        ''dialog-information-symbolic'' [''capture''] [''kuma'', ''capture'', ''proposals'', ''declare'', ''drift''],
      seam_entry ''kuma-doctor'' ''System Health''
        ''Check this machine: deployment, boot health, convergence, GPU, storage, disk''
        ''emblem-system-symbolic'' [''doctor''] [''kuma'', ''health'', ''doctor'', ''check'', ''diagnose'', ''status''],
      seam_entry ''kuma-update'' ''Check for Updates'' ''See what a rebuild would bring in, without building anything''
        ''software-update-available-symbolic'' [''update'', ''--check'']
        [''kuma'', ''update'', ''upgrade'', ''packages'', ''check''],
      seam_entry ''kuma-build'' ''Rebuild System'' ''Build the system image from kuma.toml''
        ''view-refresh-symbolic'' [''build''] [''kuma'', ''build'', ''rebuild'', ''image'', ''apply''],
      seam_entry ''kuma-rollback'' ''Roll Back'' ''Swap the boot order back to the previous deployment''
        ''go-previous-symbolic'' [''rollback''] [''kuma'', ''rollback'', ''revert'', ''undo'', ''previous'', ''boot''],
      seam_entry ''kuma-snapshots'' ''Snapshots''
        ''List the snapshots this machine has taken, or restore a path from one''
        ''drive-harddisk-symbolic'' [''snapshot''] [''kuma'', ''snapshot'', ''restore'', ''backup'', ''btrfs'']]"

definition seam_path :: "seam_entry \<Rightarrow> string" where
  "seam_path e = ''/usr/share/applications/'' @ se_id e @ ''.desktop''"

definition seam_render :: "seam_entry \<Rightarrow> string" where
  "seam_render e =
     unlines [''[Desktop Entry]'', ''Type=Application'', ''Version=1.0'', ''Name='' @ se_name e,
       ''Comment='' @ se_comment e, ''Icon='' @ se_icon e,
       ''Exec='' @ joined '' '' (''/usr/libexec/kuma-launch'' # se_argv e), ''Terminal=false'',
       ''Categories=System;X-Kuma;'', ''Keywords='' @ joined '';'' (se_keywords e) @ '';'', ''StartupNotify=false'']"


section \<open>The desktops' packages\<close>

definition niri_packages :: "string list" where
  "niri_packages =
     [''flatpak'', ''niri'', ''xwayland-satellite'', ''greetd'', ''tuigreet'', ''kitty'',
      ''pipewire'', ''pipewire-pulseaudio'', ''wireplumber'', ''xdg-desktop-portal-gtk'',
      ''xdg-desktop-portal-gnome'', ''dconf'', ''gnome-keyring'', ''gnome-keyring-pam'', ''polkit'',
      ''mesa-dri-drivers'', ''mesa-vulkan-drivers'', ''vulkan-loader'', ''default-fonts-core-sans'',
      ''default-fonts-core-mono'', ''fontawesome-fonts-all'', ''glibc-langpack-en'',
      ''NetworkManager-wifi'', ''adwaita-icon-theme'', ''adw-gtk3-theme'', ''desktop-file-utils'',
      ''NetworkManager-tui'', ''wpa_supplicant'', ''brightnessctl'', ''power-profiles-daemon'',
      ''pavucontrol'', ''nm-connection-editor'', ''bluez'', ''blueman'', ''thunar'',
      ''thunar-archive-plugin'', ''file-roller'', ''gvfs'', ''gvfs-mtp'', ''wf-recorder'',
      ''zram-generator-defaults'', ''avahi'', ''nss-mdns'', ''libnotify'', ''cups'',
      ''system-config-printer'', ''wl-clipboard'', ''xsettingsd'', ''spice-vdagent'',
      ''xdg-user-dirs'', ''default-fonts-core-emoji'', ''mate-polkit'', ''firewalld'', ''grim'',
      ''slurp'', ''swappy'', ''playerctl'', ''udiskie'', ''7zip'', ''unar'',
      ''google-noto-sans-cjk-vf-fonts'', ''fastfetch'']"

definition niri_excludes :: "string list" where
  "niri_excludes = [''alacritty'', ''waybar'', ''swaylock'', ''fuzzel'']"

definition cosmic_packages :: "string list" where
  "cosmic_packages =
     [''cosmic-session'', ''cosmic-edit'', ''flatpak'', ''fastfetch'', ''gnome-keyring'',
      ''gnome-keyring-pam'', ''pipewire'', ''pipewire-pulseaudio'', ''wireplumber'',
      ''mesa-dri-drivers'', ''mesa-vulkan-drivers'', ''vulkan-loader'', ''glibc-langpack-en'',
      ''NetworkManager-wifi'', ''wpa_supplicant'', ''power-profiles-daemon'', ''bluez'',
      ''firewalld'', ''zram-generator-defaults'', ''avahi'', ''nss-mdns'', ''cups'',
      ''system-config-printer'', ''spice-vdagent'', ''udisks2'', ''default-fonts-core-emoji'',
      ''google-noto-sans-cjk-vf-fonts'', ''adwaita-icon-theme'', ''desktop-file-utils'']"

section \<open>The blocks\<close>

definition one :: "string list \<Rightarrow> (unit_scope \<times> string list) list" where
  "one units = [(SystemScope, units)]"

definition header_block :: "build_env \<Rightarrow> config \<Rightarrow> call list" where
  "header_block B c =
     [CFixed (''# Generated by kuma. Edit kuma.toml instead.'' @ [nl]), CRaw (''FROM '' @ base_ref B c @ [nl])]"

definition desktop_files :: "(string \<times> content) list" where
  "desktop_files =
     [(''kargs-desktop.toml'', Constant ''DESKTOP_KARGS''), (''fastfetch-config.jsonc'', Constant ''FASTFETCH_CONFIG''),
      (''fastfetch-logo.txt'', Constant ''FASTFETCH_LOGO''), (''kuma-wallpaper.jpg'', Bytes ''WALLPAPER'')]"

definition stages :: "(string \<times> content) list \<Rightarrow> call list" where
  "stages fs = map (\<lambda>(n, x). CStage n x) fs"

definition niri_binds :: "config \<Rightarrow> content" where
  "niri_binds c =
     (if no_enable (cf_nostr c) then Joined [Constant ''NIRI_MEDIA_BINDS'', Text [nl], Constant ''NIRI_NOSTR_BIND'', Text [nl]]
      else Constant ''NIRI_MEDIA_BINDS'')"

definition niri_mimeapps :: "config \<Rightarrow> content" where
  "niri_mimeapps c =
     (if no_enable (cf_nostr c)
      then Joined [Constant ''MIMEAPPS'', Text ([nl] @ ''x-scheme-handler/nostrconnect=kuma-nostr-panel.desktop'' @ [nl])]
      else Constant ''MIMEAPPS'')"

definition niri_files :: "config \<Rightarrow> (string \<times> content) list" where
  "niri_files c =
     [(''greetd-config.toml'', greetd_config c), (''niri-extras.kdl'', Constant ''NIRI_EXTRAS''),
      (''kitty.conf'', Constant ''KITTY_CONFIG''), (''kuma-clipboard-bridge'', Constant ''clipboard_bridge''),
      (''kuma-xsettings'', Constant ''xsettings_launcher''), (''xsettingsd.conf'', Constant ''XSETTINGSD_CONF''),
      (''niri-binds.kdl'', niri_binds c), (''mimeapps.list'', niri_mimeapps c),
      (''kuma-record'', Constant ''RECORD_SCRIPT''), (''kuma-battery-watch'', Constant ''BATTERY_WATCH''),
      (''kuma-shell.service'', Constant ''SHELL_SERVICE''), (''kuma-lock'', Constant ''KUMA_LOCK_PAM''),
      (''kuma-sleep-guard.service'', Constant ''SLEEP_GUARD_SERVICE''), (''kuma-sleep-guard'', Constant ''SLEEP_GUARD''),
      (''gtk3-settings.ini'', Constant ''GTK3_SETTINGS_INI''), (''gtk4-settings.ini'', Constant ''GTK4_SETTINGS_INI''),
      (''dconf-profile'', Constant ''DCONF_PROFILE''), (''dconf-kuma-dark'', Constant ''DCONF_DARK''),
      (''dconf-kuma-blueman'', Constant ''DCONF_BLUEMAN''),
      (''autostart-blueman'', Text (autostart_off ''Blueman Applet'')),
      (''autostart-polkit-mate'', Text (autostart_off ''PolicyKit Authentication Agent''))]"

definition desktop_niri :: "config \<Rightarrow> call list" where
  "desktop_niri c =
     (if sy_desktop (cf_system c) \<noteq> Niri then []
      else
        stages (niri_files c) @ stages desktop_files @
        [CRaw [nl],
         CRaw (dnf_install (joined '' '' (map (\<lambda>p. ''--exclude='' @ p) niri_excludes) @ '' '' @ joined '' '' niri_packages)),
         CFixed ''RUN --mount=type=cache,target=/var/cache/libdnf5 '',
         CFixed ''RUN test -d /usr/share/themes/adw-gtk3-dark'',
         CCopy Plain ''greetd-config.toml'' ''/etc/greetd/config.toml'',
         CCopy Plain ''kargs-desktop.toml'' ''/usr/lib/bootc/kargs.d/10-kuma-desktop.toml'',
         CCopy Plain ''niri-extras.kdl'' ''/usr/lib/kuma/niri-extras.kdl'',
         CCopy Plain ''kuma-wallpaper.jpg'' ''/usr/share/backgrounds/kuma/kuma-wallpaper.jpg'',
         CCopy Exec ''kuma-shell'' ''/usr/bin/kuma-shell'',
         CCopy Plain ''kitty.conf'' ''/etc/xdg/kitty/kitty.conf'',
         CFixed ''RUN rc=0; kitty +runpy '',
         CCopy Exec ''kuma-clipboard-bridge'' ''/usr/libexec/kuma-clipboard-bridge'',
         CCopy Plain ''fastfetch-config.jsonc'' ''/etc/xdg/fastfetch/config.jsonc'',
         CCopy Plain ''fastfetch-logo.txt'' ''/usr/lib/kuma/fastfetch-logo.txt'',
         CCopy Exec ''kuma-xsettings'' ''/usr/libexec/kuma-xsettings'',
         CCopy Plain ''xsettingsd.conf'' ''/usr/lib/kuma/xsettingsd.conf'',
         CCopy Plain ''niri-binds.kdl'' ''/usr/lib/kuma/niri-binds.kdl'',
         CCopy Exec ''kuma-record'' ''/usr/libexec/kuma-record'',
         CCopy Exec ''kuma-battery-watch'' ''/usr/libexec/kuma-battery-watch'',
         CCopy Plain ''kuma-shell.service'' ''/usr/lib/systemd/user/kuma-shell.service'',
         CCopy Plain ''kuma-sleep-guard.service'' ''/usr/lib/systemd/system/kuma-sleep-guard.service'',
         CCopy Exec ''kuma-sleep-guard'' ''/usr/libexec/kuma-sleep-guard'',
         CEnable [(GlobalScope, [''kuma-shell.service'']), (SystemScope, [''kuma-sleep-guard.service''])],
         CCopy Plain ''gtk3-settings.ini'' ''/etc/gtk-3.0/settings.ini'',
         CCopy Plain ''gtk4-settings.ini'' ''/etc/gtk-4.0/settings.ini'',
         CCopy Plain ''mimeapps.list'' ''/etc/xdg/mimeapps.list'',
         CCopy Plain ''dconf-profile'' ''/etc/dconf/profile/user'',
         CRaw (keyring_pam ''greetd''),
         CCopy Plain ''kuma-lock'' ''/etc/pam.d/kuma-lock'',
         CCopy Plain ''dconf-kuma-dark'' ''/etc/dconf/db/local.d/10-kuma-dark'',
         CCopy Plain ''dconf-kuma-blueman'' ''/etc/dconf/db/local.d/10-kuma-blueman'',
         CFixed ''RUN dconf update'',
         CCopy Plain ''autostart-blueman'' ''/etc/xdg/autostart/blueman.desktop'',
         CCopy Plain ''autostart-polkit-mate'' ''/etc/xdg/autostart/polkit-mate-authentication-agent-1.desktop'',
         CFixed ''RUN grep -q '', CFixed ''RUN grep -q '', CFixed ''RUN grep -qx '',
         CFixed ''RUN systemctl set-default graphical.target && systemctl enable greetd.service ''])"

definition desktop_cosmic :: "config \<Rightarrow> call list" where
  "desktop_cosmic c =
     (if sy_desktop (cf_system c) \<noteq> Cosmic then []
      else
        stages [(''cosmic-favorites'', Constant ''COSMIC_FAVORITES''), (''cosmic-background'', Constant ''COSMIC_BACKGROUND'')] @
        stages desktop_files @
        [CRaw [nl], CRaw (dnf_install (joined '' '' cosmic_packages)),
         CFixed ''RUN --mount=type=cache,target=/var/cache/libdnf5 ''] @
        (case autologin_of c of
           Some name \<Rightarrow>
             [CRaw (''RUN test -f /etc/greetd/cosmic-greeter.toml && printf '' @ [apos, bsl] @ ''n[initial_session]'' @
                [bsl] @ ''ncommand = '' @ [dquo] @ ''start-cosmic'' @ [dquo, bsl] @ ''nuser = '' @ [dquo] @ name @
                [dquo, bsl] @ ''n'' @ [apos] @ '' >> /etc/greetd/cosmic-greeter.toml'' @ [nl])]
         | None \<Rightarrow> []) @
        [CFixed ''RUN rm /etc/xdg/autostart/com.system76.CosmicInitialSetup.desktop'',
         CFixed ''RUN printf '', CRaw (keyring_pam ''cosmic-greeter''),
         CCopy Plain ''kargs-desktop.toml'' ''/usr/lib/bootc/kargs.d/10-kuma-desktop.toml'',
         CCopy Plain ''fastfetch-config.jsonc'' ''/etc/xdg/fastfetch/config.jsonc'',
         CCopy Plain ''fastfetch-logo.txt'' ''/usr/lib/kuma/fastfetch-logo.txt'',
         CCopy Plain ''kuma-wallpaper.jpg'' ''/usr/share/backgrounds/kuma/kuma-wallpaper.jpg'',
         CFixed ''RUN test -f /usr/share/cosmic/com.system76.CosmicAppList/v1/favorites '',
         CCopy Plain ''cosmic-favorites'' ''/usr/share/cosmic/com.system76.CosmicAppList/v1/favorites'',
         CCopy Plain ''cosmic-background'' ''/usr/share/cosmic/com.system76.CosmicBackground/v1/all'',
         CFixed ''RUN systemctl set-default graphical.target && systemctl enable cosmic-greeter.service ''])"

definition wants_flatpak :: "config \<Rightarrow> bool" where
  "wants_flatpak c \<longleftrightarrow> sy_desktop (cf_system c) \<noteq> DesktopNone \<or> pk_flatpak (cf_packages c) \<noteq> []"

definition flatpak_remote :: "config \<Rightarrow> call list" where
  "flatpak_remote c =
     (if \<not> wants_flatpak c then []
      else
        (if sy_desktop (cf_system c) = DesktopNone then [CRaw [nl], CRaw (dnf_install ''flatpak'')] else []) @
        [CFixed ''RUN curl --fail -Lo /etc/flatpak/remotes.d/flathub.flatpakrepo ''])"

fun scope_str :: "scope \<Rightarrow> string" where
  "scope_str System = ''system''"
| "scope_str User = ''user''"

definition override_stores :: "config \<Rightarrow> (string \<times> content) list" where
  "override_stores c =
     map (\<lambda>sc. (scope_str sc,
       Tree (map (\<lambda>(app, over). (app, Text (render_app over)))
         (filter (\<lambda>(app, over). ao_scope over = sc) (cf_overrides c))))) [System, User]"

definition flatpak_sync :: "config \<Rightarrow> call list" where
  "flatpak_sync c =
     (if \<not> wants_flatpak c then []
      else
        stages
          [(''flatpaks'', Text (list_file (pk_flatpak (cf_packages c)))),
           (''kuma-flatpak-sync'', Constant ''FLATPAK_SYNC_SCRIPT''),
           (''kuma-flatpak-sync.service'', Constant ''FLATPAK_SYNC_SERVICE''),
           (''kuma-flatpak-sync.timer'', Constant ''FLATPAK_SYNC_TIMER''),
           (''kuma-converge-gate'', Constant ''CONVERGE_GATE_SCRIPT''),
           (''kuma-flatpak-sync-daily.service'', Constant ''FLATPAK_SYNC_DAILY_SERVICE'')] @
        [CStageTree ''overrides'' (override_stores c)] @
        stages
          [(''kuma-flatpak-overrides.service'', Constant ''FLATPAK_OVERRIDES_SERVICE''),
           (''kuma-flatpak-overrides-user.service'', Constant ''FLATPAK_OVERRIDES_USER_SERVICE'')] @
        [CCopy Plain ''flatpaks'' ''/usr/lib/kuma/flatpaks'',
         CCopy Exec ''kuma-flatpak-sync'' ''/usr/libexec/kuma-flatpak-sync'',
         CCopy Plain ''kuma-flatpak-sync.service'' ''/usr/lib/systemd/system/kuma-flatpak-sync.service'',
         CCopy Plain ''kuma-flatpak-sync.timer'' ''/usr/lib/systemd/system/kuma-flatpak-sync.timer'',
         CCopy Exec ''kuma-converge-gate'' ''/usr/libexec/kuma-converge-gate'',
         CCopy Plain ''kuma-flatpak-sync-daily.service'' ''/usr/lib/systemd/system/kuma-flatpak-sync-daily.service'',
         CEnable (one [''kuma-flatpak-sync.service'', ''kuma-flatpak-sync.timer'']),
         CCopy Plain ''overrides'' ''/usr/lib/kuma/overrides'',
         CCopy Plain ''kuma-flatpak-overrides.service'' ''/usr/lib/systemd/system/kuma-flatpak-overrides.service'',
         CCopy Plain ''kuma-flatpak-overrides-user.service'' ''/usr/lib/systemd/user/kuma-flatpak-overrides.service'',
         CEnable [(SystemScope, [''kuma-flatpak-overrides.service'']), (GlobalScope, [''kuma-flatpak-overrides.service''])]])"

definition brew_block :: "config \<Rightarrow> call list" where
  "brew_block c =
     (if \<not> (sy_brew (cf_system c) \<or> pk_brew (cf_packages c) \<noteq> []) then []
      else
        stages
          [(''kuma-brew-setup'', Constant ''BREW_SETUP_SCRIPT''), (''kuma-brew-setup.service'', Constant ''BREW_SETUP_SERVICE''),
           (''brew-profile.sh'', Constant ''BREW_PROFILE_SH''), (''brew-profile.fish'', Constant ''BREW_PROFILE_FISH''),
           (''brews'', Text (list_file (pk_brew (cf_packages c)))),
           (''kuma-brew-sync'', Constant ''BREW_SYNC_SCRIPT''), (''kuma-brew-sync.service'', Constant ''BREW_SYNC_SERVICE''),
           (''kuma-brew-sync.timer'', Constant ''BREW_SYNC_TIMER''), (''kuma-converge-gate'', Constant ''CONVERGE_GATE_SCRIPT''),
           (''kuma-brew-sync-daily.service'', Constant ''BREW_SYNC_DAILY_SERVICE'')] @
        [CRaw [nl], CRaw (dnf_install ''git-core tar''),
         CCopy Exec ''kuma-brew-setup'' ''/usr/libexec/kuma-brew-setup'',
         CCopy Plain ''kuma-brew-setup.service'' ''/usr/lib/systemd/system/kuma-brew-setup.service'',
         CCopy Plain ''brew-profile.sh'' ''/etc/profile.d/kuma-brew.sh'',
         CCopy Plain ''brew-profile.fish'' ''/etc/fish/conf.d/kuma-brew.fish'',
         CCopy Plain ''brews'' ''/usr/lib/kuma/brews'',
         CCopy Exec ''kuma-brew-sync'' ''/usr/libexec/kuma-brew-sync'',
         CCopy Plain ''kuma-brew-sync.service'' ''/usr/lib/systemd/system/kuma-brew-sync.service'',
         CCopy Plain ''kuma-brew-sync.timer'' ''/usr/lib/systemd/system/kuma-brew-sync.timer'',
         CCopy Exec ''kuma-converge-gate'' ''/usr/libexec/kuma-converge-gate'',
         CCopy Plain ''kuma-brew-sync-daily.service'' ''/usr/lib/systemd/system/kuma-brew-sync-daily.service'',
         CEnable (one [''kuma-brew-setup.service'', ''kuma-brew-sync.service'', ''kuma-brew-sync.timer''])])"

definition rpm_block :: "config \<Rightarrow> call list" where
  "rpm_block c =
     (if pk_rpm (cf_packages c) = [] then []
      else [CRaw [nl], CRaw (dnf_install (joined '' '' (pk_rpm (cf_packages c))))])"

definition sshd_block :: "call list" where
  "sshd_block = [CRaw [nl], CEnable (one [''sshd.service''])]"

definition services_block :: "config \<Rightarrow> call list" where
  "services_block c =
     (let s = cf_services c;
          commands = map (\<lambda>u. ''systemctl enable '' @ u) (sv_enable s) @ map (\<lambda>u. ''systemctl disable '' @ u) (sv_disable s)
      in if commands \<noteq> [] then [CRaw ([nl] @ ''RUN '' @ joined '' && '' commands @ [nl])] else [])"

definition fuse_block :: "call list" where
  "fuse_block = [CRaw [nl], CRaw (dnf_install ''fuse fuse-libs'')]"

definition greenboot_block :: "call list" where
  "greenboot_block = [CRaw [nl], CRaw (dnf_install ''greenboot'')]"

definition plymouth_block :: "build_env \<Rightarrow> call list" where
  "plymouth_block B =
     [CStageTree ''plymouth'' (be_theme B), CRaw [nl],
      CRaw (dnf_install ''plymouth plymouth-plugin-script plymouth-plugin-label dejavu-sans-fonts''),
      CCopy Plain ''plymouth'' ''/usr/share/plymouth/themes/spinner_alt/'',
      CFixed ''RUN printf '', CFixed ''RUN printf '', CFixed ''RUN set -eux; '', CFixed ''    kver='',
      CFixed ''    test '', CFixed ''    mkdir -p /var/roothome; '', CFixed ''    dconf='', CFixed ''    printf '',
      CFixed ''    dracut --add-confdir '']"

definition icon_check :: "nat \<Rightarrow> seam_entry \<Rightarrow> string" where
  "icon_check i e =
     ''    && find /usr/share/icons/Adwaita -name '' @ se_icon e @ ''.svg | grep -q .'' @
     (if i + 1 = length seam_entries then [] else [CHR '' '', bsl]) @ [nl]"

definition greeter_seam :: "config \<Rightarrow> call list" where
  "greeter_seam c =
     (if sy_desktop (cf_system c) = DesktopNone then []
      else
        stages desktop_files @
        stages [(''kuma-greeter-check'', Constant ''GREETER_CHECK''), (''kuma-launch'', Constant ''KUMA_LAUNCH'')] @
        stages (map (\<lambda>e. (se_id e @ ''.desktop'', Text (seam_render e))) seam_entries) @
        [CCopy Exec ''kuma-greeter-check'' ''/usr/lib/greenboot/check/required.d/50-kuma-greeter.sh'',
         CCopy Exec ''kuma-launch'' ''/usr/libexec/kuma-launch''] @
        map (\<lambda>e. CCopy Plain (se_id e @ ''.desktop'') (seam_path e)) seam_entries @
        [CRaw (''RUN desktop-file-validate '' @ joined '' '' (map seam_path seam_entries) @ [nl]),
         CFixed ''RUN test -x /usr/libexec/kuma-launch ''] @
        map (\<lambda>(i, e). CRaw (icon_check i e)) (enumerate 0 seam_entries))"

definition boot_health :: "call list" where
  "boot_health =
     stages
       [(''kuma-boot-health-sync'', Constant ''BOOT_HEALTH_SYNC_SCRIPT''),
        (''kuma-boot-health-sync.service'', Constant ''BOOT_HEALTH_SYNC_SERVICE''),
        (''kuma-swap-fcontext'', Constant ''SWAP_FCONTEXT''), (''kuma-swap-label.service'', Constant ''SWAP_LABEL_SERVICE''),
        (''kuma-fstab-sync'', Constant ''FSTAB_SYNC_SCRIPT''), (''kuma-fstab-sync.service'', Constant ''FSTAB_SYNC_SERVICE''),
        (''kuma-boot-titles.service'', Constant ''BOOT_TITLES_SERVICE'')] @
     [CCopy Exec ''kuma-boot-health-sync'' ''/usr/libexec/kuma-boot-health-sync'',
      CCopy Plain ''kuma-boot-health-sync.service'' ''/usr/lib/systemd/system/kuma-boot-health-sync.service'',
      CCopy Plain ''kuma-swap-fcontext'' ''/etc/selinux/targeted/contexts/files/file_contexts.local'',
      CCopy Plain ''kuma-swap-label.service'' ''/usr/lib/systemd/system/kuma-swap-label.service'',
      CCopy Exec ''kuma-fstab-sync'' ''/usr/libexec/kuma-fstab-sync'',
      CCopy Plain ''kuma-fstab-sync.service'' ''/usr/lib/systemd/system/kuma-fstab-sync.service'',
      CCopy Plain ''kuma-boot-titles.service'' ''/usr/lib/systemd/system/kuma-boot-titles.service'',
      CEnable (one [''greenboot-healthcheck.service'', ''greenboot-set-rollback-trigger.service'', ''greenboot-success.target'',
        ''kuma-boot-health-sync.service'', ''kuma-fstab-sync.service'', ''kuma-boot-titles.service'', ''kuma-swap-label.service''])]"

definition signature_block :: "call list" where
  "signature_block =
     stages [(''cosign.pub'', Constant ''COSIGN_PUB''), (''containers-policy.json'', Constant ''signature_policy''),
       (''kuma-sigstore.yaml'', Constant ''registries_d'')] @
     [CRaw [nl], CCopy Plain ''cosign.pub'' ''/etc/pki/containers/kuma.pub'',
      CCopy Plain ''containers-policy.json'' ''/etc/containers/policy.json'',
      CCopy Plain ''kuma-sigstore.yaml'' ''/etc/containers/registries.d/kuma-sigstore.yaml'']"

definition fwupd_block :: "call list" where
  "fwupd_block = [CEnable (one [''fwupd-refresh.timer''])]"

definition snapshots_block :: "config \<Rightarrow> call list" where
  "snapshots_block c =
     (if \<not> sn_enable (cf_snapshots c) then []
      else
        stages
          [(''kuma-snapshot'', snapshot_script c), (''kuma-snapshot.service'', Constant ''SNAPSHOT_SERVICE''),
           (''kuma-snapshot.timer'', Text (snapshot_timer (sn_interval (cf_snapshots c))))] @
        [CRaw [nl], CRaw (dnf_install ''btrfs-progs''),
         CCopy Exec ''kuma-snapshot'' ''/usr/libexec/kuma-snapshot'',
         CCopy Plain ''kuma-snapshot.service'' ''/usr/lib/systemd/system/kuma-snapshot.service'',
         CCopy Plain ''kuma-snapshot.timer'' ''/usr/lib/systemd/system/kuma-snapshot.timer'',
         CEnable (one [''kuma-snapshot.timer''])])"

definition backup_block :: "config \<Rightarrow> call list" where
  "backup_block c =
     (if \<not> bk_enable (cf_backup c) then []
      else
        stages
          [(''kuma-backup'', backup_script c), (''kuma-backup.service'', backup_service c),
           (''kuma-backup.timer'', Text (backup_timer (bk_interval (cf_backup c)))),
           (''kuma-restore'', Constant ''RESTORE_SCRIPT''), (''kuma-restore.service'', Constant ''RESTORE_SERVICE'')] @
        [CRaw [nl], CRaw (dnf_install ''restic''),
         CCopy Exec ''kuma-backup'' ''/usr/libexec/kuma-backup'',
         CCopy Plain ''kuma-backup.service'' ''/usr/lib/systemd/system/kuma-backup.service'',
         CCopy Plain ''kuma-backup.timer'' ''/usr/lib/systemd/system/kuma-backup.timer'',
         CEnable (one [''kuma-backup.timer'']),
         CCopy Exec ''kuma-restore'' ''/usr/libexec/kuma-restore'',
         CCopy Plain ''kuma-restore.service'' ''/usr/lib/systemd/system/kuma-restore.service'',
         CEnable (one [''kuma-restore.service''])])"

definition nostr_served :: "config \<Rightarrow> bool" where
  "nostr_served c \<longleftrightarrow> no_serve (cf_nostr c) \<and> ''tailscaled.service'' \<in> set (sv_enable (cf_services c))"

definition nostr_block :: "config \<Rightarrow> call list" where
  "nostr_block c =
     (let n = cf_nostr c
      in if \<not> no_enable n then []
         else
           stages [(''kuma-nostrd.service'', nostrd_service n), (''kuma-nostr-panel.desktop'', Constant ''NOSTR_PANEL_DESKTOP'')] @
           [CRaw [nl],
            CCopy Exec ''kuma-nostrd'' ''/usr/bin/kuma-nostrd'',
            CCopy Exec ''kuma-nostr'' ''/usr/bin/kuma-nostr'',
            CCopy Plain ''kuma-nostrd.service'' ''/usr/lib/systemd/user/kuma-nostrd.service''] @
           (if no_relay_enable n then
              stages [(''nip46-relay.service'', Constant ''relay_service'')] @
              [CCopy Exec ''nip46-relay'' ''/usr/bin/nip46-relay'',
               CCopy Plain ''nip46-relay.service'' ''/usr/lib/systemd/user/nip46-relay.service''] @
              (if nostr_served c then
                 stages [(''kuma-nostr-serve'', Constant ''NOSTR_SERVE_SCRIPT''),
                   (''kuma-nostr-serve.service'', Constant ''NOSTR_SERVE_SERVICE'')] @
                 [CCopy Exec ''kuma-nostr-serve'' ''/usr/libexec/kuma-nostr-serve'',
                  CCopy Plain ''kuma-nostr-serve.service'' ''/usr/lib/systemd/system/kuma-nostr-serve.service'',
                  CEnable (one [''kuma-nostr-serve.service''])]
               else [])
            else []) @
           [CEnable [(GlobalScope, ''kuma-nostrd.service'' # (if no_relay_enable n then [''nip46-relay.service''] else []))],
            CFixed ''RUN /usr/bin/kuma-nostrd --version'',
            CCopy Plain ''kuma-nostr-panel.desktop'' ''/usr/share/applications/kuma-nostr-panel.desktop''])"

definition vm_timezone :: "call list" where
  "vm_timezone =
     stages [(''kuma-vm-timezone'', Constant ''VM_TZ_SCRIPT''), (''kuma-vm-timezone.service'', Constant ''VM_TZ_SERVICE'')] @
     [CRaw [nl], CCopy Exec ''kuma-vm-timezone'' ''/usr/libexec/kuma-vm-timezone'',
      CCopy Plain ''kuma-vm-timezone.service'' ''/usr/lib/systemd/system/kuma-vm-timezone.service'',
      CEnable (one [''kuma-vm-timezone.service''])]"

definition timezone_block :: "config \<Rightarrow> call list" where
  "timezone_block c =
     (case sy_timezone (cf_system c) of
        None \<Rightarrow> []
      | Some tz \<Rightarrow>
          [CRaw ([nl] @ ''RUN test -e /usr/share/zoneinfo/'' @ tz @ '' && ln -sfn /usr/share/zoneinfo/'' @ tz @
             '' /etc/localtime'' @ [nl])])"

definition home_subvol :: "call list" where
  "home_subvol =
     stages [(''kuma-home-subvol'', Constant ''HOME_SUBVOL_SCRIPT''), (''kuma-home-subvol.service'', Constant ''HOME_SUBVOL_SERVICE'')] @
     [CRaw [nl], CCopy Exec ''kuma-home-subvol'' ''/usr/libexec/kuma-home-subvol'',
      CCopy Plain ''kuma-home-subvol.service'' ''/usr/lib/systemd/system/kuma-home-subvol.service'',
      CEnable (one [''kuma-home-subvol.service''])]"

definition shell_check :: "string \<Rightarrow> string" where
  "shell_check shell = ''RUN test -x /usr/bin/'' @ shell @ [nl]"

definition user_block :: "config \<Rightarrow> call list" where
  "user_block c =
     stages [(''kuma-user-sync'', Constant ''USER_SYNC_SCRIPT''), (''kuma-user-sync.service'', Constant ''USER_SYNC_SERVICE'')] @
     (case cf_user c of None \<Rightarrow> []
      | Some u \<Rightarrow>
          stages [(''kuma-user'', Text (account_file u))] @
          (if ud_ssh_keys u \<noteq> []
           then stages [(''kuma-user-keys'', Text (keys_file u)), (''kuma-sshd-keys.conf'', Constant ''SSHD_KUMA_KEYS'')]
           else [])) @
     [CRaw [nl], CCopy Exec ''kuma-user-sync'' ''/usr/libexec/kuma-user-sync'',
      CCopy Plain ''kuma-user-sync.service'' ''/usr/lib/systemd/system/kuma-user-sync.service'',
      CEnable (one [''kuma-user-sync.service''])] @
     (case cf_user c of None \<Rightarrow> []
      | Some u \<Rightarrow>
          [CCopy Private ''kuma-user'' ''/usr/lib/kuma/user''] @
          (case ud_shell u of Some s \<Rightarrow> [CRaw (shell_check s)] | None \<Rightarrow> []) @
          (if ud_ssh_keys u \<noteq> []
           then [CCopy Plain ''kuma-user-keys'' (''/etc/kuma/keys/'' @ ud_name u),
                 CCopy Plain ''kuma-sshd-keys.conf'' ''/etc/ssh/sshd_config.d/40-kuma-keys.conf'']
           else []))"

definition system_shell :: "config \<Rightarrow> call list" where
  "system_shell c = (case sy_shell (cf_system c) of Some s \<Rightarrow> [CRaw (shell_check s)] | None \<Rightarrow> [])"

definition hostname_block :: "config \<Rightarrow> call list" where
  "hostname_block c =
     [CStage ''hostname'' (Text ((case sy_hostname (cf_system c) of Some h \<Rightarrow> h | None \<Rightarrow> ''kuma'') @ [nl])),
      CRaw [nl], CCopy Plain ''hostname'' ''/etc/hostname'']"

definition locale_block :: "config \<Rightarrow> call list" where
  "locale_block c =
     (case sy_locale (cf_system c) of
        None \<Rightarrow> []
      | Some l \<Rightarrow>
          (case langpack l of Some lang \<Rightarrow> [CRaw [nl], CRaw (dnf_install (''glibc-langpack-'' @ lang))] | None \<Rightarrow> []) @
          [CRaw (''RUN echo '' @ [apos] @ ''LANG='' @ l @ [apos] @ '' > /etc/locale.conf'' @ [nl])])"

definition certificate_name :: "string \<Rightarrow> string" where
  "certificate_name name = ''ca-'' @ name @ ''.crt''"

definition ca_anchors :: "config \<Rightarrow> call list" where
  "ca_anchors c =
     (let cas = sy_ca_certificates (cf_system c)
      in map (\<lambda>(name, pem). CStage (certificate_name name) (Text pem)) cas @
         (if cas = [] then []
          else
            [CRaw [nl]] @
            map (\<lambda>(name, pem). CCopy Plain (certificate_name name)
              (''/etc/pki/ca-trust/source/anchors/'' @ name @ ''.crt'')) cas @
            [CFixed ''RUN update-ca-trust'']))"

definition branding_block :: "call list" where
  "branding_block = [CFixed ([nl] @ ''RUN . /usr/lib/os-release '')]"

definition kuma_binary :: "call list" where
  "kuma_binary = [CRaw [nl], CCopy Exec ''kuma'' ''/usr/bin/kuma'', CFixed ''RUN /usr/bin/kuma --version'']"

definition declaration_block :: "call list" where
  "declaration_block = [CRaw [nl], CCopy Plain ''kuma.toml'' ''/usr/lib/kuma/kuma.toml'']"

definition label_line :: "string \<Rightarrow> string \<Rightarrow> string" where
  "label_line key v = ''LABEL '' @ key @ ''='' @ [dquo] @ v @ [dquo, nl]"

definition labels_block :: "build_env \<Rightarrow> call list" where
  "labels_block B =
     [CRaw ([nl] @ label_line ''io.kuma.image'' ''1''), CRaw (label_line ''io.kuma.builder'' (be_version B)),
      CRaw (label_line ''org.opencontainers.image.version'' (be_package_version B))]"

definition sweep_lint :: "call list" where
  "sweep_lint = [CFixed ([nl] @ ''RUN find /run /tmp ''), CFixed ([nl] @ ''RUN said='')]"

section \<open>The registry\<close>

text \<open>Each block with the units it enables and what each does on installer media, in emission order.\<close>

definition registry :: "build_env \<Rightarrow> config \<Rightarrow> block list" where
  "registry B c =
     [([], header_block B c),
      ([(''kuma-shell.service'', Runs), (''kuma-sleep-guard.service'', Runs)], desktop_niri c),
      ([], desktop_cosmic c), ([], flatpak_remote c),
      ([(''kuma-flatpak-sync.service'', Masked), (''kuma-flatpak-sync.timer'', Masked),
        (''kuma-flatpak-overrides.service'', Masked)], flatpak_sync c),
      ([(''kuma-brew-setup.service'', Conditioned), (''kuma-brew-sync.service'', Masked), (''kuma-brew-sync.timer'', Masked)],
        brew_block c),
      ([], rpm_block c), ([], sshd_block), ([], services_block c), ([], fuse_block), ([], greenboot_block),
      ([], plymouth_block B), ([], greeter_seam c),
      ([(''greenboot-healthcheck.service'', Masked), (''greenboot-set-rollback-trigger.service'', Masked),
        (''greenboot-success.target'', Masked), (''kuma-boot-health-sync.service'', Conditioned),
        (''kuma-fstab-sync.service'', Conditioned), (''kuma-boot-titles.service'', Conditioned),
        (''kuma-swap-label.service'', Conditioned)], boot_health),
      ([], signature_block), ([], fwupd_block),
      ([(''kuma-snapshot.timer'', Masked)], snapshots_block c),
      ([(''kuma-backup.timer'', Masked), (''kuma-restore.service'', Conditioned)], backup_block c),
      ([(''kuma-nostrd.service'', Runs), (''nip46-relay.service'', Runs), (''kuma-nostr-serve.service'', Masked)], nostr_block c),
      ([(''kuma-vm-timezone.service'', Runs)], vm_timezone), ([], timezone_block c),
      ([(''kuma-home-subvol.service'', Conditioned)], home_subvol),
      ([(''kuma-user-sync.service'', Masked)], user_block c),
      ([], system_shell c), ([], hostname_block c), ([], locale_block c), ([], ca_anchors c), ([], branding_block),
      ([], kuma_binary), ([], declaration_block), ([], labels_block B), ([], sweep_lint)]"

definition plan :: "build_env \<Rightarrow> config \<Rightarrow> emitter option" where
  "plan B c = plan_blocks (registry B c)"

definition live_masks :: "build_env \<Rightarrow> config \<Rightarrow> string list" where
  "live_masks B c = concat (map (\<lambda>(units, _). map fst (filter (\<lambda>(_, l). l = Masked) units)) (registry B c))"

section \<open>The build context\<close>

definition bring :: "(string \<Rightarrow> content option) \<Rightarrow> string \<Rightarrow> (string \<Rightarrow> content option) \<Rightarrow> (string \<Rightarrow> content option) option" where
  "bring beside name dir = (case beside name of Some b \<Rightarrow> Some (dir(name \<mapsto> b)) | None \<Rightarrow> None)"

fun bring_all :: "(string \<Rightarrow> content option) \<Rightarrow> string list \<Rightarrow> (string \<Rightarrow> content option) \<Rightarrow> (string \<Rightarrow> content option) option" where
  "bring_all beside [] dir = Some dir"
| "bring_all beside (n # ns) dir = (case bring beside n dir of None \<Rightarrow> None | Some dir' \<Rightarrow> bring_all beside ns dir')"

text \<open>The binaries copied from beside the running one, then the plan's Containerfile and files.\<close>

definition siblings :: "config \<Rightarrow> string list" where
  "siblings c =
     (if sy_desktop (cf_system c) = Niri then [''kuma-shell''] else []) @
     (if no_enable (cf_nostr c)
      then [''kuma-nostrd'', ''kuma-nostr''] @ (if no_relay_enable (cf_nostr c) then [''nip46-relay''] else []) else [])"

definition write_context :: "build_env \<Rightarrow> config \<Rightarrow> string \<Rightarrow> content \<Rightarrow> (string \<Rightarrow> content option) \<Rightarrow>
    (string \<Rightarrow> content option) option" where
  "write_context B c config_text kuma beside =
     (case bring_all beside (siblings c) [''kuma.toml'' \<mapsto> Text config_text, ''kuma'' \<mapsto> kuma] of
        None \<Rightarrow> None
      | Some dir \<Rightarrow>
          map_option (\<lambda>e. foldl (\<lambda>d (n, x). d(n \<mapsto> x)) (dir(''Containerfile'' \<mapsto> Constant ''Containerfile'')) (em_files e))
            (plan B c))"

end
