(* ===== verification/ImagePlan.thy ===== *)
theory ImagePlan
  imports Blocks Hibernate
begin

text \<open>
  The plan of the Containerfile exists for every declaration: no assertion of
  \<open>src/containerfile/emit.rs\<close> can fail on the registry of \<open>src/containerfile/blocks.rs\<close>, and what the
  build copies is in the context the binary writes.
\<close>

section \<open>No text of the registry is a copy\<close>

lemma copy_text_visible:
  assumes "(of_char c :: nat) \<notin> set (concat white_spaces)" "c \<noteq> CHR ''C''"
  shows "\<not> is_copy_text (c # s)"
proof -
  have "drop_any spaces (c # s) = c # s"
    using drop_any_keeps space_first_visible [of spaces c "[]" s] visibleI [OF assms(1)]
    by (simp add: visible_def)
  then show ?thesis using assms(2) by (simp add: is_copy_text_def starts_with_def)
qed

lemma copy_text_blank [simp]:
  "is_copy_text [] = False"
  "is_copy_text (nl # s) = is_copy_text s"
  "is_copy_text (CHR '' '' # s) = is_copy_text s"
proof -
  have "find (\<lambda>w. w \<noteq> [] \<and> starts_with w (nl # s)) spaces = Some [nl]"
    by (simp add: spaces_def white_spaces_def starts_with_def nl_def)
  then have "drop_any spaces (nl # s) = drop_any spaces s"
    unfolding drop_any.simps [of spaces "nl # s"] by simp
  then show "is_copy_text (nl # s) = is_copy_text s" by (simp add: is_copy_text_def)
  show "is_copy_text (CHR '' '' # s) = is_copy_text s" by (simp add: is_copy_text_def drop_any_space)
  have "drop_any spaces [] = []" by (rule drop_any_keeps) (simp add: space_first_def starts_with_def)
  then show "is_copy_text [] = False" by (simp add: is_copy_text_def starts_with_def)
qed

lemma copy_text_letter [simp]:
  "is_copy_text (CHR ''R'' # s) = False" "is_copy_text (CHR ''L'' # s) = False"
  "is_copy_text (CHR ''F'' # s) = False" "is_copy_text (CHR ''#'' # s) = False"
  "is_copy_text (CHR ''&'' # s) = False" "is_copy_text (CHR ''k'' # s) = False"
  "is_copy_text (CHR ''t'' # s) = False" "is_copy_text (CHR ''m'' # s) = False"
  "is_copy_text (CHR ''d'' # s) = False" "is_copy_text (CHR ''p'' # s) = False"
  using copy_text_visible by (simp_all add: white_spaces_def)


section \<open>What each block stages\<close>

definition staged_files :: "call list \<Rightarrow> (string \<times> content) list" where
  "staged_files cs = concat (map staged_of cs)"

text \<open>What a block needs: no copy, only units it accounts for, files out of one table.\<close>

definition block_fine :: "(string \<times> content) list \<Rightarrow> block \<Rightarrow> bool" where
  "block_fine T b \<longleftrightarrow> list_all (call_fine (fst b)) (snd b) \<and> set (staged_files (snd b)) \<subseteq> set T"

lemma agrees_table:
  assumes "distinct (map fst T)" "set (staged_files cs) \<subseteq> set T"
  shows "agrees (map_of T) cs"
  using assms by (fastforce simp: agrees_def staged_files_def)

lemma staged_simps [simp]:
  "staged_files [] = []"
  "staged_files (c # cs) = staged_of c @ staged_files cs"
  "staged_files (cs @ ds) = staged_files cs @ staged_files ds"
  by (simp_all add: staged_files_def)

lemma stages_simps [simp]:
  "staged_files (stages fs) = fs"
  "list_all (call_fine units) (stages fs)"
  "copied_names (stages fs) = {}"
  "staged_names (stages fs) = set (map fst fs)"
  by (induction fs) (auto simp: stages_def copied_names_def staged_names_def)

lemma names_Cons [simp]:
  "copied_names (c # cs) = set (copied_of c) \<union> copied_names cs"
  "staged_names (c # cs) = set (map fst (staged_of c)) \<union> staged_names cs"
  "copied_names [] = {}" "staged_names [] = {}"
  by (simp_all add: copied_names_def staged_names_def)

lemma staged_names_files: "staged_names cs = set (map fst (staged_files cs))"
  by (simp add: staged_names_def staged_files_def)

lemmas raw_texts = dnf_install_def dnf_layer_def keyring_pam_def label_line_def shell_check_def one_def
  named_units_def starts_with_def

definition cosmic_files :: "config \<Rightarrow> (string \<times> content) list" where
  "cosmic_files c = [(''cosmic-favorites'', Constant ''COSMIC_FAVORITES''), (''cosmic-background'', Constant ''COSMIC_BACKGROUND'')]"

definition flatpak_files :: "config \<Rightarrow> (string \<times> content) list" where
  "flatpak_files c =
     [(''flatpaks'', Text (list_file (pk_flatpak (cf_packages c)))),
      (''kuma-flatpak-sync'', Constant ''FLATPAK_SYNC_SCRIPT''),
      (''kuma-flatpak-sync.service'', Constant ''FLATPAK_SYNC_SERVICE''),
      (''kuma-flatpak-sync.timer'', Constant ''FLATPAK_SYNC_TIMER''),
      (''kuma-flatpak-sync-daily.service'', Constant ''FLATPAK_SYNC_DAILY_SERVICE''),
      (''overrides'', Tree (override_stores c)),
      (''kuma-flatpak-overrides.service'', Constant ''FLATPAK_OVERRIDES_SERVICE''),
      (''kuma-flatpak-overrides-user.service'', Constant ''FLATPAK_OVERRIDES_USER_SERVICE'')]"

definition brew_files :: "config \<Rightarrow> (string \<times> content) list" where
  "brew_files c =
     [(''kuma-brew-setup'', Constant ''BREW_SETUP_SCRIPT''),
      (''kuma-brew-setup.service'', Constant ''BREW_SETUP_SERVICE''),
      (''brew-profile.sh'', Constant ''BREW_PROFILE_SH''),
      (''brew-profile.fish'', Constant ''BREW_PROFILE_FISH''),
      (''brews'', Text (list_file (pk_brew (cf_packages c)))),
      (''kuma-brew-sync'', Constant ''BREW_SYNC_SCRIPT''),
      (''kuma-brew-sync.service'', Constant ''BREW_SYNC_SERVICE''),
      (''kuma-brew-sync.timer'', Constant ''BREW_SYNC_TIMER''),
      (''kuma-brew-sync-daily.service'', Constant ''BREW_SYNC_DAILY_SERVICE'')]"

definition seam_files :: "config \<Rightarrow> (string \<times> content) list" where
  "seam_files c =
     [(''kuma-greeter-check'', Constant ''GREETER_CHECK''), (''kuma-launch'', Constant ''KUMA_LAUNCH'')]"

definition health_files :: "config \<Rightarrow> (string \<times> content) list" where
  "health_files c =
     [(''kuma-boot-health-sync'', Constant ''BOOT_HEALTH_SYNC_SCRIPT''),
      (''kuma-boot-health-sync.service'', Constant ''BOOT_HEALTH_SYNC_SERVICE''),
      (''kuma-swap-fcontext'', Constant ''SWAP_FCONTEXT''),
      (''kuma-swap-label.service'', Constant ''SWAP_LABEL_SERVICE''),
      (''kuma-fstab-sync'', Constant ''FSTAB_SYNC_SCRIPT''),
      (''kuma-fstab-sync.service'', Constant ''FSTAB_SYNC_SERVICE''),
      (''kuma-boot-titles.service'', Constant ''BOOT_TITLES_SERVICE'')]"

definition signature_files :: "config \<Rightarrow> (string \<times> content) list" where
  "signature_files c =
     [(''cosign.pub'', Constant ''COSIGN_PUB''), (''containers-policy.json'', Constant ''signature_policy''),
      (''kuma-sigstore.yaml'', Constant ''registries_d'')]"

definition snapshot_files :: "config \<Rightarrow> (string \<times> content) list" where
  "snapshot_files c =
     [(''kuma-snapshot'', snapshot_script c), (''kuma-snapshot.service'', Constant ''SNAPSHOT_SERVICE''),
      (''kuma-snapshot.timer'', Text (snapshot_timer (sn_interval (cf_snapshots c))))]"

definition backup_files :: "config \<Rightarrow> (string \<times> content) list" where
  "backup_files c =
     [(''kuma-backup'', backup_script c), (''kuma-backup.service'', backup_service c),
      (''kuma-backup.timer'', Text (backup_timer (bk_interval (cf_backup c)))),
      (''kuma-restore'', Constant ''RESTORE_SCRIPT''),
      (''kuma-restore.service'', Constant ''RESTORE_SERVICE'')]"

definition nostr_files :: "config \<Rightarrow> (string \<times> content) list" where
  "nostr_files c =
     [(''kuma-nostrd.service'', nostrd_service (cf_nostr c)),
      (''kuma-nostr-panel.desktop'', Constant ''NOSTR_PANEL_DESKTOP''),
      (''nip46-relay.service'', Constant ''relay_service''),
      (''kuma-nostr-serve'', Constant ''NOSTR_SERVE_SCRIPT''),
      (''kuma-nostr-serve.service'', Constant ''NOSTR_SERVE_SERVICE'')]"

definition vm_files :: "config \<Rightarrow> (string \<times> content) list" where
  "vm_files c =
     [(''kuma-vm-timezone'', Constant ''VM_TZ_SCRIPT''),
      (''kuma-vm-timezone.service'', Constant ''VM_TZ_SERVICE'')]"

definition home_files :: "config \<Rightarrow> (string \<times> content) list" where
  "home_files c =
     [(''kuma-home-subvol'', Constant ''HOME_SUBVOL_SCRIPT''),
      (''kuma-home-subvol.service'', Constant ''HOME_SUBVOL_SERVICE'')]"

definition user_files :: "config \<Rightarrow> (string \<times> content) list" where
  "user_files c =
     [(''kuma-user-sync'', Constant ''USER_SYNC_SCRIPT''),
      (''kuma-user-sync.service'', Constant ''USER_SYNC_SERVICE''),
      (''kuma-user'', Text (account_file (the (cf_user c)))),
      (''kuma-user-keys'', Text (keys_file (the (cf_user c)))),
      (''kuma-sshd-keys.conf'', Constant ''SSHD_KUMA_KEYS'')]"

definition gate_files :: "config \<Rightarrow> (string \<times> content) list" where
  "gate_files c =
     [(''kuma-converge-gate'', Constant ''CONVERGE_GATE_SCRIPT'')]"

definition entry_files :: "(string \<times> content) list" where
  "entry_files = map (\<lambda>e. (se_id e @ ''.desktop'', Text (seam_render e))) seam_entries"

definition fixed_files :: "build_env \<Rightarrow> config \<Rightarrow> (string \<times> content) list" where
  "fixed_files B c =
     niri_files c @ desktop_files @ cosmic_files c @ flatpak_files c @ brew_files c @ seam_files c @ entry_files @
     health_files c @ signature_files c @ snapshot_files c @ backup_files c @ nostr_files c @ vm_files c @ home_files c @
     user_files c @ gate_files c @
     [(''plymouth'', Tree (be_theme B)),
      (''hostname'', Text ((case sy_hostname (cf_system c) of Some h \<Rightarrow> h | None \<Rightarrow> ''kuma'') @ [nl]))]"

definition file_table :: "build_env \<Rightarrow> config \<Rightarrow> (string \<times> content) list" where
  "file_table B c =
     fixed_files B c @ map (\<lambda>(name, pem). (certificate_name name, Text pem)) (sy_ca_certificates (cf_system c))"

lemma block_fine_mono: "block_fine T b \<Longrightarrow> set T \<subseteq> set T' \<Longrightarrow> block_fine T' b"
  by (auto simp: block_fine_def)

lemma niri_fine:
  "block_fine (niri_files c @ desktop_files)
     ([(''kuma-shell.service'', Runs), (''kuma-sleep-guard.service'', Runs)], desktop_niri c)"
  by (simp add: block_fine_def desktop_niri_def raw_texts)

lemma cosmic_fine: "block_fine (cosmic_files c @ desktop_files) ([], desktop_cosmic c)"
  by (auto simp: block_fine_def desktop_cosmic_def cosmic_files_def raw_texts split: option.split)

lemma brew_fine:
  "block_fine (brew_files c @ gate_files c)
     ([(''kuma-brew-setup.service'', Conditioned), (''kuma-brew-sync.service'', Masked), (''kuma-brew-sync.timer'', Masked)],
       brew_block c)"
  by (simp add: block_fine_def brew_block_def brew_files_def gate_files_def raw_texts)

lemma flatpak_fine:
  "block_fine (flatpak_files c @ gate_files c)
     ([(''kuma-flatpak-sync.service'', Masked), (''kuma-flatpak-sync.timer'', Masked),
        (''kuma-flatpak-overrides.service'', Masked)], flatpak_sync c)"
  "block_fine [] ([], flatpak_remote c)"
  by (simp_all add: block_fine_def flatpak_sync_def flatpak_remote_def flatpak_files_def gate_files_def raw_texts)

lemma names_differ: "distinct (map fst (fixed_files B c))"
  by (simp add: fixed_files_def niri_files_def desktop_files_def cosmic_files_def flatpak_files_def brew_files_def
     seam_files_def entry_files_def seam_entries_def seam_entry_def health_files_def signature_files_def snapshot_files_def
     backup_files_def nostr_files_def vm_files_def home_files_def user_files_def gate_files_def)


lemma icon_checks_fine [simp]:
  "list_all (call_fine us) (map (\<lambda>(i, e). CRaw (icon_check i e)) es)"
  "staged_files (map (\<lambda>(i, e). CRaw (icon_check i e)) es) = []"
  "copied_names (map (\<lambda>(i, e). CRaw (icon_check i e)) es) = {}"
  by (induction es) (auto simp: icon_check_def)

lemma copies_fine [simp]:
  "list_all (call_fine us) (map (\<lambda>e. CCopy m (f e) (g e)) es)"
  "staged_files (map (\<lambda>e. CCopy m (f e) (g e)) es) = []"
  "copied_names (map (\<lambda>e. CCopy m (f e) (g e)) es) = f ` set es"
  by (induction es) auto

lemma seam_fine: "block_fine (desktop_files @ seam_files c @ entry_files) ([], greeter_seam c)"
  by (auto simp: block_fine_def greeter_seam_def seam_files_def entry_files_def raw_texts)

lemma system_fine:
  "block_fine (health_files c)
     ([(''greenboot-healthcheck.service'', Masked), (''greenboot-set-rollback-trigger.service'', Masked),
       (''greenboot-success.target'', Masked), (''kuma-boot-health-sync.service'', Conditioned),
       (''kuma-fstab-sync.service'', Conditioned), (''kuma-boot-titles.service'', Conditioned),
       (''kuma-swap-label.service'', Conditioned)], boot_health)"
  "block_fine (signature_files c) ([], signature_block)"
  "block_fine (vm_files c) ([(''kuma-vm-timezone.service'', Runs)], vm_timezone)"
  "block_fine (home_files c) ([(''kuma-home-subvol.service'', Conditioned)], home_subvol)"
  by (simp_all add: block_fine_def boot_health_def health_files_def signature_block_def signature_files_def vm_timezone_def
     vm_files_def home_subvol_def home_files_def raw_texts)

lemma snapshots_fine:
  "block_fine (snapshot_files c) ([(''kuma-snapshot.timer'', Masked)], snapshots_block c)"
  "block_fine (backup_files c) ([(''kuma-backup.timer'', Masked), (''kuma-restore.service'', Conditioned)], backup_block c)"
  by (simp_all add: block_fine_def snapshots_block_def snapshot_files_def backup_block_def backup_files_def raw_texts)

lemma nostr_fine:
  "block_fine (nostr_files c)
     ([(''kuma-nostrd.service'', Runs), (''nip46-relay.service'', Runs), (''kuma-nostr-serve.service'', Masked)], nostr_block c)"
  by (simp add: block_fine_def nostr_block_def nostr_files_def raw_texts Let_def)

lemma user_fine: "block_fine (user_files c) ([(''kuma-user-sync.service'', Masked)], user_block c)"
  by (auto simp: block_fine_def user_block_def user_files_def raw_texts split: option.split)

lemma fixed_fine:
  "block_fine [] ([], sshd_block)" "block_fine [] ([], fuse_block)" "block_fine [] ([], greenboot_block)"
  "block_fine [] ([], fwupd_block)" "block_fine [] ([], branding_block)" "block_fine [] ([], kuma_binary)"
  "block_fine [] ([], declaration_block)" "block_fine [] ([], sweep_lint)" "block_fine [] ([], labels_block B)"
  "block_fine [] ([], header_block B c)" "block_fine [] ([], rpm_block c)" "block_fine [] ([], services_block c)"
  "block_fine [] ([], timezone_block c)" "block_fine [] ([], system_shell c)" "block_fine [] ([], locale_block c)"
  by (auto simp: block_fine_def sshd_block_def fuse_block_def greenboot_block_def fwupd_block_def branding_block_def
     kuma_binary_def declaration_block_def sweep_lint_def labels_block_def header_block_def rpm_block_def services_block_def
     timezone_block_def system_shell_def locale_block_def raw_texts Let_def split: option.split)

lemma named_fine:
  "block_fine [(''plymouth'', Tree (be_theme B))] ([], plymouth_block B)"
  "block_fine [(''hostname'', Text ((case sy_hostname (cf_system c) of Some h \<Rightarrow> h | None \<Rightarrow> ''kuma'') @ [nl]))]
     ([], hostname_block c)"
  by (simp_all add: block_fine_def plymouth_block_def hostname_block_def raw_texts)

lemma anchors_staged:
  "staged_files (map (\<lambda>(name, pem). CStage (certificate_name name) (Text pem)) cas) =
     map (\<lambda>(name, pem). (certificate_name name, Text pem)) cas"
  "list_all (call_fine us) (map (\<lambda>(name, pem). CStage (certificate_name name) (Text pem)) cas)"
  "copied_names (map (\<lambda>(name, pem). CStage (certificate_name name) (Text pem)) cas) = {}"
  "staged_files (map (\<lambda>(name, pem). CCopy Plain (certificate_name name) (f name)) cas) = []"
  "list_all (call_fine us) (map (\<lambda>(name, pem). CCopy Plain (certificate_name name) (f name)) cas)"
  "copied_names (map (\<lambda>(name, pem). CCopy Plain (certificate_name name) (f name)) cas) =
     certificate_name ` fst ` set cas"
  by (induction cas) auto

lemma anchors_fine:
  "block_fine (map (\<lambda>(name, pem). (certificate_name name, Text pem)) (sy_ca_certificates (cf_system c))) ([], ca_anchors c)"
  by (simp add: block_fine_def ca_anchors_def anchors_staged Let_def raw_texts)


section \<open>The plan\<close>

lemma table_parts:
  "set (niri_files c) \<subseteq> set (file_table B c)" "set desktop_files \<subseteq> set (file_table B c)"
  "set (cosmic_files c) \<subseteq> set (file_table B c)" "set (flatpak_files c) \<subseteq> set (file_table B c)"
  "set (brew_files c) \<subseteq> set (file_table B c)" "set (seam_files c) \<subseteq> set (file_table B c)"
  "set entry_files \<subseteq> set (file_table B c)" "set (health_files c) \<subseteq> set (file_table B c)"
  "set (signature_files c) \<subseteq> set (file_table B c)" "set (snapshot_files c) \<subseteq> set (file_table B c)"
  "set (backup_files c) \<subseteq> set (file_table B c)" "set (nostr_files c) \<subseteq> set (file_table B c)"
  "set (vm_files c) \<subseteq> set (file_table B c)" "set (home_files c) \<subseteq> set (file_table B c)"
  "set (user_files c) \<subseteq> set (file_table B c)" "set (gate_files c) \<subseteq> set (file_table B c)"
  "(''plymouth'', Tree (be_theme B)) \<in> set (file_table B c)"
  "(''hostname'', Text ((case sy_hostname (cf_system c) of Some h \<Rightarrow> h | None \<Rightarrow> ''kuma'') @ [nl])) \<in> set (file_table B c)"
  "set (map (\<lambda>(name, pem). (certificate_name name, Text pem)) (sy_ca_certificates (cf_system c))) \<subseteq> set (file_table B c)"
  unfolding file_table_def fixed_files_def set_append by (blast | simp)+

lemmas blocks_fine = niri_fine cosmic_fine flatpak_fine brew_fine seam_fine system_fine snapshots_fine nostr_fine user_fine
  fixed_fine named_fine anchors_fine

lemma registry_fine: "list_all (block_fine (file_table B c)) (registry B c)"
  by (simp add: registry_def blocks_fine [THEN block_fine_mono] system_fine [where c = c, THEN block_fine_mono] table_parts
     del: set_map)

lemma certificate_names:
  "certificate_name a = certificate_name b \<longleftrightarrow> a = b"
  "certificate_name a \<notin> set (map fst (fixed_files B c))"
proof -
  show "certificate_name a = certificate_name b \<longleftrightarrow> a = b" by (simp add: certificate_name_def)
  have "list_all (\<lambda>n. \<not> starts_with ''ca-'' n) (map fst (fixed_files B c))"
    by (simp add: fixed_files_def niri_files_def desktop_files_def cosmic_files_def flatpak_files_def brew_files_def
       seam_files_def entry_files_def seam_entries_def seam_entry_def health_files_def signature_files_def snapshot_files_def
       backup_files_def nostr_files_def vm_files_def home_files_def user_files_def gate_files_def starts_with_def)
  moreover have "starts_with ''ca-'' (certificate_name a)" by (simp add: certificate_name_def starts_with_def)
  ultimately show "certificate_name a \<notin> set (map fst (fixed_files B c))" by (metis list_all_iff)
qed

lemma table_distinct:
  assumes "distinct (map fst (sy_ca_certificates (cf_system c)))"
  shows "distinct (map fst (file_table B c))"
proof -
  let ?cas = "sy_ca_certificates (cf_system c)"
  have m: "map fst (map (\<lambda>(name, pem). (certificate_name name, Text pem)) ?cas) = map certificate_name (map fst ?cas)"
    by (simp add: comp_def case_prod_beta)
  have "distinct (map certificate_name (map fst ?cas))"
    using assms certificate_names(1) unfolding distinct_map by (auto simp: inj_on_def)
  moreover have "set (map fst (fixed_files B c)) \<inter> set (map certificate_name (map fst ?cas)) = {}"
    unfolding disjoint_iff set_map [of certificate_name] using certificate_names(2) [of _ B c] by (metis imageE)
  ultimately show ?thesis
    using names_differ [of B c] unfolding file_table_def map_append m distinct_append by blast
qed

definition calls_of :: "build_env \<Rightarrow> config \<Rightarrow> call list" where
  "calls_of B c = all_calls (registry B c)"

lemma calls_of_eq:
  "calls_of B c = header_block B c @ desktop_niri c @ desktop_cosmic c @ flatpak_remote c @ flatpak_sync c @ brew_block c @
     rpm_block c @ sshd_block @ services_block c @ fuse_block @ greenboot_block @ plymouth_block B @ greeter_seam c @
     boot_health @ signature_block @ fwupd_block @ snapshots_block c @ backup_block c @ nostr_block c @ vm_timezone @
     timezone_block c @ home_subvol @ user_block c @ system_shell c @ hostname_block c @ locale_block c @ ca_anchors c @
     branding_block @ kuma_binary @ declaration_block @ labels_block B @ sweep_lint"
  by (simp add: calls_of_def all_calls_def registry_def)

text \<open>Each block copies what it stages; the greeter's leaves the shared desktop files to the desktop's.\<close>

lemma desktop_copies:
  "staged_names (desktop_niri c) \<subseteq> copied_names (desktop_niri c)"
  "staged_names (desktop_cosmic c) \<subseteq> copied_names (desktop_cosmic c)"
  "staged_names (greeter_seam c) \<subseteq> copied_names (greeter_seam c) \<union> copied_names (desktop_niri c) \<union> copied_names (desktop_cosmic c)"
  subgoal by (simp add: desktop_niri_def niri_files_def desktop_files_def)
  subgoal by (simp add: desktop_cosmic_def desktop_files_def split: option.split)
  subgoal
    by (cases "sy_desktop (cf_system c)")
      (simp_all add: greeter_seam_def desktop_niri_def desktop_cosmic_def desktop_files_def seam_entries_def seam_entry_def)
  done

lemma block_copies:
  "staged_names (flatpak_sync c) \<subseteq> copied_names (flatpak_sync c)"
  "staged_names (brew_block c) \<subseteq> copied_names (brew_block c)"
  "staged_names (snapshots_block c) \<subseteq> copied_names (snapshots_block c)"
  "staged_names (backup_block c) \<subseteq> copied_names (backup_block c)"
  "staged_names (nostr_block c) \<subseteq> copied_names (nostr_block c)"
  "staged_names (user_block c) \<subseteq> copied_names (user_block c)"
  "staged_names (hostname_block c) \<subseteq> copied_names (hostname_block c)"
  by (simp_all add: flatpak_sync_def brew_block_def snapshots_block_def backup_block_def nostr_block_def user_block_def
     hostname_block_def Let_def split: option.split)

lemma constant_copies:
  "staged_names boot_health \<subseteq> copied_names boot_health"
  "staged_names signature_block \<subseteq> copied_names signature_block"
  "staged_names vm_timezone \<subseteq> copied_names vm_timezone"
  "staged_names home_subvol \<subseteq> copied_names home_subvol"
  by (simp_all add: boot_health_def signature_block_def vm_timezone_def home_subvol_def)

lemma plymouth_copies: "staged_names (plymouth_block B) \<subseteq> copied_names (plymouth_block B)"
  by (simp add: plymouth_block_def)

lemma stages_nothing:
  "staged_names (header_block B c) = {}" "staged_names (rpm_block c) = {}" "staged_names sshd_block = {}"
  "staged_names (services_block c) = {}" "staged_names fuse_block = {}" "staged_names greenboot_block = {}"
  "staged_names fwupd_block = {}" "staged_names (timezone_block c) = {}" "staged_names (system_shell c) = {}"
  "staged_names (locale_block c) = {}" "staged_names branding_block = {}" "staged_names kuma_binary = {}"
  "staged_names declaration_block = {}" "staged_names (labels_block B) = {}" "staged_names sweep_lint = {}"
  "staged_names (flatpak_remote c) = {}"
  by (simp_all add: header_block_def rpm_block_def sshd_block_def services_block_def fuse_block_def greenboot_block_def
     fwupd_block_def timezone_block_def system_shell_def locale_block_def branding_block_def kuma_binary_def
     declaration_block_def labels_block_def sweep_lint_def flatpak_remote_def Let_def split: option.split)

lemma anchor_copies: "staged_names (ca_anchors c) \<subseteq> copied_names (ca_anchors c)"
  by (force simp: ca_anchors_def Let_def staged_names_files anchors_staged)

lemma plan_copies: "staged_names (calls_of B c) \<subseteq> copied_names (calls_of B c)"
  using desktop_copies [of c] block_copies [of c] constant_copies plymouth_copies [of B] anchor_copies [of c]
  unfolding calls_of_eq names_append stages_nothing by blast

lemma plan_exists:
  assumes "distinct (map fst (sy_ca_certificates (cf_system c)))"
  shows "\<exists>e. plan B c = Some e \<and> set (em_copied e) = copied_names (calls_of B c) \<and>
     files_agree (map_of (file_table B c)) e"
proof -
  have "\<forall>(us, cs) \<in> set (registry B c). list_all (call_fine us) cs \<and> agrees (map_of (file_table B c)) cs"
    using registry_fine [of B c] agrees_table [OF table_distinct [OF assms]]
    by (auto simp: list_all_iff [of "block_fine _"] block_fine_def)
  from plan_blocks_fine [OF this] plan_copies show ?thesis by (simp add: plan_def calls_of_def)
qed


text \<open>What a walk that ends has staged and copied.\<close>

lemma file_names_update [simp]:
  "file_names (e\<lparr>em_text := t\<rparr>) = file_names e" "file_names (e\<lparr>em_text := t, em_copied := cp\<rparr>) = file_names e"
  by (simp_all add: file_names_def)

lemma stage_names:
  "stage n x e = Some e' \<Longrightarrow> file_names e' = insert n (file_names e)"
  "stage n x e = Some e' \<Longrightarrow> em_copied e' = em_copied e"
proof -
  have old: "map_of fs n = Some y \<Longrightarrow> insert n (set (map fst fs)) = set (map fst fs)" for fs y
    by (metis insert_absorb map_of_eq_None_iff option.distinct(1) set_map)
  assume s: "stage n x e = Some e'"
  show "file_names e' = insert n (file_names e)"
  proof (cases "map_of (em_files e) n")
    case None
    then have "e' = e\<lparr>em_files := bt_insert n x (em_files e)\<rparr>" using s by (simp add: stage_def)
    then show ?thesis using bt_insert_keys [of n x "em_files e"] by (simp add: file_names_def)
  next
    case (Some y)
    then have "e' = e" using s by (simp add: stage_def split: if_splits)
    then show ?thesis using old [OF Some] by (simp add: file_names_def)
  qed
  show "em_copied e' = em_copied e" using s by (simp add: stage_def split: option.splits if_splits) auto
qed

lemma run_call_names:
  "run_call c e = Some e' \<Longrightarrow> file_names e' = set (map fst (staged_of c)) \<union> file_names e"
proof (cases c)
  case (CStageTree n fs)
  moreover assume "run_call c e = Some e'"
  ultimately have "e' = e\<lparr>em_files := bt_insert n (Tree fs) (em_files e)\<rparr>" by simp
  then show ?thesis using bt_insert_keys [of n "Tree fs" "em_files e"] by (simp add: CStageTree file_names_def)
qed (use stage_names(1) in \<open>auto split: if_splits\<close>)

lemma run_calls_names:
  "run_calls cs e = Some e' \<Longrightarrow> file_names e' = staged_names cs \<union> file_names e"
proof (induction cs arbitrary: e)
  case (Cons c cs)
  then show ?case using run_call_names [of c e] by (auto split: option.splits)
qed simp

lemma walk_names:
  "walk bs e = Some e' \<Longrightarrow> file_names e' = staged_names (all_calls bs) \<union> file_names e"
proof (induction bs arbitrary: e)
  case (Cons b bs)
  then show ?case
    using run_calls_names [of "snd b" "enter_block (fst b) e"]
    by (cases b) (auto simp: all_calls_def enter_block_def file_names_def split: option.splits)
qed (simp add: all_calls_def)

lemma plan_names: "plan B c = Some e \<Longrightarrow> file_names e = staged_names (calls_of B c)"
  using walk_names [of "registry B c" new_emitter]
  by (auto simp: plan_def plan_blocks_def calls_of_def new_emitter_def file_names_def split: option.splits if_splits)

section \<open>What the build copies\<close>

definition from_outside :: "config \<Rightarrow> string set" where
  "from_outside c = {''kuma'', ''kuma.toml''} \<union> set (siblings c)"

lemma certificates_staged: "copied_names (ca_anchors c) \<subseteq> staged_names (ca_anchors c)"
  by (force simp: ca_anchors_def Let_def staged_names_files anchors_staged)

lemma desktop_sources:
  "copied_names (desktop_niri c) \<subseteq> staged_names (desktop_niri c) \<union> from_outside c"
  "copied_names (desktop_cosmic c) \<subseteq> staged_names (desktop_cosmic c)"
  "copied_names (greeter_seam c) \<subseteq> staged_names (greeter_seam c)"
  subgoal by (simp add: desktop_niri_def niri_files_def desktop_files_def from_outside_def siblings_def)
  subgoal by (simp add: desktop_cosmic_def desktop_files_def split: option.split)
  subgoal by (simp add: greeter_seam_def desktop_files_def seam_entries_def seam_entry_def)
  done

lemma block_sources:
  "copied_names (flatpak_sync c) \<subseteq> staged_names (flatpak_sync c)"
  "copied_names (brew_block c) \<subseteq> staged_names (brew_block c)"
  "copied_names (snapshots_block c) \<subseteq> staged_names (snapshots_block c)"
  "copied_names (backup_block c) \<subseteq> staged_names (backup_block c)"
  "copied_names (nostr_block c) \<subseteq> staged_names (nostr_block c) \<union> from_outside c"
  "copied_names (user_block c) \<subseteq> staged_names (user_block c)"
  "copied_names (hostname_block c) \<subseteq> staged_names (hostname_block c)"
  "copied_names kuma_binary \<subseteq> from_outside c"
  "copied_names declaration_block \<subseteq> from_outside c"
  by (simp_all add: flatpak_sync_def brew_block_def snapshots_block_def backup_block_def nostr_block_def user_block_def
     hostname_block_def kuma_binary_def declaration_block_def from_outside_def siblings_def Let_def split: option.split)

lemma constant_sources:
  "copied_names boot_health \<subseteq> staged_names boot_health"
  "copied_names signature_block \<subseteq> staged_names signature_block"
  "copied_names vm_timezone \<subseteq> staged_names vm_timezone"
  "copied_names home_subvol \<subseteq> staged_names home_subvol"
  by (simp_all add: boot_health_def signature_block_def vm_timezone_def home_subvol_def)

lemma plymouth_sources: "copied_names (plymouth_block B) \<subseteq> staged_names (plymouth_block B)"
  by (simp add: plymouth_block_def)

lemma copies_nothing:
  "copied_names (header_block B c) = {}" "copied_names (rpm_block c) = {}" "copied_names sshd_block = {}"
  "copied_names (services_block c) = {}" "copied_names fuse_block = {}" "copied_names greenboot_block = {}"
  "copied_names fwupd_block = {}" "copied_names (timezone_block c) = {}" "copied_names (system_shell c) = {}"
  "copied_names (locale_block c) = {}" "copied_names branding_block = {}"
  "copied_names (labels_block B) = {}" "copied_names sweep_lint = {}"
  "copied_names (flatpak_remote c) = {}"
  by (simp_all add: header_block_def rpm_block_def sshd_block_def services_block_def fuse_block_def greenboot_block_def
     fwupd_block_def timezone_block_def system_shell_def locale_block_def branding_block_def
     labels_block_def sweep_lint_def flatpak_remote_def Let_def split: option.split)

lemma plan_sources: "copied_names (calls_of B c) \<subseteq> staged_names (calls_of B c) \<union> from_outside c"
  using desktop_sources [of c] block_sources [of c] constant_sources plymouth_sources [of B] certificates_staged [of c]
  unfolding calls_of_eq names_append copies_nothing by blast


section \<open>The context\<close>

lemma bring_all_dom:
  "bring_all beside ns dir = Some d \<Longrightarrow> dom d = dom dir \<union> set ns"
  by (induction beside ns dir rule: bring_all.induct) (auto simp: bring_def split: option.splits)

lemma bring_all_None: "bring_all beside ns dir = None \<longleftrightarrow> (\<exists>n \<in> set ns. beside n = None)"
  by (induction beside ns dir rule: bring_all.induct) (auto simp: bring_def split: option.splits)

lemma writes_dom: "dom (foldl (\<lambda>d (n, x). d(n \<mapsto> x)) dir fs) = dom dir \<union> set (map fst fs)"
  by (induction fs arbitrary: dir) auto



section \<open>The account\<close>

text \<open>
  What a shell reads of the account file: each line one assignment of a single-quoted word, which
  ends at the next quote; anything else is not understood.
\<close>

definition read_assignment :: "string \<Rightarrow> (string \<times> string) option" where
  "read_assignment l =
     (case split_once ''='' l of
        None \<Rightarrow> None
      | Some (name, v) \<Rightarrow>
          (case strip_prefix [apos] v of
             None \<Rightarrow> None
           | Some w \<Rightarrow> (case split_once [apos] w of Some (x, []) \<Rightarrow> Some (name, x) | _ \<Rightarrow> None)))"

definition read_account :: "string \<Rightarrow> (string \<times> string) option list" where
  "read_account text = map read_assignment (butlast (split_char nl text))"

definition account_values :: "user_decl \<Rightarrow> (string \<times> string) list" where
  "account_values u =
     [(''KUMA_USER'', ud_name u)] @
     (case ud_shell u of Some s \<Rightarrow> [(''KUMA_SHELL'', ''/usr/bin/'' @ s)] | None \<Rightarrow> []) @
     (if ud_groups u \<noteq> [] then [(''KUMA_GROUPS'', joined '' '' (ud_groups u))] else []) @
     (case ud_password_hash u of Some h \<Rightarrow> [(''KUMA_PASSWORD_HASH'', h)] | None \<Rightarrow> [])"

definition quotable :: "string \<Rightarrow> bool" where
  "quotable v \<longleftrightarrow> apos \<notin> set v \<and> nl \<notin> set v"

lemma nl_byte: "nl = CHR 0x0A"
  by code_simp

lemma account_file_values: "account_file u = concat (map (\<lambda>(n, v). assignment n v) (account_values u))"
  by (simp add: account_file_def account_values_def split: option.split)

lemma assignment_reads:
  assumes "CHR ''='' \<notin> set n" "nl \<notin> set n" "quotable v"
  shows "split_char nl (assignment n v @ rest) = (n @ ''='' @ [apos] @ v @ [apos]) # split_char nl rest"
    and "read_assignment (n @ ''='' @ [apos] @ v @ [apos]) = Some (n, v)"
proof -
  have "nl \<notin> set (n @ ''='' @ [apos] @ v @ [apos])" using assms by (simp add: quotable_def nl_byte apos_def)
  from split_char_append [OF this, of rest]
  show "split_char nl (assignment n v @ rest) = (n @ ''='' @ [apos] @ v @ [apos]) # split_char nl rest"
    by (simp add: assignment_def)
  show "read_assignment (n @ ''='' @ [apos] @ v @ [apos]) = Some (n, v)"
    using split_once_char [OF assms(1), of "[apos] @ v @ [apos]"] split_once_char [of apos v "[]"] assms(3)
    by (simp add: read_assignment_def strip_prefix_def starts_with_def quotable_def)
qed

lemma account_reads:
  "\<forall>(n, v) \<in> set vs. CHR ''='' \<notin> set n \<and> nl \<notin> set n \<and> quotable v \<Longrightarrow>
   read_account (concat (map (\<lambda>(n, v). assignment n v) vs)) = map Some vs"
  by (induction vs) (auto simp: read_account_def assignment_reads(1) assignment_reads(2) [simplified])

lemma harmless_quotable: "harmless v \<Longrightarrow> quotable v"
proof -
  have "apos \<in> set shell_special" "nl \<in> set shell_special" by code_simp+
  then show "harmless v \<Longrightarrow> quotable v" by (auto simp: harmless_def quotable_def)
qed

lemma joined_quotable: "quotable sep \<Longrightarrow> \<forall>w \<in> set ws. quotable w \<Longrightarrow> quotable (joined sep ws)"
  by (cases ws) (auto simp: joined_def quotable_def)

lemma account_values_quotable:
  assumes "\<forall>v \<in> set (user_values u). harmless v" "(n, v) \<in> set (account_values u)"
  shows "CHR ''='' \<notin> set n \<and> nl \<notin> set n \<and> quotable v"
proof -
  have q: "quotable (ud_name u)" "ud_shell u = Some s \<Longrightarrow> quotable s" "\<forall>g \<in> set (ud_groups u). quotable g"
    "ud_password_hash u = Some h \<Longrightarrow> quotable h" for s h
    using assms(1) harmless_quotable by (auto simp: user_values_def opt_list_def)
  have "quotable (joined '' '' (ud_groups u))" using q(3) by (intro joined_quotable) (simp add: quotable_def apos_def nl_byte)
  moreover have "quotable s \<Longrightarrow> quotable (''/usr/bin/'' @ s)" for s by (simp add: quotable_def apos_def nl_byte)
  ultimately show ?thesis
    using assms(2) q by (auto simp: account_values_def nl_byte split: option.splits if_splits)
qed

text \<open>
  Of a valid declaration, the account file that the converger sources reads back as exactly the
  declared account: one assignment for the name and for each of shell, groups and password hash
  that is declared, each value between quotes it cannot close, and nothing else.
\<close>

theorem account_file_reads_back:
  assumes "validate_config c = Inr ()" "cf_user c = Some u"
  shows "read_account (account_file u) = map Some (account_values u)"
proof -
  have "\<forall>v \<in> set (user_values u). harmless v"
    using valid_is_harmless [OF assms(1)] assms(2) by (auto simp: generated_values_def opt_list_def)
  then show ?thesis
    unfolding account_file_values using account_values_quotable by (intro account_reads) blast
qed

definition sample_user :: user_decl where
  "sample_user = \<lparr>ud_name = ''ann'', ud_shell = Some ''fish'', ud_groups = [''wheel'', ''kvm''],
     ud_password_hash = Some ''$y$j9T$a$b'', ud_ssh_keys = [], ud_autologin = False\<rparr>"

lemma account_file_reads_back_witness:
  "read_account (account_file sample_user) =
     [Some (''KUMA_USER'', ''ann''), Some (''KUMA_SHELL'', ''/usr/bin/fish''), Some (''KUMA_GROUPS'', ''wheel kvm''),
      Some (''KUMA_PASSWORD_HASH'', ''$y$j9T$a$b'')]"
proof -
  have "validate_config (empty_config\<lparr>cf_user := Some sample_user\<rparr>) = Inr ()" by code_simp
  from account_file_reads_back [OF this, of sample_user] show ?thesis
    by (simp add: account_values_def sample_user_def joined_def)
qed

section \<open>The bunker's unit\<close>

text \<open>
  A declared relay is written into the bunker's unit as it stands: one with a line break after its
  scheme passes validation and puts a directive of its own after the ExecStart line.
\<close>

theorem relay_adds_a_unit_line:
  "validate_relay (''wss://r'' @ [nl] @ ''ExecStartPost=/bin/sh'') = Inr () \<and>
   split_char nl (exec_start \<lparr>no_enable = True, no_relays = [''wss://r'' @ [nl] @ ''ExecStartPost=/bin/sh''],
     no_relay_enable = False, no_inactivity_lock_secs = None, no_serve = False\<rparr>) =
   [''ExecStart=/usr/bin/kuma-nostrd --relay wss://r'', ''ExecStartPost=/bin/sh'']"
  by code_simp

section \<open>The base's tag\<close>

lemma hex_byte_lower: "length (hex_byte b) = 2 \<and> list_all hex_lower (hex_byte b)"
proof -
  have d: "hex_lower (hex_digit False n)" if "n < 16" for n
  proof -
    have "of_char (hex_digit False n) = (if n < 10 then 48 + n else 87 + n)"
      using that by (simp add: hex_digit_def)
    then show ?thesis using that by (simp add: hex_lower_def is_digit_def)
  qed
  have "unat b < 256" using unsigned_less [of b] by simp
  then show ?thesis by (simp add: hex_byte_def d)
qed

text \<open>
  The base image built for a declaration carries a tag that the cleaning of old bases recognises,
  and two declarations that leave the same firmware in share it, whatever else they declare. The hash
  has at least the six bytes the tag is made of.
\<close>

theorem base_tag_is_recognised:
  assumes "6 \<le> length (be_sha256 B (base_manifest c))"
  shows "is_content_tag (content_tag B c) \<and>
    (firmware_named c = firmware_named c' \<longrightarrow> content_tag B c' = content_tag B c)"
proof -
  have two: "length (concat (map hex_byte bs)) = 2 * length bs" for bs
    by (induction bs) (simp_all add: hex_byte_lower)
  have "list_all hex_lower (concat (map hex_byte bs))" for bs
    by (induction bs) (simp_all add: hex_byte_lower)
  then have "is_content_tag (content_tag B c)"
    using assms unfolding is_content_tag_def content_tag_def strip_prefix_append by (simp add: two)
  then show ?thesis by (simp add: content_tag_def base_manifest_def)
qed

definition zero_env :: build_env where
  "zero_env = \<lparr>be_sha256 = (\<lambda>_. replicate 32 0), be_version = ''v'', be_package_version = ''0'', be_theme = []\<rparr>"

lemma base_tag_is_recognised_witness:
  "is_content_tag (content_tag zero_env empty_config)"
  using base_tag_is_recognised [of zero_env empty_config empty_config] by (simp add: zero_env_def)


definition sample_plan_config :: config where
  "sample_plan_config = empty_config\<lparr>cf_system := (cf_system empty_config)\<lparr>sy_desktop := Niri,
     sy_ca_certificates := [(''corp'', ''-----BEGIN CERTIFICATE-----'')]\<rparr>\<rparr>"



end
