(* ===== verification/Inventory.thy ===== *)
theory Inventory
  imports Declaration OverrideDrift
begin

text \<open>
  What a machine has installed and what of it convergence owns: \<open>src/inventory.rs\<close>, with the readers of
  that inventory, \<open>diff\<close> and its candidates (\<open>src/inspect.rs\<close>) and the summary of bare \<open>kuma\<close>
  (\<open>observe_machine\<close> in \<open>src/state.rs\<close>). A \<open>BTreeSet\<close> is the sorted list of its members; the
  answers of the machine's tools and its files are parameters.
\<close>

section \<open>The inventory\<close>

definition bt_set :: "string list \<Rightarrow> string list" where
  "bt_set xs = sort (remdups xs)"

definition to_set :: "string \<Rightarrow> string list" where
  "to_set t = bt_set (filter (\<lambda>l. l \<noteq> []) (map trim (str_lines t)))"

definition short :: "string \<Rightarrow> string" where
  "short name = last (split_char (CHR ''/'') name)"

definition short_set :: "string \<Rightarrow> string list" where
  "short_set t = bt_set (map short (to_set t))"

record machine =
  mc_rpm :: "string list option"
  mc_flatpak_system :: "string list option"
  mc_flatpak_user :: "string list"
  mc_flatpak_state :: "string list"
  mc_brew_installed :: "string list option"
  mc_brew_leaves :: "string list"
  mc_brew_state :: "string list"

datatype pkg_list = FlatpakList | BrewList

definition convergence_removes :: "machine \<Rightarrow> pkg_list \<Rightarrow> string \<Rightarrow> string list \<Rightarrow> bool" where
  "convergence_removes m l item declared \<longleftrightarrow>
     item \<in> set (case l of FlatpakList \<Rightarrow> mc_flatpak_state m | BrewList \<Rightarrow> mc_brew_state m) \<and> item \<notin> set declared"

text \<open>
  What can be asked: a command's output, none when it fails; the text of a file; whether brew is there;
  the names in its cellar; and what the directory of one formula holds, version by version: an entry
  that cannot be read, a version with no readable receipt, a receipt of a shape that is not understood,
  or the formulae it was installed with.
\<close>

datatype version_dir = UnreadEntry | NoReceipt | OddReceipt | Receipt "string list"

record probe =
  pr_output :: "string list \<Rightarrow> string option"
  pr_text :: "string \<Rightarrow> string option"
  pr_brew :: bool
  pr_cellar :: "string list option"
  pr_versions :: "string \<Rightarrow> version_dir list option"

definition ask :: "probe \<Rightarrow> string list \<Rightarrow> string list option" where
  "ask P args = map_option to_set (pr_output P args)"

definition text_or_empty :: "string option \<Rightarrow> string" where
  "text_or_empty t = (case t of Some s \<Rightarrow> s | None \<Rightarrow> [])"

definition brew_path :: string where "brew_path = ''/home/linuxbrew/.linuxbrew/bin/brew''"
definition brew_state_path :: string where "brew_state_path = ''/home/linuxbrew/.linuxbrew/.kuma-brews''"
definition flatpak_state_path :: string where "flatpak_state_path = ''/var/lib/kuma/flatpaks-installed''"

definition brew_installed :: "probe \<Rightarrow> string list option" where
  "brew_installed P = (if \<not> pr_brew P then None else map_option bt_set (pr_cellar P))"

text \<open>The formulae one formula's receipts name; none when they cannot be trusted.\<close>

fun receipts_of :: "version_dir list \<Rightarrow> string list option" where
  "receipts_of [] = Some []"
| "receipts_of (UnreadEntry # vs) = None"
| "receipts_of (OddReceipt # vs) = None"
| "receipts_of (NoReceipt # vs) = receipts_of vs"
| "receipts_of (Receipt deps # vs) = map_option (\<lambda>ds. map short deps @ ds) (receipts_of vs)"

definition formula_deps :: "version_dir list option \<Rightarrow> string list option" where
  "formula_deps vs =
     (case vs of None \<Rightarrow> None
      | Some ds \<Rightarrow> (case receipts_of ds of None \<Rightarrow> None | Some names \<Rightarrow>
          if list_ex (\<lambda>d. case d of Receipt _ \<Rightarrow> True | _ \<Rightarrow> False) ds then Some names else None))"

fun all_deps :: "(string \<Rightarrow> version_dir list option) \<Rightarrow> string list \<Rightarrow> string list option" where
  "all_deps V [] = Some []"
| "all_deps V (n # ns) =
     (case formula_deps (V n) of None \<Rightarrow> None | Some ds \<Rightarrow> map_option (\<lambda>rest. ds @ rest) (all_deps V ns))"

definition leaves_from_receipts :: "(string \<Rightarrow> version_dir list option) \<Rightarrow> string list \<Rightarrow> string list option" where
  "leaves_from_receipts V installed =
     map_option (\<lambda>deps. filter (\<lambda>n. n \<notin> set deps) installed) (all_deps V installed)"

definition brew_leaves :: "probe \<Rightarrow> string list option \<Rightarrow> string list" where
  "brew_leaves P installed =
     (case installed of
        None \<Rightarrow> []
      | Some names \<Rightarrow>
          if names = [] then []
          else (case leaves_from_receipts (pr_versions P) names of
                  Some ls \<Rightarrow> ls
                | None \<Rightarrow> (case ask P [brew_path, ''leaves''] of Some ls \<Rightarrow> ls | None \<Rightarrow> [])))"

definition flatpak_query :: "string \<Rightarrow> string list" where
  "flatpak_query sc = [''flatpak'', ''list'', sc, ''--app'', ''--columns=application'']"

definition observe :: "probe \<Rightarrow> config \<Rightarrow> machine" where
  "observe P c =
     (let installed = brew_installed P
      in \<lparr>mc_rpm = (if pk_rpm (cf_packages c) = [] then None else ask P [''rpm'', ''-qa'', ''--qf'', ''%{NAME}'' @ [nl]]),
          mc_flatpak_system = ask P (flatpak_query ''--system''),
          mc_flatpak_user = (case ask P (flatpak_query ''--user'') of Some s \<Rightarrow> s | None \<Rightarrow> []),
          mc_flatpak_state = to_set (text_or_empty (pr_text P flatpak_state_path)),
          mc_brew_installed = installed,
          mc_brew_leaves = brew_leaves P installed,
          mc_brew_state = short_set (text_or_empty (pr_text P brew_state_path))\<rparr>)"

definition drift_machine :: "probe \<Rightarrow> machine" where
  "drift_machine P =
     \<lparr>mc_rpm = None, mc_flatpak_system = ask P (flatpak_query ''--system''), mc_flatpak_user = [],
      mc_flatpak_state = to_set (text_or_empty (pr_text P flatpak_state_path)),
      mc_brew_installed = brew_installed P, mc_brew_leaves = [],
      mc_brew_state = short_set (text_or_empty (pr_text P brew_state_path))\<rparr>"

section \<open>What bare \<open>kuma\<close> counts\<close>

definition count_line :: "nat \<Rightarrow> string \<Rightarrow> string list" where
  "count_line n what = (if 0 < n then [show_nat n @ '' '' @ what] else [])"

definition summary_flatpaks :: "machine \<Rightarrow> string option \<Rightarrow> string list" where
  "summary_flatpaks m baked =
     (case (baked, mc_flatpak_system m) of
        (Some text, Some installed) \<Rightarrow>
          (let declared = to_set text
           in count_line (length (filter (\<lambda>a. a \<notin> set installed) declared)) ''flatpak(s) to install'' @
              count_line (length (filter (\<lambda>a. convergence_removes m FlatpakList a declared) installed)) ''flatpak(s) to remove'')
      | _ \<Rightarrow> [])"

definition summary_brews :: "machine \<Rightarrow> string option \<Rightarrow> string list" where
  "summary_brews m baked =
     (case (baked, mc_brew_installed m) of
        (Some text, Some installed) \<Rightarrow>
          (let declared = bt_set (map short (to_set text))
           in count_line (length (filter (\<lambda>f. f \<notin> set installed) declared)) ''brew formula(e) to install'' @
              count_line (length (filter (\<lambda>f. convergence_removes m BrewList f declared) installed)) ''brew formula(e) to remove'')
      | _ \<Rightarrow> [])"

definition baked_flatpaks :: string where "baked_flatpaks = ''/usr/lib/kuma/flatpaks''"
definition baked_brews :: string where "baked_brews = ''/usr/lib/kuma/brews''"

definition summary_drift :: "probe \<Rightarrow> string list" where
  "summary_drift P =
     (let m = drift_machine P
      in summary_flatpaks m (pr_text P baked_flatpaks) @ summary_brews m (pr_text P baked_brews))"

section \<open>Candidates\<close>

record candidate =
  cd_list :: string
  cd_item :: string
  cd_doomed :: bool
  cd_promotes :: bool

definition candidate_of :: "string \<Rightarrow> string \<Rightarrow> bool \<Rightarrow> bool \<Rightarrow> candidate" where
  "candidate_of l i d p = \<lparr>cd_list = l, cd_item = i, cd_doomed = d, cd_promotes = p\<rparr>"

definition system_candidates :: "config \<Rightarrow> machine \<Rightarrow> candidate list" where
  "system_candidates c m =
     (let flatpak = bt_set (pk_flatpak (cf_packages c))
      in case mc_flatpak_system m of
           None \<Rightarrow> []
         | Some installed \<Rightarrow>
             map (\<lambda>a. candidate_of ''flatpak'' a (convergence_removes m FlatpakList a flatpak) False)
               (filter (\<lambda>a. a \<notin> set flatpak) installed))"

definition brew_candidates :: "config \<Rightarrow> machine \<Rightarrow> candidate list" where
  "brew_candidates c m =
     (let brew = bt_set (pk_brew (cf_packages c))
      in case mc_brew_installed m of
           None \<Rightarrow> []
         | Some installed \<Rightarrow>
             map (\<lambda>f. candidate_of ''brew'' f (convergence_removes m BrewList f brew) False)
               (filter (\<lambda>f. convergence_removes m BrewList f brew \<or> f \<in> set (mc_brew_leaves m))
                 (filter (\<lambda>f. f \<notin> set brew) installed)))"

definition user_candidates :: "config \<Rightarrow> machine \<Rightarrow> candidate list" where
  "user_candidates c m =
     (let flatpak = bt_set (pk_flatpak (cf_packages c))
      in map (\<lambda>a. candidate_of ''flatpak'' a False True)
           (filter (\<lambda>a. a \<notin> set flatpak \<and> \<not> (case mc_flatpak_system m of Some s \<Rightarrow> a \<in> set s | None \<Rightarrow> False))
             (mc_flatpak_user m)))"

definition candidate_key :: "candidate \<Rightarrow> bool \<times> bool \<times> string \<times> string" where
  "candidate_key k = (\<not> cd_doomed k, cd_promotes k, cd_list k, cd_item k)"

definition candidates :: "config \<Rightarrow> machine \<Rightarrow> candidate list" where
  "candidates c m = sort_key candidate_key (system_candidates c m @ brew_candidates c m @ user_candidates c m)"


section \<open>The difference\<close>

datatype change = Add | Remove | Mismatch

datatype diff_note =
    NotInImage
  | WillInstall
  | WillRemove
  | NoLongerDeclared
  | DeclaredEnable string bool
  | DeclaredDisable
  | NotApplied
  | KumaSetIt

datatype skip_note = FlatpakUnavailable | BrewNotBootstrapped

record diff_section =
  ds_name :: string
  ds_entries :: "(change \<times> string \<times> diff_note) list"
  ds_skipped :: "skip_note option"

definition diff_section :: "string \<Rightarrow> (change \<times> string \<times> diff_note) list \<Rightarrow> skip_note option \<Rightarrow> diff_section" where
  "diff_section n es sk = \<lparr>ds_name = n, ds_entries = es, ds_skipped = sk\<rparr>"

definition rpm_section :: "config \<Rightarrow> machine \<Rightarrow> diff_section" where
  "rpm_section c m =
     diff_section ''packages.rpm''
       (case mc_rpm m of
          Some installed \<Rightarrow> map (\<lambda>p. (Add, p, NotInImage)) (filter (\<lambda>p. p \<notin> set installed) (pk_rpm (cf_packages c)))
        | None \<Rightarrow> []) None"

definition doomed_in :: "string \<Rightarrow> candidate list \<Rightarrow> string list" where
  "doomed_in l found = map cd_item (filter (\<lambda>k. cd_list k = l \<and> cd_doomed k) found)"

definition flatpak_section :: "config \<Rightarrow> machine \<Rightarrow> candidate list \<Rightarrow> diff_section" where
  "flatpak_section c m found =
     (case mc_flatpak_system m of
        Some installed \<Rightarrow>
          diff_section ''packages.flatpak''
            (map (\<lambda>a. (Add, a, WillInstall)) (filter (\<lambda>a. a \<notin> set installed) (bt_set (pk_flatpak (cf_packages c)))) @
             map (\<lambda>a. (Remove, a, WillRemove)) (doomed_in ''flatpak'' found)) None
      | None \<Rightarrow> diff_section ''packages.flatpak'' [] (Some FlatpakUnavailable))"

definition brew_section :: "config \<Rightarrow> machine \<Rightarrow> candidate list \<Rightarrow> bool \<Rightarrow> diff_section" where
  "brew_section c m found brew_there =
     (let declared = bt_set (pk_brew (cf_packages c))
      in if declared \<noteq> [] \<or> brew_there then
           (case mc_brew_installed m of
              Some installed \<Rightarrow>
                diff_section ''packages.brew''
                  (map (\<lambda>f. (Add, f, WillInstall)) (filter (\<lambda>f. f \<notin> set installed) declared) @
                   map (\<lambda>f. (Remove, f, NoLongerDeclared)) (doomed_in ''brew'' found)) None
            | None \<Rightarrow> diff_section ''packages.brew'' [] (Some BrewNotBootstrapped))
         else diff_section ''packages.brew'' [] None)"

text \<open>One answer a line, in the order asked, whatever the command's status.\<close>

definition state_word :: "string list \<Rightarrow> string" where
  "state_word ls = (let w = trim (case ls of l # _ \<Rightarrow> l | [] \<Rightarrow> []) in if w = [] then ''not found'' else w)"

fun pair_states :: "string list \<Rightarrow> string list \<Rightarrow> (string \<times> string) list" where
  "pair_states [] ls = []"
| "pair_states (u # us) ls = (u, state_word ls) # pair_states us (tl ls)"

definition unit_states :: "string option \<Rightarrow> string list \<Rightarrow> string \<Rightarrow> string option" where
  "unit_states answered units = map_of (rev (pair_states units (str_lines (text_or_empty answered))))"

definition state_of :: "(string \<Rightarrow> string option) \<Rightarrow> string \<Rightarrow> string" where
  "state_of states unit_name = (case states unit_name of Some s \<Rightarrow> s | None \<Rightarrow> ''not found'')"

definition services_section :: "config \<Rightarrow> string option \<Rightarrow> diff_section" where
  "services_section c answered =
     (let s = cf_services c; states = unit_states answered (sv_enable s @ sv_disable s)
      in diff_section ''services''
           (concat (map (\<lambda>u. let st = state_of states u
               in if st \<noteq> ''enabled'' \<and> st \<noteq> ''alias'' then [(Mismatch, u, DeclaredEnable st (st = ''disabled''))] else [])
             (sv_enable s)) @
            map (\<lambda>u. (Mismatch, u, DeclaredDisable)) (filter (\<lambda>u. state_of states u = ''enabled'') (sv_disable s)))
           None)"

definition overrides_section :: "drift list \<Rightarrow> diff_section" where
  "overrides_section ds =
     diff_section ''overrides''
       (map (\<lambda>d. if dr_change d = ChangeAdd then (Add, drift_item d, NotApplied) else (Remove, drift_item d, KumaSetIt)) ds) None"

definition image_list_stale :: "string option \<Rightarrow> string list \<Rightarrow> bool" where
  "image_list_stale baked declared = (case baked of Some text \<Rightarrow> to_set text \<noteq> declared | None \<Rightarrow> False)"

definition baked_is_behind :: "config \<Rightarrow> probe \<Rightarrow> bool \<Rightarrow> bool" where
  "baked_is_behind c P overrides_stale \<longleftrightarrow>
     image_list_stale (pr_text P baked_flatpaks) (bt_set (pk_flatpak (cf_packages c))) \<or>
     image_list_stale (pr_text P baked_brews) (bt_set (pk_brew (cf_packages c))) \<or> overrides_stale"

definition diff_sections :: "config \<Rightarrow> probe \<Rightarrow> string option \<Rightarrow> drift list \<Rightarrow> diff_section list" where
  "diff_sections c P answered ds =
     (let m = observe P c; found = candidates c m
      in [rpm_section c m, flatpak_section c m found, brew_section c m found (pr_brew P), services_section c answered,
          overrides_section ds])"

datatype diff_action = KeepThem | BuildIt | SyncNow

definition diff_actions :: "candidate list \<Rightarrow> diff_section list \<Rightarrow> bool \<Rightarrow> diff_action list" where
  "diff_actions found sections stale_image =
     (let converge_hint = list_ex (\<lambda>s. ds_name s \<noteq> ''packages.rpm'' \<and> ds_name s \<noteq> ''services'' \<and> ds_entries s \<noteq> []) sections;
          keep = (if list_all cd_promotes found then [] else [KeepThem]);
          doomed = list_ex cd_doomed found
      in (if doomed then keep else []) @
         (if stale_image then [BuildIt] else if converge_hint then [SyncNow] else []) @
         (if doomed then [] else keep))"


section \<open>Sets\<close>

lemma bt_set_set [simp]: "set (bt_set xs) = set xs"
  by (simp add: bt_set_def)

lemma bt_set_distinct [simp]: "distinct (bt_set xs)"
  by (simp add: bt_set_def)

lemma bt_set_eq: "bt_set xs = bt_set ys \<longleftrightarrow> set xs = set ys"
proof
  assume "bt_set xs = bt_set ys"
  then show "set xs = set ys" using bt_set_set by metis
next
  assume "set xs = set ys"
  then show "bt_set xs = bt_set ys" by (simp add: bt_set_def sorted_list_of_set_sort_remdups [symmetric])
qed

lemma bt_set_bt_set [simp]: "bt_set (bt_set xs) = bt_set xs"
  by (simp add: bt_set_eq)

lemma to_set_distinct [simp]: "distinct (to_set t)"
  by (simp add: to_set_def)

section \<open>Leaves\<close>

lemma all_deps_set:
  "all_deps V ns = Some ds \<Longrightarrow> set ds = (\<Union>n \<in> set ns. set (case formula_deps (V n) of Some d \<Rightarrow> d | None \<Rightarrow> []))"
  by (induction ns arbitrary: ds) (auto split: option.splits)

lemma all_deps_some: "all_deps V ns \<noteq> None \<longleftrightarrow> (\<forall>n \<in> set ns. formula_deps (V n) \<noteq> None)"
  by (induction ns) (auto split: option.splits)

lemma receipt_names:
  "f \<in> (case v of Receipt names \<Rightarrow> short ` set names | _ \<Rightarrow> {}) \<longleftrightarrow> (\<exists>names. v = Receipt names \<and> f \<in> short ` set names)"
  by (cases v) auto

lemma receipts_of_set:
  "receipts_of vs = Some ds \<Longrightarrow> set ds = (\<Union>v \<in> set vs. case v of Receipt names \<Rightarrow> short ` set names | _ \<Rightarrow> {})"
  by (induction vs arbitrary: ds rule: receipts_of.induct) auto

lemma formula_deps_set:
  "formula_deps (Some vs) = Some ds \<Longrightarrow> set ds = (\<Union>v \<in> set vs. case v of Receipt names \<Rightarrow> short ` set names | _ \<Rightarrow> {})"
  by (auto simp: formula_deps_def receipts_of_set split: option.splits if_splits)

text \<open>
  When every installed formula has a receipt and every receipt can be read, the formulae kept as a
  person's own choices are exactly the installed ones that no receipt of an installed formula names;
  and when one cannot be trusted, nothing is claimed from the receipts.
\<close>

theorem leaves_are_what_nothing_needs:
  "case leaves_from_receipts V installed of
     None \<Rightarrow> \<exists>n \<in> set installed. formula_deps (V n) = None
   | Some ls \<Rightarrow> set ls = {f \<in> set installed.
       \<not> (\<exists>n \<in> set installed. \<exists>vs names. V n = Some vs \<and> Receipt names \<in> set vs \<and> f \<in> short ` set names)}"
proof (cases "leaves_from_receipts V installed")
  case None
  then show ?thesis using all_deps_some [of V installed] by (simp add: leaves_from_receipts_def)
next
  case (Some ls)
  then obtain ds where d: "all_deps V installed = Some ds" "ls = filter (\<lambda>n. n \<notin> set ds) installed"
    by (auto simp: leaves_from_receipts_def)
  then have some: "\<forall>n \<in> set installed. formula_deps (V n) \<noteq> None" using all_deps_some [of V installed] by simp
  have needs: "f \<in> set (case formula_deps (V n) of Some e \<Rightarrow> e | None \<Rightarrow> []) \<longleftrightarrow>
      (\<exists>vs names. V n = Some vs \<and> Receipt names \<in> set vs \<and> f \<in> short ` set names)" if n: "n \<in> set installed" for n f
  proof -
    obtain es where es: "formula_deps (V n) = Some es" using some n by auto
    then obtain vs where vs: "V n = Some vs" by (cases "V n") (simp_all add: formula_deps_def)
    have "f \<in> set es \<longleftrightarrow> (\<exists>v \<in> set vs. f \<in> (case v of Receipt names \<Rightarrow> short ` set names | _ \<Rightarrow> {}))"
      using formula_deps_set es by (simp add: vs)
    also have "\<dots> \<longleftrightarrow> (\<exists>names. Receipt names \<in> set vs \<and> f \<in> short ` set names)"
      by (auto simp: receipt_names)
    finally show ?thesis using es [unfolded vs] by (simp add: vs)
  qed
  have "f \<in> set ds \<longleftrightarrow> (\<exists>n \<in> set installed. f \<in> set (case formula_deps (V n) of Some e \<Rightarrow> e | None \<Rightarrow> []))" for f
    using all_deps_set [OF d(1)] by simp
  then have "set ls = {f \<in> set installed.
       \<not> (\<exists>n \<in> set installed. \<exists>vs names. V n = Some vs \<and> Receipt names \<in> set vs \<and> f \<in> short ` set names)}"
    unfolding d(2) using needs by auto
  then show ?thesis by (simp add: Some)
qed

section \<open>What diff says will go\<close>

lemma candidates_set:
  "set (candidates c m) = set (system_candidates c m) \<union> set (brew_candidates c m) \<union> set (user_candidates c m)"
  by (auto simp: candidates_def)

lemma candidate_sel [simp]:
  "cd_list (candidate_of l i d p) = l" "cd_item (candidate_of l i d p) = i"
  "cd_doomed (candidate_of l i d p) = d" "cd_promotes (candidate_of l i d p) = p"
  by (simp_all add: candidate_of_def)

lemma in_system_candidates:
  "k \<in> set (system_candidates c m) \<longleftrightarrow>
     (\<exists>installed a. mc_flatpak_system m = Some installed \<and> a \<in> set installed \<and> a \<notin> set (pk_flatpak (cf_packages c)) \<and>
        k = candidate_of ''flatpak'' a (convergence_removes m FlatpakList a (bt_set (pk_flatpak (cf_packages c)))) False)"
  by (cases "mc_flatpak_system m") (auto simp: system_candidates_def Let_def)

lemma in_brew_candidates:
  "k \<in> set (brew_candidates c m) \<longleftrightarrow>
     (\<exists>installed f. mc_brew_installed m = Some installed \<and> f \<in> set installed \<and> f \<notin> set (pk_brew (cf_packages c)) \<and>
        (convergence_removes m BrewList f (bt_set (pk_brew (cf_packages c))) \<or> f \<in> set (mc_brew_leaves m)) \<and>
        k = candidate_of ''brew'' f (convergence_removes m BrewList f (bt_set (pk_brew (cf_packages c)))) False)"
  by (cases "mc_brew_installed m") (auto simp: brew_candidates_def Let_def)

lemma in_user_candidates:
  "k \<in> set (user_candidates c m) \<Longrightarrow> \<exists>a. k = candidate_of ''flatpak'' a False True"
  by (auto simp: user_candidates_def Let_def)

lemma in_doomed:
  "a \<in> set (doomed_in l found) \<longleftrightarrow> (\<exists>k \<in> set found. cd_list k = l \<and> cd_doomed k \<and> cd_item k = a)"
  by (auto simp: doomed_in_def)

lemma removes_undeclared: "convergence_removes m l a (bt_set xs) \<Longrightarrow> a \<notin> set xs"
  by (simp add: convergence_removes_def)

lemma doomed_flatpaks:
  "a \<in> set (doomed_in ''flatpak'' (candidates c m)) \<longleftrightarrow>
     (\<exists>installed. mc_flatpak_system m = Some installed \<and> a \<in> set installed) \<and>
     convergence_removes m FlatpakList a (bt_set (pk_flatpak (cf_packages c)))"
proof
  assume "a \<in> set (doomed_in ''flatpak'' (candidates c m))"
  then obtain k where k: "k \<in> set (candidates c m)" "cd_list k = ''flatpak''" "cd_doomed k" "cd_item k = a"
    by (auto simp: in_doomed)
  then have "k \<in> set (system_candidates c m)"
    using in_user_candidates [of k c m] by (auto simp: candidates_set in_brew_candidates)
  then show "(\<exists>installed. mc_flatpak_system m = Some installed \<and> a \<in> set installed) \<and>
     convergence_removes m FlatpakList a (bt_set (pk_flatpak (cf_packages c)))"
    using k(3,4) by (auto simp: in_system_candidates)
next
  assume r: "(\<exists>installed. mc_flatpak_system m = Some installed \<and> a \<in> set installed) \<and>
     convergence_removes m FlatpakList a (bt_set (pk_flatpak (cf_packages c)))"
  then have "candidate_of ''flatpak'' a True False \<in> set (system_candidates c m)"
    using removes_undeclared [of m FlatpakList a "pk_flatpak (cf_packages c)"] by (auto simp: in_system_candidates intro!: exI [of _ a])
  then show "a \<in> set (doomed_in ''flatpak'' (candidates c m))"
    unfolding in_doomed candidates_set by (intro bexI [of _ "candidate_of ''flatpak'' a True False"]) simp_all
qed

lemma doomed_brews:
  "f \<in> set (doomed_in ''brew'' (candidates c m)) \<longleftrightarrow>
     (\<exists>installed. mc_brew_installed m = Some installed \<and> f \<in> set installed) \<and>
     convergence_removes m BrewList f (bt_set (pk_brew (cf_packages c)))"
proof
  assume "f \<in> set (doomed_in ''brew'' (candidates c m))"
  then obtain k where k: "k \<in> set (candidates c m)" "cd_list k = ''brew''" "cd_doomed k" "cd_item k = f"
    by (auto simp: in_doomed)
  then have "k \<in> set (brew_candidates c m)"
    using in_user_candidates [of k c m] by (auto simp: candidates_set in_system_candidates)
  then show "(\<exists>installed. mc_brew_installed m = Some installed \<and> f \<in> set installed) \<and>
     convergence_removes m BrewList f (bt_set (pk_brew (cf_packages c)))"
    using k(3,4) by (auto simp: in_brew_candidates)
next
  assume r: "(\<exists>installed. mc_brew_installed m = Some installed \<and> f \<in> set installed) \<and>
     convergence_removes m BrewList f (bt_set (pk_brew (cf_packages c)))"
  then have "candidate_of ''brew'' f True False \<in> set (brew_candidates c m)"
    using removes_undeclared [of m BrewList f "pk_brew (cf_packages c)"] by (auto simp: in_brew_candidates intro!: exI [of _ f])
  then show "f \<in> set (doomed_in ''brew'' (candidates c m))"
    unfolding in_doomed candidates_set by (intro bexI [of _ "candidate_of ''brew'' f True False"]) simp_all
qed



section \<open>Two readers of one inventory\<close>

lemma removes_iff:
  "x \<notin> set xs \<and> convergence_removes m l x (bt_set xs) \<longleftrightarrow> convergence_removes m l x (bt_set xs)"
  "x \<notin> set xs \<and> (convergence_removes m l x (bt_set xs) \<or> q) \<and> convergence_removes m l x (bt_set xs) \<longleftrightarrow>
     convergence_removes m l x (bt_set xs)"
  by (auto simp: convergence_removes_def)

lemma length_doomed:
  "length (doomed_in l (candidates c m)) =
     length (filter (\<lambda>k. cd_list k = l \<and> cd_doomed k) (system_candidates c m)) +
     length (filter (\<lambda>k. cd_list k = l \<and> cd_doomed k) (brew_candidates c m)) +
     length (filter (\<lambda>k. cd_list k = l \<and> cd_doomed k) (user_candidates c m))"
  by (simp add: doomed_in_def candidates_def filter_sort)

lemma user_not_doomed: "filter (\<lambda>k. cd_list k = l \<and> cd_doomed k) (user_candidates c m) = []"
  using in_user_candidates [of _ c m] by (fastforce simp: filter_empty_conv)

lemma length_doomed_flatpaks:
  assumes "mc_flatpak_system m = Some installed"
  shows "length (doomed_in ''flatpak'' (candidates c m)) =
     length (filter (\<lambda>a. convergence_removes m FlatpakList a (bt_set (pk_flatpak (cf_packages c)))) installed)"
proof -
  have b: "filter (\<lambda>k. cd_list k = ''flatpak'' \<and> cd_doomed k) (brew_candidates c m) = []"
    by (auto simp: filter_empty_conv in_brew_candidates)
  show ?thesis
    unfolding length_doomed b user_not_doomed using assms
    by (simp add: system_candidates_def Let_def filter_map comp_def removes_iff)
qed

lemma length_doomed_brews:
  assumes "mc_brew_installed m = Some installed"
  shows "length (doomed_in ''brew'' (candidates c m)) =
     length (filter (\<lambda>f. convergence_removes m BrewList f (bt_set (pk_brew (cf_packages c)))) installed)"
proof -
  let ?R = "\<lambda>f. convergence_removes m BrewList f (bt_set (pk_brew (cf_packages c)))"
  have s: "filter (\<lambda>k. cd_list k = ''brew'' \<and> cd_doomed k) (system_candidates c m) = []"
    by (auto simp: filter_empty_conv in_system_candidates)
  show ?thesis
    unfolding length_doomed s user_not_doomed using assms
    by (simp add: brew_candidates_def Let_def filter_map comp_def removes_iff)
qed

lemma drift_machine_same:
  "mc_flatpak_system (drift_machine P) = mc_flatpak_system (observe P c)"
  "mc_flatpak_state (drift_machine P) = mc_flatpak_state (observe P c)"
  "mc_brew_installed (drift_machine P) = mc_brew_installed (observe P c)"
  "mc_brew_state (drift_machine P) = mc_brew_state (observe P c)"
  by (simp_all add: drift_machine_def observe_def Let_def)

lemma removes_same: "convergence_removes (drift_machine P) l a xs = convergence_removes (observe P c) l a xs"
  by (cases l) (simp_all add: convergence_removes_def drift_machine_same [of P c])

lemma short_plain: "CHR ''/'' \<notin> set f \<Longrightarrow> short f = f"
  by (simp add: short_def split_char_no_sep)

definition entries_with :: "change \<Rightarrow> diff_section \<Rightarrow> nat" where
  "entries_with ch s = length (filter (\<lambda>(x, _). x = ch) (ds_entries s))"

lemma entries_with_section [simp]:
  "entries_with Add (diff_section n (map (\<lambda>a. (Add, a, y)) as @ map (\<lambda>a. (Remove, a, z)) bs) sk) = length as"
  "entries_with Remove (diff_section n (map (\<lambda>a. (Add, a, y)) as @ map (\<lambda>a. (Remove, a, z)) bs) sk) = length bs"
  by (simp_all add: entries_with_def diff_section_def filter_map comp_def)


definition tap_machine :: machine where
  "tap_machine = \<lparr>mc_rpm = None, mc_flatpak_system = None, mc_flatpak_user = [], mc_flatpak_state = [],
     mc_brew_installed = Some [''tool''], mc_brew_leaves = [''tool''], mc_brew_state = [''tool'']\<rparr>"

definition tap_config :: config where
  "tap_config = empty_config\<lparr>cf_packages := \<lparr>pk_rpm = [], pk_flatpak = [], pk_brew = [''owner/tap/tool'']\<rparr>\<rparr>"


lemma plain_line_ok: "plain w \<Longrightarrow> line_ok w"
  using plain_nl [of w] by (metis last_in_set line_ok_def)

lemma to_set_unlines:
  assumes "\<forall>w \<in> set ws. w \<noteq> [] \<and> plain w"
  shows "to_set (unlines ws) = bt_set ws"
proof -
  have "str_lines (unlines ws) = ws" using assms plain_line_ok by (intro str_lines_unlines) blast
  moreover have "map trim ws = ws" using assms plain_trimmed by (intro map_idI) simp
  moreover have "filter (\<lambda>l. l \<noteq> []) ws = ws" using assms by (intro filter_True) blast
  ultimately show ?thesis by (simp add: to_set_def)
qed

text \<open>
  A formula declared by its tap is installed under its last name, and only the summary takes that
  into account: where the machine has converged, \<open>diff\<close> says that the declared formula is missing and
  that the installed one will be removed, and \<open>capture\<close> offers to declare it a second time.
\<close>

theorem tapped_formula_drifts_for_ever:
  "ds_entries (brew_section tap_config tap_machine (candidates tap_config tap_machine) True) =
     [(Add, ''owner/tap/tool'', WillInstall), (Remove, ''tool'', NoLongerDeclared)] \<and>
   candidates tap_config tap_machine = [candidate_of ''brew'' ''tool'' True False] \<and>
   summary_brews tap_machine (Some (unlines [''owner/tap/tool''])) = []"
proof (intro conjI)
  have "plain ''owner/tap/tool''" by code_simp
  then have "to_set (unlines [''owner/tap/tool'']) = bt_set [''owner/tap/tool'']" by (intro to_set_unlines) simp
  then show "summary_brews tap_machine (Some (unlines [''owner/tap/tool''])) = []"
    by (simp add: summary_brews_def tap_machine_def bt_set_def short_def count_line_def convergence_removes_def)
qed (simp_all add: brew_section_def diff_section_def candidates_def system_candidates_def brew_candidates_def
     user_candidates_def tap_config_def tap_machine_def doomed_in_def bt_set_def convergence_removes_def)

text \<open>
  An answer of \<open>systemctl\<close> that leaves a unit out is read one unit too early: the unit that was not
  answered for gets the next one's state, and the last is reported as not found.
\<close>

theorem missing_answer_shifts_the_rest:
  "unit_states (Some ''enabled'') [''gone.service'', ''sshd.service''] ''gone.service'' = Some ''enabled'' \<and>
   unit_states (Some ''enabled'') [''gone.service'', ''sshd.service''] ''sshd.service'' = Some ''not found''"
proof -
  have l: "str_lines ''enabled'' = [''enabled'']" by code_simp
  have "plain ''enabled''" by code_simp
  then have "trim ''enabled'' = ''enabled''" by (simp add: plain_trimmed)
  then show ?thesis by (simp add: unit_states_def text_or_empty_def l state_word_def trim_empty)
qed

definition fish_probe :: probe where
  "fish_probe = \<lparr>pr_output = (\<lambda>_. Some []),
     pr_text = (\<lambda>p. if p = baked_flatpaks then Some [] else if p = baked_brews then Some (unlines [''fish'']) else None),
     pr_brew = True, pr_cellar = Some [''fish''], pr_versions = (\<lambda>_. None)\<rparr>"

definition fish_config :: config where
  "fish_config = empty_config\<lparr>cf_packages := \<lparr>pk_rpm = [], pk_flatpak = [], pk_brew = [''fish'']\<rparr>\<rparr>"

lemma to_set_fish: "to_set (unlines [''fish'']) = [''fish'']" "to_set (''fish'' @ [nl]) = [''fish'']" "to_set [] = []"
proof -
  have "plain ''fish''" by code_simp
  then show "to_set (unlines [''fish'']) = [''fish'']" using to_set_unlines [of "[''fish'']"] by (simp add: bt_set_def)
  then show "to_set (''fish'' @ [nl]) = [''fish'']" by (simp add: unlines_def)
  show "to_set [] = []" by (simp add: to_set_def str_lines_def bt_set_def)
qed


end
