(* ===== verification/StateMap.thy ===== *)
theory StateMap
  imports Inventory Blocks
begin

text \<open>
  What bare \<open>kuma\<close> answers, \<open>src/state.rs\<close>: the commands it prints, and the classifier that turns
  what was observed into one state, its headline and the commands that lead out of it. The version
  of the binary, the path flag of the invocation and the reference installer media would install
  are parameters.
\<close>

section \<open>Printed commands\<close>

record action =
  ac_rel :: string
  ac_cmd :: string
  ac_why :: string

definition config_verbs :: "string list" where
  "config_verbs =
     [''add'', ''backup'', ''build'', ''capture'', ''check'', ''clean'', ''diff'', ''generate'', ''iso'', ''remove'',
      ''snapshot'', ''update'']"

text \<open>The text before its first white space: \<open>split_whitespace().next()\<close> of a text with none in front.\<close>

fun up_to_space :: "string \<Rightarrow> string" where
  "up_to_space [] = []"
| "up_to_space (c # s) = (if space_first spaces (c # s) then [] else c # up_to_space s)"

definition apply_config_flag :: "string option \<Rightarrow> string \<Rightarrow> string" where
  "apply_config_flag flag cmd =
     (case flag of
        None \<Rightarrow> cmd
      | Some f \<Rightarrow>
          (case strip_prefix ''kuma '' cmd of
             None \<Rightarrow> cmd
           | Some rest \<Rightarrow> if up_to_space (trim_start rest) \<in> set config_verbs then cmd @ f else cmd))"

definition new_action :: "string option \<Rightarrow> string \<Rightarrow> string \<Rightarrow> string \<Rightarrow> action" where
  "new_action flag rel cmd why = \<lparr>ac_rel = rel, ac_cmd = apply_config_flag flag cmd, ac_why = why\<rparr>"

definition bare_char :: "char \<Rightarrow> bool" where
  "bare_char c \<longleftrightarrow> ascii_alnum c \<or> c \<in> set ''._/-@+:,=''"

definition quote_char :: "char \<Rightarrow> string" where
  "quote_char c = (if c = CHR 0x27 then [CHR 0x27, CHR 0x5C, CHR 0x27, CHR 0x27] else [c])"

definition shell_quote :: "string \<Rightarrow> string" where
  "shell_quote text =
     (if text \<noteq> [] \<and> list_all bare_char text then text
      else [CHR 0x27] @ concat (map quote_char text) @ [CHR 0x27])"

definition config_flag :: "string option \<Rightarrow> string option" where
  "config_flag explicit = map_option (\<lambda>p. '' --config '' @ shell_quote p) explicit"

text \<open>An error of the toml reader without the lines that quote the declaration.\<close>

definition quotes_source :: "string \<Rightarrow> bool" where
  "quotes_source l =
     (let t = trim_start l
      in starts_with ''|'' t \<or> starts_with ''^'' t \<or>
         (case split_once ''|'' t of
            None \<Rightarrow> False
          | Some (before, _) \<Rightarrow> (let w = trim before in w \<noteq> [] \<and> list_all is_digit w)))"

definition without_quoted_source :: "string \<Rightarrow> string" where
  "without_quoted_source text = joined [nl] (filter (\<lambda>l. \<not> quotes_source l) (str_lines text))"

section \<open>What was observed\<close>

datatype config_fact =
    ConfigMissing
  | ConfigInvalid string
  | ConfigLoaded nat nat nat
  | ConfigBaked nat nat nat

record image_fact =
  im_id :: string
  im_age_secs :: u64
  im_edited_after :: bool
  im_builder :: "string option"

datatype machine_fact =
    NotBootc
  | BootcForeign
  | KumaMachine bool "string list" "string option"

record observed =
  ob_config_path :: string
  ob_config :: config_fact
  ob_image :: "image_fact option"
  ob_machine :: machine_fact
  ob_live :: bool
  ob_live_source :: "string option"
  ob_converging :: "string list"

text \<open>The probe of the machine itself: which marks are there, and what it counts as drift.\<close>

definition observe_machine :: "bool \<Rightarrow> bool \<Rightarrow> bool \<Rightarrow> probe \<Rightarrow> machine_fact" where
  "observe_machine ostree_booted kuma_dir staged P =
     (if \<not> ostree_booted then NotBootc
      else if \<not> kuma_dir then BootcForeign
      else KumaMachine staged (summary_drift P)
        (case pr_text P ''/var/lib/kuma/deployed-image-id'' of
           Some t \<Rightarrow> if trim t \<noteq> [] then Some (trim t) else None
         | None \<Rightarrow> None))"

text \<open>
  \<open>str::parse\<close> for \<open>i64\<close>, and what one line of \<open>podman image inspect\<close> says of the image: the clock and
  the mtime of the declaration, both in seconds, are parameters.
\<close>

definition parse_i64 :: "string \<Rightarrow> int option" where
  "parse_i64 s =
     (case s of
        c # cs \<Rightarrow>
          if c = CHR ''-'' then
            (if cs = [] \<or> \<not> list_all is_digit cs then None
             else if digits_val cs \<le> 2 ^ 63 then Some (- int (digits_val cs)) else None)
          else map_option int (parse_below (2 ^ 63) s)
      | [] \<Rightarrow> None)"

definition i64_saturating_sub :: "int \<Rightarrow> int \<Rightarrow> int" where
  "i64_saturating_sub a b = min (2 ^ 63 - 1) (max (- (2 ^ 63)) (a - b))"

definition read_image :: "int option \<Rightarrow> int option \<Rightarrow> string \<Rightarrow> image_fact option" where
  "read_image clock edited out =
     (case split_once '' '' (trim out) of
        None \<Rightarrow> None
      | Some (ident, rest) \<Rightarrow>
          (let (made, builder) =
                 (case split_once '' '' rest of
                    None \<Rightarrow> (rest, None)
                  | Some (m, b) \<Rightarrow>
                      (m, if trim b \<noteq> [] \<and> trim b \<noteq> ''<no value>'' then Some (trim b) else None))
           in case parse_i64 made of
                None \<Rightarrow> None
              | Some created \<Rightarrow>
                  (let now = (case clock of Some n \<Rightarrow> n | None \<Rightarrow> created)
                   in Some \<lparr>im_id = ident, im_age_secs = of_int (max 0 (i64_saturating_sub now created)),
                        im_edited_after = (case edited of Some m \<Rightarrow> m > created | None \<Rightarrow> False),
                        im_builder = builder\<rparr>)))"

definition sync_units :: "(string \<times> string) list" where
  "sync_units = [(''kuma-flatpak-sync.service'', ''flatpak''), (''kuma-brew-sync.service'', ''brew''),
     (''kuma-user-sync.service'', ''user'')]"

definition observe_converging :: "string option \<Rightarrow> string list" where
  "observe_converging answered =
     (case answered of
        None \<Rightarrow> []
      | Some out \<Rightarrow>
          map (\<lambda>(st, _, label). label)
            (filter (\<lambda>(st, _). st = ''activating'' \<or> st = ''active'') (zip (map trim (str_lines out)) sync_units)))"

section \<open>The classifier\<close>

record env =
  en_version :: string
  en_flag :: "string option"

record snapshot_map =
  sm_state :: string
  sm_headline :: string
  sm_facts :: "(string \<times> string) list"
  sm_actions :: "action list"

text \<open>Which image installer media would write, \<open>src/install.rs\<close>.\<close>

definition default_tag :: string where "default_tag = ''localhost/kuma:latest''"
definition published_image :: string where "published_image = ''ghcr.io/letdown2491/kuma:niri''"

definition unreachable_update_source :: "string \<Rightarrow> bool" where
  "unreachable_update_source reference \<longleftrightarrow> starts_with ''localhost/'' reference"

text \<open>The reference, and the one that had to be replaced and is named in the note.\<close>

definition image_for_media :: "string option \<Rightarrow> string \<times> string option" where
  "image_for_media recorded =
     (case map_option trim recorded of
        None \<Rightarrow> (published_image, None)
      | Some r \<Rightarrow>
          if r = [] then (published_image, None)
          else if \<not> unreachable_update_source r then (r, None)
          else (published_image, Some r))"

section \<open>The three facts\<close>

definition declared_counts :: "nat \<Rightarrow> nat \<Rightarrow> nat \<Rightarrow> string" where
  "declared_counts rpm flatpak brew =
     show_nat rpm @ '' rpm, '' @ show_nat flatpak @ '' flatpak, '' @ show_nat brew @ '' brew''"

definition live_facts :: "observed \<Rightarrow> (string \<times> string) list" where
  "live_facts obs =
     [(''config'',
        (case ob_config obs of
           ConfigLoaded r f b \<Rightarrow> declared_counts r f b @ ''; what this media would install''
         | ConfigBaked r f b \<Rightarrow> declared_counts r f b @ ''; what this media would install''
         | _ \<Rightarrow> ''none carried'')),
      (''image'', ''this media'' @ [CHR 0x27] @ ''s own filesystem, read-only; edits live in RAM''),
      (''machine'', ''none yet; `kuma install` writes one from '' @ fst (image_for_media (ob_live_source obs)))]"

definition human_age :: "u64 \<Rightarrow> string" where
  "human_age s =
     (if s < 60 then show_u64 s @ ''s''
      else if s < 3600 then show_u64 (s div 60) @ ''m''
      else if s < 86400 then show_u64 (s div 3600) @ ''h''
      else show_u64 (s div 86400) @ ''d'')"

definition config_text :: "observed \<Rightarrow> string" where
  "config_text obs =
     (case ob_config obs of
        ConfigMissing \<Rightarrow> ''none ('' @ ob_config_path obs @ '' not found)''
      | ConfigInvalid _ \<Rightarrow> ob_config_path obs @ '' (invalid)''
      | ConfigLoaded r f b \<Rightarrow> ob_config_path obs @ '': '' @ declared_counts r f b @ '' declared''
      | ConfigBaked r f b \<Rightarrow>
          ''/usr/lib/kuma/kuma.toml (this machine'' @ [CHR 0x27] @ ''s baked declaration): '' @ declared_counts r f b)"

definition image_text :: "env \<Rightarrow> observed \<Rightarrow> string" where
  "image_text E obs =
     (case ob_image obs of
        None \<Rightarrow> ''none built ('' @ default_tag @ '' not in podman storage)''
      | Some i \<Rightarrow>
          default_tag @ '', built '' @ human_age (im_age_secs i) @ '' ago'' @
          (if im_edited_after i then '', before the last config edit'' else []) @
          (case im_builder i of
             Some b \<Rightarrow> if b = en_version E then [] else '', by kuma '' @ b
           | None \<Rightarrow> '', by an unrecorded kuma''))"

definition machine_text :: "observed \<Rightarrow> string" where
  "machine_text obs =
     (case ob_machine obs of
        NotBootc \<Rightarrow> ''not a bootc machine (build/test workspace)''
      | BootcForeign \<Rightarrow> ''bootc machine, not running a kuma image''
      | KumaMachine staged drift _ \<Rightarrow>
          joined ''; ''
            ([''running a kuma image''] @ (if staged then [''staged deployment pending reboot''] else []) @
             [if drift = [] then ''converged'' else ''drifted ('' @ joined '', '' drift @ '')'']))"

definition facts_of :: "env \<Rightarrow> observed \<Rightarrow> (string \<times> string) list" where
  "facts_of E obs = [(''config'', config_text obs), (''image'', image_text E obs), (''machine'', machine_text obs)]"

type_synonym so_far = "(string \<times> string) option \<times> action list"

text \<open>The first claim names the state; every step adds its commands.\<close>

definition claim :: "string \<Rightarrow> string \<Rightarrow> action list \<Rightarrow> so_far \<Rightarrow> so_far" where
  "claim st headline acts s = (case fst s of Some x \<Rightarrow> Some x | None \<Rightarrow> Some (st, headline), snd s @ acts)"

definition act :: "env \<Rightarrow> string \<Rightarrow> string \<Rightarrow> string \<Rightarrow> action" where
  "act E rel cmd why = new_action (en_flag E) rel cmd why"

definition reboot_action :: "env \<Rightarrow> action" where
  "reboot_action E = act E ''reboot'' ''sudo systemctl reboot''
     ''boot the staged deployment; kuma rollback returns to the previous one''"

definition is_loaded :: "config_fact \<Rightarrow> bool" where
  "is_loaded c = (case c of ConfigLoaded _ _ _ \<Rightarrow> True | _ \<Rightarrow> False)"

definition step_invalid :: "env \<Rightarrow> observed \<Rightarrow> so_far \<Rightarrow> so_far" where
  "step_invalid E obs s =
     (case ob_config obs of
        ConfigInvalid err \<Rightarrow>
          claim ''config-invalid'' (ob_config_path obs @ '' is invalid; nothing can build from it'')
            [act E ''edit'' (''$EDITOR '' @ ob_config_path obs) err] s
      | _ \<Rightarrow> s)"

definition step_staged :: "env \<Rightarrow> observed \<Rightarrow> so_far \<Rightarrow> so_far" where
  "step_staged E obs s =
     (case ob_machine obs of
        KumaMachine True _ _ \<Rightarrow> claim ''staged'' ''a new deployment is staged; reboot to apply'' [reboot_action E] s
      | _ \<Rightarrow> s)"

definition step_not_built :: "env \<Rightarrow> observed \<Rightarrow> so_far \<Rightarrow> so_far" where
  "step_not_built E obs s =
     (if is_loaded (ob_config obs) \<and> ob_image obs = None
      then claim ''not-built'' (ob_config_path obs @ '' has never been built here'')
        [act E ''build'' ''kuma build'' ''build the system image from the declaration''] s
      else s)"

definition step_edited :: "env \<Rightarrow> observed \<Rightarrow> so_far \<Rightarrow> so_far" where
  "step_edited E obs s =
     (if is_loaded (ob_config obs) \<and> (case ob_image obs of Some i \<Rightarrow> im_edited_after i | None \<Rightarrow> False)
      then claim ''edited'' (ob_config_path obs @ '' changed after the last image build'')
        [act E ''build'' ''kuma build'' ''rebuild the image to pick up the edit''] s
      else s)"

definition step_stale_build :: "env \<Rightarrow> observed \<Rightarrow> so_far \<Rightarrow> so_far" where
  "step_stale_build E obs s =
     (case ob_image obs of
        Some i \<Rightarrow>
          if im_builder i \<noteq> Some (en_version E)
          then claim ''stale-build''
            (''the image was built by '' @
               (case im_builder i of Some other \<Rightarrow> ''kuma '' @ other | None \<Rightarrow> ''a kuma older than the label'') @
               '', not the one running'')
            [act E ''build'' ''kuma build'' ''rebuild with the kuma you are running''] s
          else s
      | None \<Rightarrow> s)"

definition step_ahead :: "env \<Rightarrow> observed \<Rightarrow> so_far \<Rightarrow> so_far" where
  "step_ahead E obs s =
     (case (ob_image obs, ob_machine obs) of
        (Some i, KumaMachine _ _ (Some deployed)) \<Rightarrow>
          if deployed \<noteq> im_id i
          then claim ''built-ahead'' ''the built image is newer than the deployment''
            [act E ''switch'' ''kuma switch'' ''stage the newer build (applies on reboot)''] s
          else s
      | _ \<Rightarrow> s)"

definition step_converging :: "env \<Rightarrow> observed \<Rightarrow> so_far \<Rightarrow> so_far" where
  "step_converging E obs s =
     (if ob_converging obs \<noteq> []
      then claim ''converging''
        (joined '' and '' (ob_converging obs) @
           '' convergence is running now; this is what the machine is doing, not drift'')
        [act E ''watch'' ''journalctl -fu kuma-flatpak-sync'' ''follow it (brew and user sync have their own units)''] s
      else s)"

definition step_drifted :: "env \<Rightarrow> observed \<Rightarrow> so_far \<Rightarrow> so_far" where
  "step_drifted E obs s =
     (case ob_machine obs of
        KumaMachine _ drift _ \<Rightarrow>
          if drift \<noteq> []
          then claim ''drifted'' (''machine drifted from its declaration: '' @ joined '', '' drift)
            ((if ob_converging obs = []
              then [act E ''sync'' ''kuma sync'' ''converge now (also runs at boot and daily)''] else []) @
             [act E ''diff'' ''kuma diff'' ''see the drift in detail'']) s
          else s
      | _ \<Rightarrow> s)"

definition step_built :: "env \<Rightarrow> observed \<Rightarrow> so_far \<Rightarrow> so_far" where
  "step_built E obs s =
     (if ob_image obs \<noteq> None \<and> snd s = [] then
        (case ob_machine obs of
           BootcForeign \<Rightarrow>
             claim ''built'' ''image built; this bootc machine could switch to it''
               [act E ''switch'' ''kuma switch'' ''adopt: point this machine at the kuma image (applies on reboot)'',
                act E ''vm'' ''kuma vm'' ''boot the image in a disposable VM instead''] s
         | NotBootc \<Rightarrow>
             claim ''built'' (''image built; this machine can'' @ [CHR 0x27] @ ''t run it directly'')
               [act E ''vm'' ''kuma vm'' ''boot the image in a QEMU VM'',
                act E ''iso'' ''kuma iso'' ''build an installer ISO for real hardware''] s
         | KumaMachine _ _ _ \<Rightarrow> s)
      else s)"

definition step_in_sync :: "env \<Rightarrow> observed \<Rightarrow> so_far \<Rightarrow> so_far" where
  "step_in_sync E obs s =
     (if (case ob_machine obs of KumaMachine _ _ _ \<Rightarrow> True | _ \<Rightarrow> False) \<and> snd s = []
      then claim ''in-sync'' ''machine matches its declaration; nothing pending''
        [act E ''update'' ''kuma update'' ''pull the latest base image and rebuild'',
         act E ''doctor'' ''kuma doctor'' ''deeper machine health checks''] s
      else s)"

definition step_config :: "env \<Rightarrow> observed \<Rightarrow> so_far \<Rightarrow> so_far" where
  "step_config E obs s =
     (case ob_config obs of
        ConfigMissing \<Rightarrow>
          claim ''no-config'' (''no '' @ ob_config_path obs @ '' here; nothing declared yet'')
            [act E ''init'' ''kuma init'' ''start a system definition in this directory''] s
      | ConfigBaked _ _ _ \<Rightarrow>
          (fst s, snd s @ [act E ''init'' ''kuma init'' (''copy this machine'' @ [CHR 0x27] @ ''s baked declaration here to edit it'')])
      | _ \<Rightarrow> s)"

definition classify :: "env \<Rightarrow> observed \<Rightarrow> snapshot_map" where
  "classify E obs =
     (if ob_live obs then
        \<lparr>sm_state = ''live'', sm_headline = ''running from installer media; nothing here persists'',
         sm_facts = live_facts obs,
         sm_actions = [act E ''install'' ''kuma install''
           ''write this system to a disk (it asks which, and shows the plan first)'']\<rparr>
      else
        (let s = (None, []);
             s = step_invalid E obs s; s = step_staged E obs s; s = step_not_built E obs s; s = step_edited E obs s;
             s = step_stale_build E obs s; s = step_ahead E obs s; s = step_converging E obs s;
             s = step_drifted E obs s; s = step_built E obs s; s = step_in_sync E obs s; s = step_config E obs s
         in case (case fst s of Some x \<Rightarrow> x | None \<Rightarrow> (''in-sync'', ''nothing pending'')) of (st, headline) \<Rightarrow>
              \<lparr>sm_state = st, sm_headline = headline, sm_facts = facts_of E obs, sm_actions = snd s\<rparr>))"


section \<open>The state is the first that holds\<close>

text \<open>The conditions in their order, each with the state it names.\<close>

definition conditions :: "env \<Rightarrow> observed \<Rightarrow> (bool \<times> string) list" where
  "conditions E obs =
     [((case ob_config obs of ConfigInvalid _ \<Rightarrow> True | _ \<Rightarrow> False), ''config-invalid''),
      ((case ob_machine obs of KumaMachine staged _ _ \<Rightarrow> staged | _ \<Rightarrow> False), ''staged''),
      (is_loaded (ob_config obs) \<and> ob_image obs = None, ''not-built''),
      (is_loaded (ob_config obs) \<and> (case ob_image obs of Some i \<Rightarrow> im_edited_after i | None \<Rightarrow> False), ''edited''),
      ((case ob_image obs of Some i \<Rightarrow> im_builder i \<noteq> Some (en_version E) | None \<Rightarrow> False), ''stale-build''),
      ((case (ob_image obs, ob_machine obs) of (Some i, KumaMachine _ _ (Some d)) \<Rightarrow> d \<noteq> im_id i | _ \<Rightarrow> False), ''built-ahead''),
      (ob_converging obs \<noteq> [], ''converging''),
      ((case ob_machine obs of KumaMachine _ drift _ \<Rightarrow> drift \<noteq> [] | _ \<Rightarrow> False), ''drifted'')]"

definition last_conditions :: "observed \<Rightarrow> (bool \<times> string) list" where
  "last_conditions obs =
     [(ob_image obs \<noteq> None \<and> (ob_machine obs = BootcForeign \<or> ob_machine obs = NotBootc), ''built''),
      ((case ob_machine obs of KumaMachine _ _ _ \<Rightarrow> True | _ \<Rightarrow> False), ''in-sync''),
      (ob_config obs = ConfigMissing, ''no-config'')]"

text \<open>What each condition contributes.\<close>

type_synonym contribution = "bool \<times> string \<times> string \<times> action list"

definition contribute :: "so_far \<Rightarrow> contribution \<Rightarrow> so_far" where
  "contribute s = (\<lambda>(c, n, h, acts). if c then claim n h acts s else s)"

lemma contribute_simp: "contribute s (c, n, h, acts) = (if c then claim n h acts s else s)"
  by (simp add: contribute_def)

lemma foldl_contribute:
  "foldl contribute s L =
    (case fst s of Some x \<Rightarrow> Some x | None \<Rightarrow> map_option (\<lambda>(c, n, h, acts). (n, h)) (find fst L),
     snd s @ concat (map (\<lambda>(c, n, h, acts). if c then acts else []) L))"
proof (induction L arbitrary: s)
  case (Cons p L)
  obtain c n h acts where p: "p = (c, n, h, acts)" by (cases p)
  show ?case by (cases c; cases "fst s") (simp_all add: Cons.IH p claim_def contribute_simp)
next
  case Nil
  show ?case by (cases s) (simp split: option.split)
qed

definition early_steps :: "env \<Rightarrow> observed \<Rightarrow> so_far" where
  "early_steps E obs =
     step_drifted E obs (step_converging E obs (step_ahead E obs (step_stale_build E obs (step_edited E obs
       (step_not_built E obs (step_staged E obs (step_invalid E obs (None, []))))))))"

lemma step_contributes:
  "\<exists>h a. a \<noteq> [] \<and> (\<forall>s. step_invalid E obs s = contribute s (fst (conditions E obs ! 0), ''config-invalid'', h, a))"
  "\<exists>h a. a \<noteq> [] \<and> (\<forall>s. step_staged E obs s = contribute s (fst (conditions E obs ! 1), ''staged'', h, a))"
  "\<exists>h a. a \<noteq> [] \<and> (\<forall>s. step_not_built E obs s = contribute s (fst (conditions E obs ! 2), ''not-built'', h, a))"
  "\<exists>h a. a \<noteq> [] \<and> (\<forall>s. step_edited E obs s = contribute s (fst (conditions E obs ! 3), ''edited'', h, a))"
  "\<exists>h a. a \<noteq> [] \<and> (\<forall>s. step_stale_build E obs s = contribute s (fst (conditions E obs ! 4), ''stale-build'', h, a))"
  "\<exists>h a. a \<noteq> [] \<and> (\<forall>s. step_ahead E obs s = contribute s (fst (conditions E obs ! 5), ''built-ahead'', h, a))"
  "\<exists>h a. a \<noteq> [] \<and> (\<forall>s. step_converging E obs s = contribute s (fst (conditions E obs ! 6), ''converging'', h, a))"
  "\<exists>h a. a \<noteq> [] \<and> (\<forall>s. step_drifted E obs s = contribute s (fst (conditions E obs ! 7), ''drifted'', h, a))"
  unfolding conditions_def contribute_simp
  subgoal by (cases "ob_config obs") (auto simp: step_invalid_def)
  subgoal by (cases "ob_machine obs") (auto simp: step_staged_def split: bool.split)
  subgoal by (auto simp: step_not_built_def)
  subgoal by (auto simp: step_edited_def)
  subgoal by (cases "ob_image obs") (auto simp: step_stale_build_def)
  subgoal by (cases "ob_image obs"; cases "ob_machine obs") (auto simp: step_ahead_def split: option.split)
  subgoal by (auto simp: step_converging_def)
  subgoal by (cases "ob_machine obs") (auto simp: step_drifted_def)
  done

lemma find_names:
  "length ns = length cs \<Longrightarrow> map_option fst (map_option (\<lambda>(c, n, h, acts). (n, h))
     (find fst (map (\<lambda>((c, n), h, acts). (c, n, h, acts)) (zip cs ns)))) = map_option snd (find fst cs)"
  by (induction cs ns rule: list_induct2') auto

lemma concat_acts:
  "length ns = length cs \<Longrightarrow> list_all (\<lambda>(h, acts). acts \<noteq> []) ns \<Longrightarrow>
   concat (map (\<lambda>(c, n, h, acts). if c then acts else []) (map (\<lambda>((c, n), h, acts). (c, n, h, acts)) (zip cs ns))) = [] \<longleftrightarrow>
   find fst cs = None"
  by (induction cs ns rule: list_induct2') auto

lemma early_steps_eq:
  "map_option fst (fst (early_steps E obs)) = map_option snd (find fst (conditions E obs)) \<and>
   (snd (early_steps E obs) = [] \<longleftrightarrow> find fst (conditions E obs) = None)"
proof -
  obtain h0 a0 where s0: "a0 \<noteq> []" "\<forall>s. step_invalid E obs s = contribute s (fst (conditions E obs ! 0), ''config-invalid'', h0, a0)"
    using step_contributes(1) [of E obs] by blast
  obtain h1 a1 where s1: "a1 \<noteq> []" "\<forall>s. step_staged E obs s = contribute s (fst (conditions E obs ! 1), ''staged'', h1, a1)"
    using step_contributes(2) [of E obs] by blast
  obtain h2 a2 where s2: "a2 \<noteq> []" "\<forall>s. step_not_built E obs s = contribute s (fst (conditions E obs ! 2), ''not-built'', h2, a2)"
    using step_contributes(3) [of E obs] by blast
  obtain h3 a3 where s3: "a3 \<noteq> []" "\<forall>s. step_edited E obs s = contribute s (fst (conditions E obs ! 3), ''edited'', h3, a3)"
    using step_contributes(4) [of E obs] by blast
  obtain h4 a4 where s4: "a4 \<noteq> []" "\<forall>s. step_stale_build E obs s = contribute s (fst (conditions E obs ! 4), ''stale-build'', h4, a4)"
    using step_contributes(5) [of E obs] by blast
  obtain h5 a5 where s5: "a5 \<noteq> []" "\<forall>s. step_ahead E obs s = contribute s (fst (conditions E obs ! 5), ''built-ahead'', h5, a5)"
    using step_contributes(6) [of E obs] by blast
  obtain h6 a6 where s6: "a6 \<noteq> []" "\<forall>s. step_converging E obs s = contribute s (fst (conditions E obs ! 6), ''converging'', h6, a6)"
    using step_contributes(7) [of E obs] by blast
  obtain h7 a7 where s7: "a7 \<noteq> []" "\<forall>s. step_drifted E obs s = contribute s (fst (conditions E obs ! 7), ''drifted'', h7, a7)"
    using step_contributes(8) [of E obs] by blast
  let ?ns = "[(h0, a0), (h1, a1), (h2, a2), (h3, a3), (h4, a4), (h5, a5), (h6, a6), (h7, a7)]"
  have n: "length ?ns = length (conditions E obs)" by (simp add: conditions_def)
  have e0: "\<And>s. step_invalid E obs s = contribute s (fst (conditions E obs ! 0), ''config-invalid'', h0, a0)" using s0(2) by blast
  have e1: "\<And>s. step_staged E obs s = contribute s (fst (conditions E obs ! 1), ''staged'', h1, a1)" using s1(2) by blast
  have e2: "\<And>s. step_not_built E obs s = contribute s (fst (conditions E obs ! 2), ''not-built'', h2, a2)" using s2(2) by blast
  have e3: "\<And>s. step_edited E obs s = contribute s (fst (conditions E obs ! 3), ''edited'', h3, a3)" using s3(2) by blast
  have e4: "\<And>s. step_stale_build E obs s = contribute s (fst (conditions E obs ! 4), ''stale-build'', h4, a4)" using s4(2) by blast
  have e5: "\<And>s. step_ahead E obs s = contribute s (fst (conditions E obs ! 5), ''built-ahead'', h5, a5)" using s5(2) by blast
  have e6: "\<And>s. step_converging E obs s = contribute s (fst (conditions E obs ! 6), ''converging'', h6, a6)" using s6(2) by blast
  have e7: "\<And>s. step_drifted E obs s = contribute s (fst (conditions E obs ! 7), ''drifted'', h7, a7)" using s7(2) by blast
  have "early_steps E obs = foldl contribute (None, []) (map (\<lambda>((c, n), h, acts). (c, n, h, acts)) (zip (conditions E obs) ?ns))"
    unfolding early_steps_def e0 e1 e2 e3 e4 e5 e6 e7 by (simp add: conditions_def)
  then show ?thesis
    using find_names [OF n] concat_acts [OF n] s0(1) s1(1) s2(1) s3(1) s4(1) s5(1) s6(1) s7(1) by (simp add: foldl_contribute)
qed

lemma classify_early:
  "classify E obs =
     (if ob_live obs then
        \<lparr>sm_state = ''live'', sm_headline = ''running from installer media; nothing here persists'',
         sm_facts = live_facts obs,
         sm_actions = [act E ''install'' ''kuma install''
           ''write this system to a disk (it asks which, and shows the plan first)'']\<rparr>
      else
        (let s = step_config E obs (step_in_sync E obs (step_built E obs (early_steps E obs)))
         in case (case fst s of Some x \<Rightarrow> x | None \<Rightarrow> (''in-sync'', ''nothing pending'')) of (st, headline) \<Rightarrow>
              \<lparr>sm_state = st, sm_headline = headline, sm_facts = facts_of E obs, sm_actions = snd s\<rparr>))"
  by (simp add: classify_def early_steps_def Let_def)

lemma find_after:
  "find P (xs @ ys) = (case find P xs of Some x \<Rightarrow> Some x | None \<Rightarrow> find P ys)"
  by (induction xs) auto

text \<open>
  C26. The state bare \<open>kuma\<close> names is that of the first condition that holds, in the order of the code's
  documentation: live media, an invalid declaration, a staged deployment, never built, edited since
  the build, built by another kuma, built ahead of the deployment, converging, drifted, built, in
  sync, nothing declared. Every observation gets exactly one.
\<close>

theorem state_by_priority:
  "sm_state (classify E obs) =
     (if ob_live obs then ''live''
      else case find fst (conditions E obs @ last_conditions obs) of Some (_, n) \<Rightarrow> n | None \<Rightarrow> ''in-sync'')"
proof (cases "ob_live obs")
  case False
  obtain r acts where e: "early_steps E obs = (r, acts)" by (cases "early_steps E obs")
  have h: "map_option fst r = map_option snd (find fst (conditions E obs))"
      "acts = [] \<longleftrightarrow> find fst (conditions E obs) = None"
    using early_steps_eq [of E obs] by (simp_all add: e)
  have app: "find fst (conditions E obs @ last_conditions obs) =
      (case find fst (conditions E obs) of Some x \<Rightarrow> Some x | None \<Rightarrow> find fst (last_conditions obs))"
    by (rule find_after)
  show ?thesis
  proof (cases "find fst (conditions E obs)")
    case None
    then have "r = None" "acts = []" using h by simp_all
    then show ?thesis
      unfolding app using False None
      by (cases "ob_machine obs"; cases "ob_config obs")
        (auto simp: classify_early e Let_def last_conditions_def step_built_def step_in_sync_def step_config_def
          claim_def split: option.split)
  next
    case (Some x)
    then obtain hl where "r = Some (snd x, hl)" "acts \<noteq> []" using h by (cases r) auto
    then show ?thesis
      unfolding app using False Some
      by (cases x; cases "ob_machine obs"; cases "ob_config obs")
        (auto simp: classify_early e Let_def step_built_def step_in_sync_def step_config_def
          claim_def split: option.split)
  qed
qed (simp add: classify_def)

text \<open>The state has a command that leads out of it, and the converging machine is not told to converge.\<close>

lemma claim_keeps: "set (snd s) \<subseteq> set (snd (claim n h acts s))" "acts \<noteq> [] \<Longrightarrow> snd (claim n h acts s) \<noteq> []"
  by (auto simp: claim_def)

lemma late_commands:
  "ob_live obs \<or> snd (step_config E obs (step_in_sync E obs (step_built E obs s))) \<noteq> [] \<or>
   (snd s = [] \<and> ob_image obs = None \<and> (\<exists>b r f. ob_config obs = ConfigLoaded b r f) \<and> \<not> (\<exists>st dr dp. ob_machine obs = KumaMachine st dr dp)) \<or>
   (snd s = [] \<and> ob_image obs = None \<and> (\<exists>e. ob_config obs = ConfigInvalid e) \<and> \<not> (\<exists>st dr dp. ob_machine obs = KumaMachine st dr dp))"
  by (cases "ob_machine obs"; cases "ob_config obs"; cases "snd s = []")
    (auto simp: step_built_def step_in_sync_def step_config_def claim_def)

text \<open>
  Whatever was observed, bare \<open>kuma\<close> offers at least one command that leads on from the state it
  names.
\<close>

theorem always_a_way_out: "sm_actions (classify E obs) \<noteq> []"
proof (cases "ob_live obs")
  case False
  have sm: "sm_actions (classify E obs) = snd (step_config E obs (step_in_sync E obs (step_built E obs (early_steps E obs))))"
    using False by (simp add: classify_early Let_def split: option.split prod.split)
  show ?thesis
  proof
    assume "sm_actions (classify E obs) = []"
    then have n: "snd (early_steps E obs) = []" "ob_image obs = None"
        "(\<exists>b r f. ob_config obs = ConfigLoaded b r f) \<or> (\<exists>e. ob_config obs = ConfigInvalid e)"
      using late_commands [of obs E "early_steps E obs"] False unfolding sm by auto
    from n(1) have "find fst (conditions E obs) = None" using early_steps_eq [of E obs] by simp
    then show False using n(2,3) by (auto simp: conditions_def is_loaded_def split: if_splits)
  qed
qed (simp add: classify_def)

lemma ac_rel_act [simp]: "ac_rel (act E r c w) = r"
  by (simp add: act_def new_action_def)

definition rels :: "so_far \<Rightarrow> string set" where "rels s = ac_rel ` set (snd s)"

lemma rels_claim: "rels (claim n h acts s) = rels s \<union> ac_rel ` set acts"
  by (auto simp: rels_def claim_def)

lemma rels_steps:
  "rels (step_invalid E obs s) \<subseteq> rels s \<union> {''edit''}"
  "rels (step_staged E obs s) \<subseteq> rels s \<union> {''reboot''}"
  "rels (step_not_built E obs s) \<subseteq> rels s \<union> {''build''}"
  "rels (step_edited E obs s) \<subseteq> rels s \<union> {''build''}"
  "rels (step_stale_build E obs s) \<subseteq> rels s \<union> {''build''}"
  "rels (step_ahead E obs s) \<subseteq> rels s \<union> {''switch''}"
  "rels (step_converging E obs s) \<subseteq> rels s \<union> {''watch''}"
  "ob_converging obs \<noteq> [] \<Longrightarrow> rels (step_drifted E obs s) \<subseteq> rels s \<union> {''diff''}"
  "rels (step_built E obs s) \<subseteq> rels s \<union> {''switch'', ''vm'', ''iso''}"
  "rels (step_in_sync E obs s) \<subseteq> rels s \<union> {''update'', ''doctor''}"
  "rels (step_config E obs s) \<subseteq> rels s \<union> {''init''}"
  subgoal by (cases "ob_config obs") (auto simp: step_invalid_def rels_claim)
  subgoal by (cases "ob_machine obs") (auto simp: step_staged_def rels_claim reboot_action_def split: bool.split)
  subgoal by (auto simp: step_not_built_def rels_claim)
  subgoal by (auto simp: step_edited_def rels_claim)
  subgoal by (cases "ob_image obs") (auto simp: step_stale_build_def rels_claim)
  subgoal by (cases "ob_image obs"; cases "ob_machine obs") (auto simp: step_ahead_def rels_claim split: option.split)
  subgoal by (auto simp: step_converging_def rels_claim)
  subgoal by (cases "ob_machine obs") (auto simp: step_drifted_def rels_claim)
  subgoal by (cases "ob_machine obs") (auto simp: step_built_def rels_claim)
  subgoal by (cases "ob_machine obs") (auto simp: step_in_sync_def rels_claim)
  subgoal by (cases "ob_config obs") (auto simp: step_config_def rels_def claim_def)
  done

lemma no_sync_steps:
  assumes "''sync'' \<notin> rels s"
  shows "''sync'' \<notin> rels (step_invalid E obs s)"
    and "''sync'' \<notin> rels (step_staged E obs s)"
    and "''sync'' \<notin> rels (step_not_built E obs s)"
    and "''sync'' \<notin> rels (step_edited E obs s)"
    and "''sync'' \<notin> rels (step_stale_build E obs s)"
    and "''sync'' \<notin> rels (step_ahead E obs s)"
    and "''sync'' \<notin> rels (step_converging E obs s)"
    and "ob_converging obs \<noteq> [] \<Longrightarrow> ''sync'' \<notin> rels (step_drifted E obs s)"
    and "''sync'' \<notin> rels (step_built E obs s)"
    and "''sync'' \<notin> rels (step_in_sync E obs s)"
    and "''sync'' \<notin> rels (step_config E obs s)"
  subgoal using assms rels_steps(1) [of E obs s] by auto
  subgoal using assms rels_steps(2) [of E obs s] by auto
  subgoal using assms rels_steps(3) [of E obs s] by auto
  subgoal using assms rels_steps(4) [of E obs s] by auto
  subgoal using assms rels_steps(5) [of E obs s] by auto
  subgoal using assms rels_steps(6) [of E obs s] by auto
  subgoal using assms rels_steps(7) [of E obs s] by auto
  subgoal using assms rels_steps(8) [of obs E s] by auto
  subgoal using assms rels_steps(9) [of E obs s] by auto
  subgoal using assms rels_steps(10) [of E obs s] by auto
  subgoal using assms rels_steps(11) [of E obs s] by auto
  done

lemma running_sync_is_not_offered:
  assumes "ob_converging obs \<noteq> []" "a \<in> set (sm_actions (classify E obs))"
  shows "ac_rel a \<noteq> ''sync''"
proof (cases "ob_live obs")
  case True
  then show ?thesis using assms by (auto simp: classify_def)
next
  case False
  have "''sync'' \<notin> rels (None, [])" by (simp add: rels_def)
  then have r: "''sync'' \<notin> rels (step_config E obs (step_in_sync E obs (step_built E obs (early_steps E obs))))"
    unfolding early_steps_def by (intro no_sync_steps assms(1))
  have "ac_rel a \<in> rels (step_config E obs (step_in_sync E obs (step_built E obs (early_steps E obs))))"
    using assms(2) False unfolding rels_def
    by (simp add: classify_early Let_def split: option.split_asm prod.split_asm)
  then show ?thesis using r by metis
qed

section \<open>A quoted word is one word\<close>

text \<open>
  How a POSIX shell reads a word: inside single quotes every byte stands for itself, outside a
  backslash keeps the next one, and the bytes below mean something to the shell.
\<close>

definition means_something :: "char \<Rightarrow> bool" where
  "means_something c \<longleftrightarrow> c \<in> set ''|&;<>()$`*?[#~%!{} '' \<or> c \<in> {CHR 0x22, CHR 0x09, CHR 0x0A}"

fun sh_word :: "bool \<Rightarrow> string \<Rightarrow> string option" where
  "sh_word q [] = (if q then None else Some [])"
| "sh_word q (c # s) =
     (if c = CHR 0x27 then sh_word (\<not> q) s
      else if \<not> q \<and> c = CHR 0x5C then (case s of [] \<Rightarrow> None | d # s' \<Rightarrow> map_option (Cons d) (sh_word False s'))
      else if \<not> q \<and> means_something c then None
      else map_option (Cons c) (sh_word q s))"

lemma sh_word_quoted: "sh_word True (concat (map quote_char t) @ [CHR 0x27]) = Some t"
  by (induction t) (auto simp: quote_char_def)

lemma bare_char_plain: "bare_char c \<Longrightarrow> \<not> means_something c \<and> c \<noteq> CHR 0x27 \<and> c \<noteq> CHR 0x5C"
  by (auto simp: bare_char_def means_something_def ascii_alnum_def)

lemma sh_word_bare: "list_all bare_char t \<Longrightarrow> sh_word False t = Some t"
  by (induction t) (auto dest: bare_char_plain)

text \<open>
  C28. Whatever text kuma quotes for a shell, the shell reads back as exactly that text and as one
  word: no byte of it is taken for a separator, an expansion or the end of the quotes.
\<close>

theorem shell_quote_reads_back: "sh_word False (shell_quote t) = Some t \<and> shell_quote t \<noteq> []"
  using sh_word_quoted [of t] by (auto simp: shell_quote_def sh_word_bare)

end
