(* ===== verification/Installer.thy ===== *)
theory Installer
  imports StateMap Partition
begin

text \<open>
  The interview and the guards of an installation, \<open>src/install.rs\<close>, and the credential file it shares
  with \<open>src/backup.rs\<close>. What a person types is a list of lines that may end; whether there is a terminal
  to ask at, the mount tables, what \<open>lsblk\<close> answers and the hash of a password are parameters.
\<close>

section \<open>Answers\<close>

datatype install_error =
    NoDiskNamed | NoDisksFound | EveryDiskInUse | NoAnswer | NothingChanged
  | BadSwapSize size_error | SwapDoesNotFit objection | BadLayout layout_error
  | AnswersDiffer | EmptySecret | NoAccountName | BadInstallName string name_error | HashFailed

text \<open>\<open>yes\<close> or \<open>no\<close>, asked until one of them is typed; the end of the input is no.\<close>

fun yes_or_no :: "string list \<Rightarrow> bool \<times> string list" where
  "yes_or_no [] = (False, [])"
| "yes_or_no (l # ls) =
     (let a = to_ascii_lowercase (trim l)
      in if a \<in> set [''y'', ''yes''] then (True, ls)
         else if a \<in> set [[], ''n'', ''no''] then (False, ls)
         else yes_or_no ls)"

definition ask_encrypt :: "bool \<Rightarrow> bool \<Rightarrow> string list \<Rightarrow> bool \<times> string list" where
  "ask_encrypt flagged terminal typed =
     (if flagged then (True, typed) else if \<not> terminal then (False, typed) else yes_or_no typed)"

section \<open>Sizes\<close>

fun swap_size_loop :: "u64 option \<Rightarrow> u64 \<Rightarrow> string list \<Rightarrow> u64 option \<times> string list" where
  "swap_size_loop dflt spare [] = (dflt, [])"
| "swap_size_loop dflt spare (l # ls) =
     (let a = trim l
      in if a = [] \<and> dflt \<noteq> None then (dflt, ls)
         else if a = [] then swap_size_loop dflt spare ls
         else (case parse_size a of
                 Inl _ \<Rightarrow> swap_size_loop dflt spare ls
               | Inr None \<Rightarrow> (None, ls)
               | Inr (Some mib) \<Rightarrow>
                   if objections mib spare = [] then (Some mib, ls) else swap_size_loop dflt spare ls))"

definition ask_swap ::
    "string option \<Rightarrow> bool \<Rightarrow> u64 option \<Rightarrow> u64 \<Rightarrow> string list \<Rightarrow> (install_error + u64 option) \<times> string list" where
  "ask_swap flagged terminal default_mib spare typed =
     (case flagged of
        Some txt \<Rightarrow>
          ((case parse_size txt of
              Inl e \<Rightarrow> Inl (BadSwapSize e)
            | Inr None \<Rightarrow> Inr None
            | Inr (Some mib) \<Rightarrow>
                (case objections mib spare of why # _ \<Rightarrow> Inl (SwapDoesNotFit why) | [] \<Rightarrow> Inr (Some mib))), typed)
      | None \<Rightarrow>
          if \<not> terminal then (Inr None, typed)
          else
            (let dflt = (case default_mib of Some mib \<Rightarrow> if mib \<le> spare then Some mib else None | None \<Rightarrow> None)
             in case yes_or_no typed of
                  (False, ls) \<Rightarrow> (Inr None, ls)
                | (True, ls) \<Rightarrow> map_prod Inr id (swap_size_loop dflt spare ls)))"

fun size_loop :: "which_size \<Rightarrow> u64 \<Rightarrow> string list \<Rightarrow> u64 \<times> string list" where
  "size_loop what dflt [] = (dflt, [])"
| "size_loop what dflt (l # ls) =
     (let a = trim l
      in if a = [] then (dflt, ls)
         else (case resolve_size a what of Inr mib \<Rightarrow> (mib, ls) | Inl _ \<Rightarrow> size_loop what dflt ls))"

definition ask_size ::
    "string option \<Rightarrow> which_size \<Rightarrow> u64 \<Rightarrow> bool \<Rightarrow> string list \<Rightarrow> (install_error + u64) \<times> string list" where
  "ask_size given what dflt terminal typed =
     (case given of
        Some txt \<Rightarrow> (map_sum BadLayout id (resolve_size txt what), typed)
      | None \<Rightarrow> if \<not> terminal then (Inr dflt, typed) else map_prod Inr id (size_loop what dflt typed))"

definition ask_sizes ::
    "string option \<Rightarrow> string option \<Rightarrow> bool \<Rightarrow> string list \<Rightarrow> (install_error + sizes) \<times> string list" where
  "ask_sizes esp boot terminal typed =
     (case ask_size esp WhichEsp (sz_esp_mib default_sizes) terminal typed of
        (Inl e, ls) \<Rightarrow> (Inl e, ls)
      | (Inr em, ls) \<Rightarrow>
          (case ask_size boot WhichBoot (sz_boot_mib default_sizes) terminal ls of
             (Inl e, ls) \<Rightarrow> (Inl e, ls)
           | (Inr bm, ls) \<Rightarrow> (Inr \<lparr>sz_esp_mib = em, sz_boot_mib = bm\<rparr>, ls)))"

section \<open>Passphrase, host name and account\<close>

text \<open>
  A secret is prompted for twice at a terminal (the two answers are the parameter \<open>prompts\<close>) and is one
  line of the input elsewhere, without its line end.
\<close>

definition drop_line_end :: "string \<Rightarrow> string" where
  "drop_line_end s = rev (dropWhile (\<lambda>c. c = cr \<or> c = nl) (rev s))"

definition read_secret :: "bool \<Rightarrow> string \<times> string \<Rightarrow> string list \<Rightarrow> (install_error + string) \<times> string list" where
  "read_secret terminal prompts typed =
     (if terminal then (if fst prompts \<noteq> snd prompts then Inl AnswersDiffer
                        else if fst prompts = [] then Inl EmptySecret else Inr (fst prompts), typed)
      else
        (case typed of [] \<Rightarrow> (Inl EmptySecret, [])
         | l # ls \<Rightarrow> (if drop_line_end l = [] then Inl EmptySecret else Inr (drop_line_end l), ls)))"

definition ask_passphrase :: "bool \<Rightarrow> string \<times> string \<Rightarrow> string list \<Rightarrow> (install_error + string) \<times> string list" where
  "ask_passphrase terminal prompts typed = read_secret terminal prompts typed"

definition default_hostname :: string where "default_hostname = ''kumaos''"

definition checked_name :: "string \<Rightarrow> string \<Rightarrow> string \<Rightarrow> install_error + string" where
  "checked_name name what extra = (case validate_name name extra of Inl e \<Rightarrow> Inl (BadInstallName what e) | Inr _ \<Rightarrow> Inr name)"

definition ask_hostname :: "string option \<Rightarrow> bool \<Rightarrow> string list \<Rightarrow> (install_error + string) \<times> string list" where
  "ask_hostname given terminal typed =
     (case given of
        Some name \<Rightarrow> (checked_name name ''hostname'' ''.-'', typed)
      | None \<Rightarrow>
          if \<not> terminal then (Inr default_hostname, typed)
          else
            (let (line, ls) = (case typed of [] \<Rightarrow> ([], []) | l # ls \<Rightarrow> (l, ls));
                 name = trim line
             in (if name = [] then Inr default_hostname else checked_name name ''hostname'' ''.-'', ls)))"

record account =
  ac_name :: string
  ac_password_hash :: string
  ac_groups :: "string list"
  ac_shell :: "string option"

fun first_bad_name :: "string \<Rightarrow> string list \<Rightarrow> install_error option" where
  "first_bad_name what [] = None"
| "first_bad_name what (n # ns) =
     (case checked_name n what ''.-_'' of Inl e \<Rightarrow> Some e | Inr _ \<Rightarrow> first_bad_name what ns)"

definition ask_account ::
    "(string \<Rightarrow> string option) \<Rightarrow> string option \<Rightarrow> string list \<Rightarrow> string option \<Rightarrow> bool \<Rightarrow> string \<times> string \<Rightarrow> string list \<Rightarrow>
     install_error + account" where
  "ask_account hash name groups shell terminal prompts typed =
     (case (case name of
              Some n \<Rightarrow> Some (n, typed)
            | None \<Rightarrow>
                if terminal then Some (case typed of [] \<Rightarrow> ([], []) | l # ls \<Rightarrow> (trim l, ls)) else None) of
        None \<Rightarrow> Inl NoAccountName
      | Some (n, ls) \<Rightarrow>
          (case checked_name n ''user.name'' ''.-_'' of
             Inl e \<Rightarrow> Inl e
           | Inr _ \<Rightarrow>
               (case first_bad_name ''user.groups'' groups of
                  Some e \<Rightarrow> Inl e
                | None \<Rightarrow>
                    (case fst (read_secret terminal prompts ls) of
                       Inl e \<Rightarrow> Inl e
                     | Inr password \<Rightarrow>
                         (case (case shell of Some s \<Rightarrow> first_bad_name ''user.shell'' [s] | None \<Rightarrow> None) of
                            Some e \<Rightarrow> Inl e
                          | None \<Rightarrow>
                              (case hash password of
                                 None \<Rightarrow> Inl HashFailed
                               | Some h \<Rightarrow> Inr \<lparr>ac_name = n, ac_password_hash = h, ac_groups = groups, ac_shell = shell\<rparr>))))))"

text \<open>The file the converger sources at the first boot.\<close>

definition user_file :: "account \<Rightarrow> string option \<Rightarrow> string" where
  "user_file ac ssh_key =
     assignment ''KUMA_USER'' (ac_name ac) @
     (case ac_shell ac of Some s \<Rightarrow> assignment ''KUMA_SHELL'' (''/usr/bin/'' @ s) | None \<Rightarrow> []) @
     (if ac_groups ac \<noteq> [] then assignment ''KUMA_GROUPS'' (joined '' '' (ac_groups ac)) else []) @
     assignment ''KUMA_PASSWORD_HASH'' (ac_password_hash ac) @
     (case ssh_key of Some k \<Rightarrow> assignment ''KUMA_SSH_KEY'' (concat (map quote_char (trim k))) | None \<Rightarrow> [])"

text \<open>What a baked declaration says of another account: its name, and whether it logs itself in.\<close>

definition baked_user_warning :: "(string \<Rightarrow> config option) \<Rightarrow> string \<Rightarrow> string \<Rightarrow> (string \<times> bool) option" where
  "baked_user_warning load baked installing =
     (case load baked of
        None \<Rightarrow> None
      | Some c \<Rightarrow>
          (case cf_user c of
             None \<Rightarrow> None
           | Some u \<Rightarrow> if ud_name u = installing then None else Some (ud_name u, ud_autologin u)))"

record provenance =
  pv_kuma :: string
  pv_installed_at :: string
  pv_declaration :: "string option"
  pv_base :: "string option"
  pv_image :: string
  pv_image_digest :: "string option"
  pv_media :: string

definition json_or_null :: "string option \<Rightarrow> json" where
  "json_or_null s = (case s of Some t \<Rightarrow> JString t | None \<Rightarrow> JNull)"

definition provenance_json :: "provenance \<Rightarrow> json" where
  "provenance_json p =
     JObject [(''kuma'', JString (pv_kuma p)), (''installed_at'', JString (pv_installed_at p)),
       (''declaration'', json_or_null (pv_declaration p)), (''base'', json_or_null (pv_base p)),
       (''image'', JString (pv_image p)), (''image_digest'', json_or_null (pv_image_digest p)),
       (''media'', JString (pv_media p))]"

text \<open>
  The one layer over the image that carries the answers: its lines. The shell of the autologin line is
  spelled around the name it compares with.
\<close>

definition drop_foreign_autologin :: "string \<Rightarrow> string list" where
  "drop_foreign_autologin name =
     [''# A greeter cannot autologin an account this machine will not'',
      ''# have. Runs inside the build, so nothing has to read the image'',
      ''# from outside it.'',
      ''RUN for conf in /etc/greetd/config.toml /etc/greetd/cosmic-greeter.toml; do '' @ [bsl],
      ''    [ -f '' @ [dquo] @ ''$conf'' @ [dquo] @ '' ] || continue; '' @ [bsl],
      ''    grep -q '' @ [apos] @ ''^'' @ [bsl] @ ''[initial_session'' @ [bsl] @ '']'' @ [apos] @ '' '' @ [dquo] @ ''$conf'' @ [dquo] @
        '' || continue; '' @ [bsl],
      ''    [ '' @ [dquo] @ ''$(sed -n '' @ [apos] @ ''s/^user *= *'' @ [dquo, bsl] @ ''(.*'' @ [bsl] @ '')'' @ [dquo] @ ''/'' @ [bsl] @ ''1/p'' @
        [apos] @ '' '' @ [dquo] @ ''$conf'' @ [dquo] @ '' | tail -1)'' @ [dquo] @ '' = '' @ [apos] @ name @ [apos] @ '' ] '' @ [bsl],
      ''      || sed -i '' @ [apos] @ ''/^'' @ [bsl] @ ''[initial_session'' @ [bsl] @ '']/,$d'' @ [apos] @ '' '' @ [dquo] @ ''$conf'' @ [dquo] @
        ''; '' @ [bsl],
      ''done'']"

definition restore_layer :: "string list" where
  "restore_layer =
     [''COPY --chmod=600 kuma-restore-secret /var/lib/kuma/secrets/restore.env'',
      ''COPY kuma-restore-request /var/lib/kuma/restore-request'']"

definition install_containerfile :: "string \<Rightarrow> account \<Rightarrow> bool \<Rightarrow> string" where
  "install_containerfile source ac restore =
     unlines
       ([''# Generated by kuma for `kuma install`. One layer over the image'',
         ''# being installed, carrying what the target converges to.'',
         ''FROM '' @ source] @
        (case ac_shell ac of Some s \<Rightarrow> [''RUN test -x /usr/bin/'' @ s] | None \<Rightarrow> []) @
        [''COPY --chmod=600 kuma-user /var/lib/kuma/user'',
         ''COPY kuma-hostname /var/lib/kuma/hostname'',
         ''COPY kuma-install /var/lib/kuma/install.json''] @
        (if restore then restore_layer else []) @ drop_foreign_autologin (ac_name ac))"

section \<open>The credential file\<close>

text \<open>The keys of a credential file whose values its readers would not agree about.\<close>

definition hazard :: "char \<Rightarrow> bool" where
  "hazard c \<longleftrightarrow> c \<in> {CHR ''$'', CHR ''`'', CHR 0x22, CHR 0x27, CHR 0x5C}"

definition ambiguous_line :: "string \<Rightarrow> string option" where
  "ambiguous_line line =
     (let t = trim line
      in if t = [] \<or> starts_with ''#'' t then None
         else
           (case split_once ''='' t of
              None \<Rightarrow> None
            | Some (key, v) \<Rightarrow>
                if t \<noteq> line \<or> key \<noteq> trim key \<or> v \<noteq> trim v \<or> list_ex hazard v then Some (trim key) else None))"

definition ambiguous_values :: "string \<Rightarrow> string list" where
  "ambiguous_values text = List.map_filter ambiguous_line (split_char nl text)"

definition secret_path :: "backup_decl \<Rightarrow> string" where
  "secret_path b = ''/var/lib/kuma/secrets/'' @ bk_secret b @ ''.env''"

definition provision_command :: "string \<Rightarrow> string" where
  "provision_command secret =
     ''sudo install -d -m 0700 /var/lib/kuma/secrets && sudo install -m 0600 /dev/null '' @ secret"

datatype restore_fault = NoRepository | NoPassword | AmbiguousValues "string list"

definition restore_names :: "string \<Rightarrow> string list" where
  "restore_names text =
     List.map_filter (\<lambda>l. map_option (\<lambda>(k, _). trim k) (split_once ''='' l))
       (filter (\<lambda>l. l \<noteq> [] \<and> \<not> starts_with ''#'' l) (map trim (str_lines text)))"

definition restore_file_is_usable :: "string \<Rightarrow> restore_fault + unit" where
  "restore_file_is_usable text =
     (if ''RESTIC_REPOSITORY'' \<notin> set (restore_names text) then Inl NoRepository
      else if \<not> list_ex (starts_with ''RESTIC_PASSWORD'') (restore_names text) then Inl NoPassword
      else if ambiguous_values text \<noteq> [] then Inl (AmbiguousValues (ambiguous_values text))
      else Inr ())"

section \<open>The disk\<close>

datatype disk_objection = NotADevicePath string | InUseAt string string | MountedAt string string string

text \<open>Each mount point is named once, by whoever names it first.\<close>

fun newly :: "string list \<Rightarrow> (string \<times> 'b) list \<Rightarrow> 'b list" where
  "newly seen [] = []"
| "newly seen ((k, x) # r) = (if k \<in> set seen then newly seen r else x # newly (k # seen) r)"

definition on_disk :: "string \<Rightarrow> string \<Rightarrow> bool" where
  "on_disk disk source \<longleftrightarrow>
     source = disk \<or>
     (case strip_prefix disk source of
        None \<Rightarrow> False
      | Some rest \<Rightarrow>
          (let r = (case strip_prefix ''p'' rest of Some r \<Rightarrow> r | None \<Rightarrow> rest) in r \<noteq> [] \<and> list_all is_digit r))"

definition mount_row :: "string \<Rightarrow> (string \<times> string) option" where
  "mount_row line = (case split_ws line of source # target # _ \<Rightarrow> Some (source, target) | _ \<Rightarrow> None)"

definition disk_objections :: "string \<Rightarrow> string \<Rightarrow> string \<Rightarrow> bool \<Rightarrow> disk_objection list" where
  "disk_objections disk proc_mounts lsblk_mountpoints to_file =
     (if \<not> to_file \<and> \<not> starts_with ''/dev/'' disk then [NotADevicePath disk] else []) @
     newly []
       (map (\<lambda>m. (m, InUseAt disk m)) (filter (\<lambda>l. l \<noteq> []) (map trim (str_lines lsblk_mountpoints))) @
        map (\<lambda>(s, t). (t, MountedAt s disk t))
          (filter (\<lambda>(s, t). on_disk disk s) (List.map_filter mount_row (str_lines proc_mounts))))"

definition membership_objections :: "string \<Rightarrow> string list" where
  "membership_objections fstypes =
     filter (\<lambda>t. t \<in> set [''LVM2_member'', ''linux_raid_member'']) (map trim (str_lines fstypes))"

text \<open>The list a person chooses from. A device is what \<open>lsblk\<close> says of it and of everything inside it.\<close>

record disk =
  dk_path :: string
  dk_size :: string
  dk_model :: string
  dk_mounts :: "string list"

definition mounted_at :: "json \<Rightarrow> string list" where
  "mounted_at node =
     (case Option.bind (jget node ''mountpoints'') as_array of
        None \<Rightarrow> []
      | Some ps \<Rightarrow> filter (\<lambda>p. p \<noteq> []) (List.map_filter as_str ps))"

definition children_of :: "json \<Rightarrow> json list" where
  "children_of node = (case Option.bind (jget node ''children'') as_array of None \<Rightarrow> [] | Some cs \<Rightarrow> cs)"

lemma jget_size: "jget j k = Some v \<Longrightarrow> size v < size j"
proof (cases j)
  case (JObject fs)
  moreover have "map_of fs k = Some v \<Longrightarrow> size v < Suc (size_list (size_prod (\<lambda>_. 0) size) fs)" for fs :: "(string \<times> json) list"
    by (induction fs) (auto split: if_splits)
  ultimately show "jget j k = Some v \<Longrightarrow> ?thesis" by auto
qed auto

lemma children_smaller: "c \<in> set (children_of node) \<Longrightarrow> size c < size node"
proof -
  assume c: "c \<in> set (children_of node)"
  then obtain v cs where v: "jget node ''children'' = Some v" "as_array v = Some cs" "c \<in> set cs"
    by (cases "Option.bind (jget node ''children'') as_array") (auto simp: children_of_def bind_eq_Some_conv)
  then have "v = JArray cs" by (cases v) auto
  moreover have "c \<in> set cs \<Longrightarrow> size c \<le> size_list size cs" using size_list_estimation' [of c cs "size c" size] by simp
  ultimately show ?thesis using jget_size [OF v(1)] v(3) by simp
qed

function mounts_of :: "json \<Rightarrow> string list" where
  "mounts_of node = mounted_at node @ concat (map mounts_of (children_of node))"
  by auto

termination
  by (relation "measure size") (auto dest: children_smaller)

declare mounts_of.simps [simp del]

definition disk_of :: "json \<Rightarrow> disk option" where
  "disk_of dev =
     (if Option.bind (jget dev ''type'') as_str \<noteq> Some ''disk'' then None
      else
        (let name = (case Option.bind (jget dev ''name'') as_str of Some n \<Rightarrow> n | None \<Rightarrow> [])
         in if name = [] \<or> starts_with ''zram'' name \<or> starts_with ''loop'' name then None
            else Some \<lparr>dk_path = ''/dev/'' @ name,
              dk_size = (case Option.bind (jget dev ''size'') as_str of Some s \<Rightarrow> s | None \<Rightarrow> ''?''),
              dk_model = trim (case Option.bind (jget dev ''model'') as_str of Some m \<Rightarrow> m | None \<Rightarrow> []),
              dk_mounts = mounts_of dev\<rparr>))"

definition devices_of :: "json \<Rightarrow> json list" where
  "devices_of root = (case Option.bind (jget root ''blockdevices'') as_array of None \<Rightarrow> [] | Some ds \<Rightarrow> ds)"

definition disks_from_lsblk :: "(string \<Rightarrow> json option) \<Rightarrow> string \<Rightarrow> disk list option" where
  "disks_from_lsblk parse text = map_option (\<lambda>root. List.map_filter disk_of (devices_of root)) (parse text)"

fun choose_loop :: "disk list \<Rightarrow> string list \<Rightarrow> install_error + disk" where
  "choose_loop disks [] = Inl NoAnswer"
| "choose_loop disks (l # ls) =
     (let a = trim l
      in if to_ascii_lowercase a = ''q'' then Inl NothingChanged
         else
           (case parse_u64 a of
              None \<Rightarrow> choose_loop disks ls
            | Some n \<Rightarrow>
                if 1 \<le> unat n \<and> unat n \<le> length disks \<and> dk_mounts (disks ! (unat n - 1)) = []
                then Inr (disks ! (unat n - 1))
                else choose_loop disks ls))"

definition choose_disk :: "bool \<Rightarrow> disk list \<Rightarrow> string list \<Rightarrow> install_error + disk" where
  "choose_disk terminal disks typed =
     (if \<not> terminal then Inl NoDiskNamed
      else if disks = [] then Inl NoDisksFound
      else if filter (\<lambda>d. dk_mounts d = []) disks = [] then Inl EveryDiskInUse
      else choose_loop disks typed)"

text \<open>The entries of the firmware that were not there before.\<close>

definition hex_digit_char :: "char \<Rightarrow> bool" where
  "hex_digit_char c \<longleftrightarrow> hex_val c \<noteq> None"

definition entry_number :: "string \<Rightarrow> string option" where
  "entry_number line =
     (case strip_prefix ''Boot'' line of
        None \<Rightarrow> None
      | Some rest \<Rightarrow>
          (let number = takeWhile (\<lambda>c. c \<noteq> CHR ''*'' \<and> c \<noteq> CHR '' '') rest
           in if number = rest then None
              else if length number = 4 \<and> list_all hex_digit_char number then Some number else None))"

definition new_efi_entries :: "string \<Rightarrow> string \<Rightarrow> string list" where
  "new_efi_entries before after =
     List.map_filter entry_number
       (filter (\<lambda>l. starts_with ''Boot'' l \<and> l \<notin> set (str_lines before)) (str_lines after))"


section \<open>The disk that is chosen\<close>

text \<open>A node of a device's tree: the device, or one inside one of its nodes.\<close>

inductive beneath :: "json \<Rightarrow> json \<Rightarrow> bool" for dev where
  beneath_self: "beneath dev dev"
| beneath_child: "beneath dev n \<Longrightarrow> c \<in> set (children_of n) \<Longrightarrow> beneath dev c"

lemma mounts_of_child: "c \<in> set (children_of n) \<Longrightarrow> set (mounts_of c) \<subseteq> set (mounts_of n)"
  by (subst (2) mounts_of.simps) auto

lemma mounts_of_beneath: "beneath dev n \<Longrightarrow> set (mounts_of n) \<subseteq> set (mounts_of dev)"
  by (induction rule: beneath.induct) (use mounts_of_child in blast)+

lemma mounted_in_mounts: "set (mounted_at n) \<subseteq> set (mounts_of n)"
  by (subst mounts_of.simps) simp

lemma choose_loop_free: "choose_loop disks typed = Inr d \<Longrightarrow> d \<in> set disks \<and> dk_mounts d = []"
  by (induction disks typed rule: choose_loop.induct) (auto simp: Let_def split: if_splits option.splits)

lemma disk_of_some:
  "disk_of dev = Some d \<Longrightarrow>
   dk_mounts d = mounts_of dev \<and> (\<exists>name. Option.bind (jget dev ''name'') as_str = Some name \<and> dk_path d = ''/dev/'' @ name \<and>
     \<not> starts_with ''zram'' name \<and> \<not> starts_with ''loop'' name) \<and> Option.bind (jget dev ''type'') as_str = Some ''disk''"
  by (auto simp: disk_of_def Let_def split: if_splits option.splits)

text \<open>
  C23. The disk a person chooses is one that \<open>lsblk\<close> lists, is neither compressed memory nor a loop
  device, and has nothing mounted anywhere in it: not on the disk, not on a partition, and not on
  anything inside a partition, however deep.
\<close>

theorem chosen_disk_is_not_in_use:
  assumes "disks_from_lsblk parse txt = Some disks" "choose_disk terminal disks typed = Inr d"
  shows "\<exists>root dev name. parse txt = Some root \<and> dev \<in> set (devices_of root) \<and>
    Option.bind (jget dev ''name'') as_str = Some name \<and> dk_path d = ''/dev/'' @ name \<and>
    \<not> starts_with ''zram'' name \<and> \<not> starts_with ''loop'' name \<and> (\<forall>n. beneath dev n \<longrightarrow> mounted_at n = [])"
proof -
  have c: "choose_loop disks typed = Inr d" using assms(2) by (simp add: choose_disk_def split: if_splits)
  obtain root where r: "parse txt = Some root" "disks = List.map_filter disk_of (devices_of root)"
    using assms(1) by (auto simp: disks_from_lsblk_def)
  obtain dev where d: "dev \<in> set (devices_of root)" "disk_of dev = Some d" "dk_mounts d = []"
    using choose_loop_free [OF c] by (auto simp: r(2) List.map_filter_def)
  have "mounted_at n = []" if "beneath dev n" for n
    using mounts_of_beneath [OF that] mounted_in_mounts [of n] disk_of_some [OF d(2)] d(3) by auto
  then show ?thesis using r(1) d(1) disk_of_some [OF d(2)] by blast
qed

definition sample_disk :: json where
  "sample_disk =
     JObject [(''name'', JString ''sda''), (''type'', JString ''disk''), (''size'', JString ''1T''),
       (''children'', JArray [JObject [(''name'', JString ''sda1''), (''mountpoints'', JArray [JNull])]])]"

definition busy_disk :: json where
  "busy_disk =
     JObject [(''name'', JString ''sdb''), (''type'', JString ''disk''),
       (''children'', JArray [JObject [(''name'', JString ''sdb1''),
          (''children'', JArray [JObject [(''mountpoints'', JArray [JString ''/''])]])]])]"

definition sample_lsblk :: json where
  "sample_lsblk = JObject [(''blockdevices'', JArray [busy_disk, sample_disk])]"

lemma sample_mounts: "mounts_of sample_disk = []" "mounts_of busy_disk = [''/'']"
  by (simp_all add: sample_disk_def busy_disk_def mounts_of.simps mounted_at_def children_of_def List.map_filter_def)

lemma sample_disks:
  "disks_from_lsblk (\<lambda>_. Some sample_lsblk) [] =
     Some [\<lparr>dk_path = ''/dev/sdb'', dk_size = ''?'', dk_model = [], dk_mounts = [''/'']\<rparr>,
           \<lparr>dk_path = ''/dev/sda'', dk_size = ''1T'', dk_model = [], dk_mounts = []\<rparr>]"
proof -
  have "disk_of busy_disk = Some \<lparr>dk_path = ''/dev/sdb'', dk_size = ''?'', dk_model = [], dk_mounts = [''/'']\<rparr>"
    unfolding disk_of_def sample_mounts by (simp add: busy_disk_def starts_with_def trim_empty)
  moreover have "disk_of sample_disk = Some \<lparr>dk_path = ''/dev/sda'', dk_size = ''1T'', dk_model = [], dk_mounts = []\<rparr>"
    unfolding disk_of_def sample_mounts by (simp add: sample_disk_def starts_with_def trim_empty)
  ultimately show ?thesis by (simp add: disks_from_lsblk_def devices_of_def sample_lsblk_def List.map_filter_def)
qed

lemma chosen_disk_is_not_in_use_witness:
  "\<exists>root dev name. Some sample_lsblk = Some root \<and> dev \<in> set (devices_of root) \<and>
    Option.bind (jget dev ''name'') as_str = Some name \<and> ''/dev/sda'' = ''/dev/'' @ name \<and>
    \<not> starts_with ''zram'' name \<and> \<not> starts_with ''loop'' name \<and> (\<forall>n. beneath dev n \<longrightarrow> mounted_at n = [])"
proof -
  have t: "trim ''1'' = ''1''" "trim ''2'' = ''2''" by (simp_all add: plain_trimmed plain_def visible_def)
  have p: "parse_u64 ''1'' = Some 1" "parse_u64 ''2'' = Some 2"
    by (simp_all add: parse_u64_def parse_below_def is_digit_def digits_val_def digit_val_def)
  have "list_all is_digit ''1''" "list_all is_digit ''2''" by code_simp+
  then have l: "to_ascii_lowercase ''1'' = ''1''" "to_ascii_lowercase ''2'' = ''2''" by (simp_all only: lower_digits)
  have "choose_disk True [\<lparr>dk_path = ''/dev/sdb'', dk_size = ''?'', dk_model = [], dk_mounts = [''/'']\<rparr>,
      \<lparr>dk_path = ''/dev/sda'', dk_size = ''1T'', dk_model = [], dk_mounts = []\<rparr>] [''1'', ''2''] =
    Inr \<lparr>dk_path = ''/dev/sda'', dk_size = ''1T'', dk_model = [], dk_mounts = []\<rparr>"
    unfolding choose_disk_def choose_loop.simps Let_def t p l by simp
  from chosen_disk_is_not_in_use [OF sample_disks this] show ?thesis by simp
qed

section \<open>Objections\<close>

lemma newly_nil: "newly [] xs = [] \<longleftrightarrow> xs = []"
  by (cases xs) auto


lemma partitions_are_on_disk:
  assumes "ds \<noteq> []" "list_all is_digit ds"
  shows "on_disk disk (disk @ ds) \<and> on_disk disk (disk @ ''p'' @ ds)"
proof -
  have "\<not> starts_with ''p'' ds" using assms by (cases ds) (auto simp: starts_with_def is_digit_def)
  then have "strip_prefix ''p'' ds = None" by (simp add: strip_prefix_def)
  then show ?thesis using assms by (simp add: on_disk_def strip_prefix_append [of "''p''" ds, simplified])
qed


section \<open>What the answers can be\<close>

lemma swap_size_loop_fits:
  "fst (swap_size_loop dflt spare typed) = Some mib \<Longrightarrow> (\<And>m. dflt = Some m \<Longrightarrow> m \<le> spare) \<Longrightarrow> mib \<le> spare"
  by (induction dflt spare typed rule: swap_size_loop.induct)
    (auto simp: Let_def objections_def split: if_splits sum.splits option.splits)

text \<open>
  Whatever is typed or named on the command line, a swapfile that is asked for fits the room it
  may take, also when a default is accepted or the input ends.
\<close>

theorem asked_swap_fits:
  assumes "fst (ask_swap flagged terminal proposed spare typed) = Inr (Some mib)"
  shows "mib \<le> spare"
proof (cases flagged)
  case None
  let ?d = "case proposed of Some mib \<Rightarrow> if mib \<le> spare then Some mib else None | None \<Rightarrow> None"
  obtain b ls where y: "yes_or_no typed = (b, ls)" by (cases "yes_or_no typed")
  have "fst (swap_size_loop ?d spare ls) = Some mib"
    using assms None by (cases terminal; cases b) (simp_all add: ask_swap_def y)
  moreover have "?d = Some m \<Longrightarrow> m \<le> spare" for m by (auto split: option.splits if_splits)
  ultimately show ?thesis by (rule swap_size_loop_fits)
next
  case (Some t)
  then show ?thesis using assms
    by (auto simp: ask_swap_def objections_def split: if_splits sum.splits option.splits list.splits)
qed

lemma asked_swap_fits_witness: "(2048 :: u64) \<le> 4096"
proof (rule asked_swap_fits)
  show "fst (ask_swap None True (Some 2048) 4096 [''yes'', []]) = Inr (Some 2048)"
  proof -
    have "plain ''yes''" by code_simp
    then have "trim ''yes'' = ''yes''" by (simp add: plain_trimmed)
    moreover have "to_ascii_lowercase ''yes'' = ''yes''" by (simp add: to_ascii_lowercase_def lower_ascii_def)
    ultimately show ?thesis by (simp add: ask_swap_def trim_empty)
  qed
qed

lemma size_loop_above:
  "(\<And>txt mib. resolve_size txt what = Inr mib \<Longrightarrow> lo \<le> mib) \<Longrightarrow> lo \<le> dflt \<Longrightarrow> lo \<le> fst (size_loop what dflt typed)"
  by (induction what dflt typed rule: size_loop.induct) (auto simp: Let_def split: sum.splits)

lemma ask_size_above:
  assumes "\<And>txt mib. resolve_size txt what = Inr mib \<Longrightarrow> lo \<le> mib" "lo \<le> dflt"
    "fst (ask_size given what dflt terminal typed) = Inr mib"
  shows "lo \<le> mib"
proof (cases given)
  case None
  then show ?thesis
    using assms(3) assms(2) size_loop_above [of what lo dflt typed, OF assms(1) assms(2)]
    by (auto simp: ask_size_def split: if_splits)
next
  case (Some t)
  then show ?thesis using assms(3) assms(1) [of t mib] by (auto simp: ask_size_def map_sum_def split: sum.splits)
qed

lemma asked_sizes_clear_their_floors:
  assumes "fst (ask_sizes esp boot terminal typed) = Inr s"
  shows "min_esp_mib \<le> sz_esp_mib s \<and> min_boot_mib \<le> sz_boot_mib s"
proof -
  obtain em bm ls ls' where a: "ask_size esp WhichEsp (sz_esp_mib default_sizes) terminal typed = (Inr em, ls)"
      "ask_size boot WhichBoot (sz_boot_mib default_sizes) terminal ls = (Inr bm, ls')"
      "s = \<lparr>sz_esp_mib = em, sz_boot_mib = bm\<rparr>"
    using assms by (auto simp: ask_sizes_def split: prod.splits sum.splits)
  have "min_esp_mib \<le> em"
    by (rule ask_size_above [where what = WhichEsp and given = esp and terminal = terminal and typed = typed and
          dflt = "sz_esp_mib default_sizes"])
      (use a(1) in \<open>auto simp: resolved_one default_sizes_def esp_mib_def min_esp_mib_def\<close>)
  moreover have "min_boot_mib \<le> bm"
    by (rule ask_size_above [where what = WhichBoot and given = boot and terminal = terminal and typed = ls and
          dflt = "sz_boot_mib default_sizes"])
      (use a(2) in \<open>auto simp: resolved_one default_sizes_def boot_mib_def min_boot_mib_def\<close>)
  ultimately show ?thesis by (simp add: a(3))
qed

section \<open>The sourced file\<close>

text \<open>
  How the shell that sources a file of assignments reads it: a name up to the equals sign and then one
  word, which ends at a line end outside quotes.
\<close>

fun sh_take :: "bool \<Rightarrow> string \<Rightarrow> (string \<times> string) option" where
  "sh_take q [] = (if q then None else Some ([], []))"
| "sh_take q (c # s) =
     (if c = CHR 0x27 then sh_take (\<not> q) s
      else if \<not> q \<and> c = nl then Some ([], s)
      else if \<not> q \<and> c = CHR 0x5C then (case s of [] \<Rightarrow> None | d # s' \<Rightarrow> map_option (apfst (Cons d)) (sh_take False s'))
      else if \<not> q \<and> means_something c then None
      else map_option (apfst (Cons c)) (sh_take q s))"

lemma map_apfst_some: "map_option (apfst f) x = Some (v, r) \<longleftrightarrow> (\<exists>w. x = Some (w, r) \<and> v = f w)"
  by (cases x) auto

lemma sh_take_shorter: "sh_take q s = Some (v, r) \<Longrightarrow> length r \<le> length s"
proof (induction q s arbitrary: v r rule: sh_take.induct)
  case (2 q c s)
  then show ?case
    by (cases s) (force simp: map_apfst_some split: if_splits)+
qed (simp split: if_splits)

lemma split_once_shorter: "split_once p s = Some (a, b) \<Longrightarrow> p \<noteq> [] \<Longrightarrow> length b < length s"
  by (induction p s arbitrary: a rule: split_once.induct) (auto split: if_splits simp del: drop_Cons' drop_Suc_Cons)

function sh_file :: "string \<Rightarrow> (string \<times> string) list option" where
  "sh_file s =
     (if s = [] then Some []
      else
        (case split_once ''='' s of
           None \<Rightarrow> None
         | Some (n, r) \<Rightarrow>
             (case sh_take False r of
                None \<Rightarrow> None
              | Some (v, rest) \<Rightarrow> map_option (Cons (n, v)) (sh_file rest))))"
  by auto

termination
  by (relation "measure length") (auto dest!: sh_take_shorter split_once_shorter)

declare sh_file.simps [simp del]

lemma line_end_byte: "nl = CHR 0x0A"
  by code_simp

lemma sh_take_quoted: "sh_take True (concat (map quote_char t) @ [CHR 0x27, nl] @ rest) = Some (t, rest)"
  by (induction t) (auto simp: quote_char_def line_end_byte)

lemma quote_char_plain: "c \<noteq> CHR 0x27 \<Longrightarrow> quote_char c = [c]"
  by (simp add: quote_char_def)

lemma sh_file_assignment:
  assumes "CHR ''='' \<notin> set n"
  shows "sh_file (assignment n (concat (map quote_char v)) @ rest) = map_option (Cons (n, v)) (sh_file rest)"
proof -
  have "split_once ''='' (assignment n (concat (map quote_char v)) @ rest) =
      Some (n, CHR 0x27 # concat (map quote_char v) @ [CHR 0x27, nl] @ rest)"
    using split_once_char [OF assms, of "CHR 0x27 # concat (map quote_char v) @ [CHR 0x27, nl] @ rest"]
    by (simp add: assignment_def apos_def)
  moreover have "sh_take False (CHR 0x27 # concat (map quote_char v) @ [CHR 0x27, nl] @ rest) = Some (v, rest)"
    using sh_take_quoted [of v rest] by simp
  ultimately show ?thesis by (subst sh_file.simps) (simp add: assignment_def)
qed

lemma quote_nothing: "CHR 0x27 \<notin> set v \<Longrightarrow> concat (map quote_char v) = v"
  by (induction v) (auto simp: quote_char_def)

definition account_answers :: "account \<Rightarrow> string option \<Rightarrow> (string \<times> string) list" where
  "account_answers ac key =
     [(''KUMA_USER'', ac_name ac)] @
     (case ac_shell ac of Some s \<Rightarrow> [(''KUMA_SHELL'', ''/usr/bin/'' @ s)] | None \<Rightarrow> []) @
     (if ac_groups ac \<noteq> [] then [(''KUMA_GROUPS'', joined '' '' (ac_groups ac))] else []) @
     [(''KUMA_PASSWORD_HASH'', ac_password_hash ac)] @
     (case key of Some k \<Rightarrow> [(''KUMA_SSH_KEY'', trim k)] | None \<Rightarrow> [])"

lemma sh_file_assignments:
  "\<forall>(n, v) \<in> set vs. CHR ''='' \<notin> set n \<Longrightarrow>
   sh_file (concat (map (\<lambda>(n, v). assignment n (concat (map quote_char v))) vs)) = Some vs"
proof (induction vs)
  case Nil
  then show ?case by (simp add: sh_file.simps)
next
  case (Cons p vs)
  then show ?case by (cases p) (simp add: sh_file_assignment)
qed

lemma valid_name_no_quote: "validate_name n ''.-_'' = Inr () \<Longrightarrow> CHR 0x27 \<notin> set n"
  by (auto simp: validate_name_def list_ex_iff ascii_alnum_def split: if_splits)

lemma joined_no_quote: "CHR 0x27 \<notin> set sep \<Longrightarrow> \<forall>w \<in> set ws. CHR 0x27 \<notin> set w \<Longrightarrow> CHR 0x27 \<notin> set (joined sep ws)"
  by (cases ws) (auto simp: joined_def)

lemma checked_name_valid: "checked_name n what extra = Inr m \<Longrightarrow> m = n \<and> validate_name n extra = Inr ()"
  by (auto simp: checked_name_def split: sum.splits)

lemma first_bad_name_none: "first_bad_name what ns = None \<Longrightarrow> \<forall>n \<in> set ns. validate_name n ''.-_'' = Inr ()"
  by (induction ns) (auto simp: checked_name_def split: sum.splits)

lemma asked_account_valid:
  assumes "ask_account hash name groups shell terminal prompts typed = Inr ac"
  shows "validate_name (ac_name ac) ''.-_'' = Inr ()" "\<forall>g \<in> set (ac_groups ac). validate_name g ''.-_'' = Inr ()"
    and "ac_shell ac = Some s \<Longrightarrow> validate_name s ''.-_'' = Inr ()" "\<exists>p. p \<noteq> [] \<and> hash p = Some (ac_password_hash ac)"
proof -
  obtain n ls password h where a: "validate_name n ''.-_'' = Inr ()" "first_bad_name ''user.groups'' groups = None"
      "fst (read_secret terminal prompts ls) = Inr password"
      "(case shell of Some s \<Rightarrow> first_bad_name ''user.shell'' [s] | None \<Rightarrow> None) = None" "hash password = Some h"
      "ac = \<lparr>ac_name = n, ac_password_hash = h, ac_groups = groups, ac_shell = shell\<rparr>"
    using assms unfolding ask_account_def checked_name_def
    by (auto split: option.splits sum.splits prod.splits if_splits list.splits)
  show "validate_name (ac_name ac) ''.-_'' = Inr ()" using a(1,6) by simp
  show "\<forall>g \<in> set (ac_groups ac). validate_name g ''.-_'' = Inr ()" using first_bad_name_none [OF a(2)] a(6) by simp
  show "validate_name s ''.-_'' = Inr ()" if "ac_shell ac = Some s"
    using first_bad_name_none [of "''user.shell''" "[s]"] a(4,6) that by simp
  have "password \<noteq> []" using a(3) by (auto simp: read_secret_def split: if_splits list.splits)
  then show "\<exists>p. p \<noteq> [] \<and> hash p = Some (ac_password_hash ac)" using a(5,6) by auto
qed



section \<open>The credential file is read one way\<close>

lemma ambiguous_line_none:
  "ambiguous_line l = None \<longleftrightarrow>
     trim l = [] \<or> starts_with ''#'' (trim l) \<or>
     (case split_once ''='' (trim l) of
        None \<Rightarrow> True
      | Some (k, v) \<Rightarrow> trim l = l \<and> trim k = k \<and> trim v = v \<and> \<not> list_ex hazard v)"
  by (auto simp: ambiguous_line_def Let_def split: option.splits)

text \<open>
  A credential file the installer accepts names a repository and a password, and every line of it
  that is not blank or a comment and has an equals sign is one its readers agree about: the line, its
  key and its value have no white space at their edges, and the value has no quote, backslash, dollar
  or backtick.
\<close>

theorem accepted_credentials_are_plain:
  assumes "restore_file_is_usable txt = Inr ()"
  shows "''RESTIC_REPOSITORY'' \<in> set (restore_names txt) \<and> list_ex (starts_with ''RESTIC_PASSWORD'') (restore_names txt) \<and>
    list_all (\<lambda>l. trim l = [] \<or> starts_with ''#'' (trim l) \<or>
      (case split_once ''='' (trim l) of
         None \<Rightarrow> True
       | Some (k, v) \<Rightarrow> trim l = l \<and> trim k = k \<and> trim v = v \<and> \<not> list_ex hazard v)) (split_char nl txt)"
proof -
  have "ambiguous_values txt = []" using assms by (auto simp: restore_file_is_usable_def split: if_splits)
  then have "list_all (\<lambda>l. ambiguous_line l = None) (split_char nl txt)"
    by (auto simp: ambiguous_values_def List.map_filter_def filter_empty_conv list_all_iff)
  then show ?thesis
    using assms unfolding ambiguous_line_none by (auto simp: restore_file_is_usable_def split: if_splits)
qed

text \<open>
  The loop that hands the file to \<open>restic\<close>: every line but an empty one and one that begins with a hash
  is exported as it stands.
\<close>

definition exported_lines :: "string \<Rightarrow> string list" where
  "exported_lines txt = filter (\<lambda>l. l \<noteq> [] \<and> \<not> starts_with ''#'' l) (split_char nl txt)"

theorem indented_comment_is_exported:
  "ambiguous_values ''  # note'' = [] \<and> exported_lines ''  # note'' = [''  # note'']"
proof -
  have l: "split_char nl ''  # note'' = [''  # note'']" by code_simp
  have "trim ''  # note'' = ''# note''" by code_simp
  then show ?thesis unfolding ambiguous_values_def exported_lines_def l
    by (simp add: ambiguous_line_def List.map_filter_def starts_with_def)
qed

section \<open>New entries of the firmware\<close>

lemma entry_number_line:
  "entry_number l = Some n \<Longrightarrow> \<exists>r. l = ''Boot'' @ n @ r \<and> length n = 4 \<and> list_all hex_digit_char n"
proof -
  assume e: "entry_number l = Some n"
  then obtain rest where r: "l = ''Boot'' @ rest"
      "n = takeWhile (\<lambda>c. c \<noteq> CHR ''*'' \<and> c \<noteq> CHR '' '') rest" "length n = 4" "list_all hex_digit_char n"
    by (auto simp: entry_number_def Let_def strip_prefix_Some split: option.splits if_splits)
  have "rest = n @ dropWhile (\<lambda>c. c \<noteq> CHR ''*'' \<and> c \<noteq> CHR '' '') rest" by (simp add: r(2))
  then show ?thesis using r(1,3,4) by blast
qed

lemma reported_entry_is_new:
  "n \<in> set (new_efi_entries before after) \<Longrightarrow>
   \<exists>r. ''Boot'' @ n @ r \<in> set (str_lines after) \<and> ''Boot'' @ n @ r \<notin> set (str_lines before)"
  by (fastforce simp: new_efi_entries_def List.map_filter_def dest: entry_number_line)

end
